(* ===== verification/Prelude.thy ===== *)
theory Prelude
  imports Main "HOL-Library.Word"
begin

text \<open>
  Shared vocabulary of the development: the machine integers the kernel uses, the error
  enumerations, the result type every fallible operation returns, Rust's \<open>Arc\<close> as an explicit
  reference-counted store, and the generic lemmas the component theories rest on.

  \<^item> \<open>usize\<close>, \<open>u64\<close>, \<open>u32\<close>, \<open>u8\<close> are words; \<open>+\<close>, \<open>-\<close> and \<open>*\<close> wrap around, as the
    release build of the kernel does. Signed integers (\<open>i32\<close>, \<open>i64\<close>, \<open>isize\<close>) are words too,
    read with \<open>sint\<close>. Indices and lengths that a proved invariant keeps far
    below the word size are natural numbers.
  \<^item> \<open>('e, 'a) result\<close> is Rust's \<open>Result\<close> with a third outcome \<open>Panic\<close> for a failed
    \<open>unwrap\<close>, \<open>expect\<close>, \<open>assert!\<close> or an out-of-range index.
  \<^item> The conversion from the error type of the \<open>axerrno\<close> crate to the Linux error codes is code
    outside this repository: it is a parameter of the definitions that use it.
\<close>

unbundle bit_operations_syntax

section \<open>Machine integers\<close>

type_synonym u8 = "8 word"
type_synonym u16 = "16 word"
type_synonym u32 = "32 word"
type_synonym u64 = "64 word"
type_synonym usize = "64 word"
type_synonym i16 = "16 word"
type_synonym i32 = "32 word"
type_synonym i64 = "64 word"

text \<open>\<open>u64::checked_add_signed\<close> of the standard library.\<close>

definition checked_add_signed :: "u64 \<Rightarrow> i64 \<Rightarrow> u64 option" where
  "checked_add_signed a off =
     (let v = uint a + sint off in if 0 \<le> v \<and> v < 2 ^ 64 then Some (word_of_int v) else None)"

section \<open>Errors and results\<close>

text \<open>The members of \<open>axerrno::LinuxError\<close> and \<open>axerrno::AxError\<close> that the kernel names.\<close>

datatype LinuxError =
    EPERM | ENOENT | ESRCH | EINTR | EAGAIN | ENOMEM | EFAULT | ENODEV | ENOTDIR | EISDIR
  | EINVAL | EMFILE | EBADF | ECHILD | ENOSYS | ERANGE | EPIPE | ESPIPE | EILSEQ
  | EAFNOSUPPORT | EOPNOTSUPP | EISCONN | EACCES | EEXIST | ENOTEMPTY | EADDRINUSE

datatype AxError =
    AddrInUse | AlreadyExists | BadAddress | BadState | DirectoryNotEmpty | InvalidData
  | InvalidInput | IsADirectory | NoMemory | NotADirectory | NotFound | PermissionDenied
  | WouldBlock | Unsupported | StorageFull

datatype ('e, 'a) result = Ok 'a | Err 'e | Panic

type_synonym 'a LinuxResult = "(LinuxError, 'a) result"
type_synonym 'a AxResult = "(AxError, 'a) result"

text \<open>The \<open>?\<close> operator: stop at the first error, and stop at a panic.\<close>

fun bindR :: "('e, 'a) result \<Rightarrow> ('a \<Rightarrow> ('e, 'b) result) \<Rightarrow> ('e, 'b) result" where
  "bindR (Ok x) f = f x"
| "bindR (Err e) f = Err e"
| "bindR Panic f = Panic"

fun map_err :: "('e \<Rightarrow> 'f) \<Rightarrow> ('e, 'a) result \<Rightarrow> ('f, 'a) result" where
  "map_err g (Ok x) = Ok x"
| "map_err g (Err e) = Err (g e)"
| "map_err g Panic = Panic"

definition ok_or :: "'e \<Rightarrow> 'a option \<Rightarrow> ('e, 'a) result" where
  "ok_or e x = (case x of None \<Rightarrow> Err e | Some y \<Rightarrow> Ok y)"

fun is_ok :: "('e, 'a) result \<Rightarrow> bool" where
  "is_ok (Ok _) = True"
| "is_ok (Err _) = False"
| "is_ok Panic = False"

named_theorems ok_iff \<open>when a composed computation succeeds\<close>

lemma bindR_Ok_iff [ok_iff]: "bindR m f = Ok y \<longleftrightarrow> (\<exists>x. m = Ok x \<and> f x = Ok y)"
  by (cases m) auto

lemma bindR_Err_iff: "bindR m f = Err e \<longleftrightarrow> m = Err e \<or> (\<exists>x. m = Ok x \<and> f x = Err e)"
  by (cases m) auto

lemma bindR_Panic_iff: "bindR m f = Panic \<longleftrightarrow> m = Panic \<or> (\<exists>x. m = Ok x \<and> f x = Panic)"
  by (cases m) auto

lemma map_err_Ok_iff [ok_iff]: "map_err g m = Ok y \<longleftrightarrow> m = Ok y"
  by (cases m) auto

lemma ok_or_Ok_iff [ok_iff]: "ok_or e x = Ok y \<longleftrightarrow> x = Some y"
  by (simp add: ok_or_def split: option.splits)

lemma ok_or_simps [simp]: "ok_or e None = Err e" "ok_or e (Some y) = Ok y"
  by (simp_all add: ok_or_def)

lemma is_ok_iff [ok_iff]: "is_ok m \<longleftrightarrow> (\<exists>x. m = Ok x)"
  by (cases m) auto

text \<open>
  Computations on a state that may fail, with the state passed along; a failure keeps the state it
  left behind.
\<close>

type_synonym ('s, 'e, 'a) io = "'s \<Rightarrow> ('e, 'a) result \<times> 's"

definition okS :: "'a \<Rightarrow> ('s, 'e, 'a) io" where
  "okS x s = (Ok x, s)"

definition errS :: "'e \<Rightarrow> ('s, 'e, 'a) io" where
  "errS e s = (Err e, s)"

definition panicS :: "('s, 'e, 'a) io" where
  "panicS s = (Panic, s)"

definition bindS :: "('s, 'e, 'a) io \<Rightarrow> ('a \<Rightarrow> ('s, 'e, 'b) io) \<Rightarrow> ('s, 'e, 'b) io" where
  "bindS m f s = (case m s of (Ok x, s') \<Rightarrow> f x s' | (Err e, s') \<Rightarrow> (Err e, s') | (Panic, s') \<Rightarrow> (Panic, s'))"

text \<open>Reading the state, and lifting a result that does not change it.\<close>

definition getS :: "('s \<Rightarrow> ('e, 'a) result) \<Rightarrow> ('s, 'e, 'a) io" where
  "getS f s = (f s, s)"

lemma io_simps [simp]:
  "okS x s = (Ok x, s)" "errS e s = (Err e, s)" "panicS s = (Panic, s)" "getS f s = (f s, s)"
  by (simp_all add: okS_def errS_def panicS_def getS_def)

lemma bindS_Ok_iff [ok_iff]:
  "bindS m f s = (Ok y, s'') \<longleftrightarrow> (\<exists>x s'. m s = (Ok x, s') \<and> f x s' = (Ok y, s''))"
  by (auto simp: bindS_def split: prod.splits result.splits)

lemma bindS_cong_Ok [simp]:
  "m s = (Ok x, s') \<Longrightarrow> bindS m f s = f x s'" "m s = (Err e, s') \<Longrightarrow> bindS m f s = (Err e, s')"
  "m s = (Panic, s') \<Longrightarrow> bindS m f s = (Panic, s')"
  by (simp_all add: bindS_def)

lemma snd_bindS:
  "snd (bindS m f s) = (case fst (m s) of Ok x \<Rightarrow> snd (f x (snd (m s))) | _ \<Rightarrow> snd (m s))"
  by (simp add: bindS_def split: prod.splits result.splits)

section \<open>Reference counting\<close>

text \<open>
  The heap behind Rust's \<open>Arc\<close>: every live allocation has its strong count and its contents.
  \<open>arc_drop\<close> also returns the contents when the last reference goes, for the caller to drop what is
  inside.
\<close>

type_synonym 'a arcs = "nat \<Rightarrow> (nat \<times> 'a) option"

definition arc_clone :: "nat \<Rightarrow> 'a arcs \<Rightarrow> 'a arcs" where
  "arc_clone a H = (case H a of None \<Rightarrow> H | Some (n, v) \<Rightarrow> H(a \<mapsto> (n + 1, v)))"

definition arc_drop :: "nat \<Rightarrow> 'a arcs \<Rightarrow> 'a option \<times> 'a arcs" where
  "arc_drop a H =
     (case H a of None \<Rightarrow> (None, H)
      | Some (n, v) \<Rightarrow> if n = 1 then (Some v, H(a := None)) else (None, H(a \<mapsto> (n - 1, v))))"

definition arc_count :: "'a arcs \<Rightarrow> nat \<Rightarrow> nat" where
  "arc_count H a = (case H a of None \<Rightarrow> 0 | Some (n, v) \<Rightarrow> n)"

definition arc_get :: "'a arcs \<Rightarrow> nat \<Rightarrow> 'a option" where
  "arc_get H a = map_option snd (H a)"

text \<open>Every count is what the users of the store hold, and nothing dead is kept.\<close>

definition arc_ok :: "'a arcs \<Rightarrow> (nat \<Rightarrow> nat) \<Rightarrow> bool" where
  "arc_ok H refs \<longleftrightarrow> (\<forall>a. refs a = arc_count H a \<and> (H a = None \<or> 0 < arc_count H a))"

lemma arc_get_None [simp]: "arc_get H a = None \<longleftrightarrow> H a = None"
  by (simp add: arc_get_def)

lemma arc_get_Some: "arc_get H a = Some v \<longleftrightarrow> (\<exists>n. H a = Some (n, v))"
  by (auto simp: arc_get_def)

lemma arc_get_clone [simp]: "arc_get (arc_clone a H) = arc_get H"
  by (rule ext) (auto simp: arc_get_def arc_clone_def split: option.splits)

lemma arc_get_drop:
  "arc_get (snd (arc_drop a H)) = (if arc_count H a = 1 then (arc_get H)(a := None) else arc_get H)"
  by (rule ext) (auto simp: arc_get_def arc_drop_def arc_count_def split: option.splits)

lemma arc_drop_freed: "fst (arc_drop a H) = (if arc_count H a = 1 then arc_get H a else None)"
  by (auto simp: arc_get_def arc_drop_def arc_count_def split: option.splits)

lemma arc_count_clone: "H a \<noteq> None \<Longrightarrow> arc_count (arc_clone a H) = (arc_count H)(a := arc_count H a + 1)"
  by (rule ext) (auto simp: arc_clone_def arc_count_def)

lemma arc_count_drop: "arc_count (snd (arc_drop a H)) = (arc_count H)(a := arc_count H a - 1)"
  by (rule ext) (auto simp: arc_drop_def arc_count_def split: option.splits)

lemma arc_count_new: "arc_count (H(a \<mapsto> (n, v))) = (arc_count H)(a := n)"
  by (rule ext) (simp add: arc_count_def)

lemma arc_drop_dead: "snd (arc_drop a H) x = None \<or> 0 < arc_count (snd (arc_drop a H)) x"
  if "H x = None \<or> 0 < arc_count H x"
  using that by (cases "H x"; cases "H a"; cases "x = a") (auto simp: arc_drop_def arc_count_def split: if_splits)

lemma arc_clone_dead: "arc_clone a H x = None \<longleftrightarrow> H x = None"
  by (auto simp: arc_clone_def split: option.splits)

lemma dom_arc_clone [simp]: "dom (arc_clone a H) = dom H"
  by (auto simp: arc_clone_def split: option.splits)

lemma finite_dom_drop: "finite (dom H) \<Longrightarrow> finite (dom (snd (arc_drop a H)))"
  by (auto simp: arc_drop_def split: option.splits)

lemma arc_drop_None: "H x = None \<Longrightarrow> snd (arc_drop a H) x = None"
  by (auto simp: arc_drop_def split: option.splits)

lemma arc_ok_count: "arc_ok H r \<Longrightarrow> r a = arc_count H a"
  by (simp add: arc_ok_def)

lemma arc_ok_live: "arc_ok H r \<Longrightarrow> H a \<noteq> None \<longleftrightarrow> 0 < r a"
  by (cases "H a") (auto simp: arc_ok_def arc_count_def dest: spec [of _ a])

lemma arc_ok_cong: "arc_ok H r \<Longrightarrow> \<forall>x. r' x = r x \<Longrightarrow> arc_ok H r'"
  by (simp add: arc_ok_def)

lemma arc_ok_clone:
  assumes "arc_ok H r" "H a \<noteq> None" "\<forall>x. r' x = r x + (if x = a then 1 else 0)"
  shows "arc_ok (arc_clone a H) r'"
  using assms unfolding arc_ok_def by (simp add: arc_count_clone arc_clone_dead)

lemma arc_ok_drop:
  assumes "arc_ok H r" "\<forall>x. r x = r' x + (if x = a then 1 else 0)"
  shows "arc_ok (snd (arc_drop a H)) r'"
proof -
  have "r' x = (if x = a then r x - 1 else r x)" for x using assms(2) by simp
  with assms(1) show ?thesis
    unfolding arc_ok_def using arc_drop_dead [of H] by (simp add: arc_count_drop)
qed

lemma arc_ok_new:
  assumes "arc_ok H r" "0 < n" "\<forall>x. r' x = (if x = a then n else r x)"
  shows "arc_ok (H(a \<mapsto> (n, v))) r'"
  using assms unfolding arc_ok_def by (simp add: arc_count_new)

section \<open>Numbers\<close>

lemma mixed_radix_inj:
  fixes a b n x y :: nat
  assumes "a < n" "b < n" "x * n + a = y * n + b"
  shows "x = y \<and> a = b"
proof -
  have "x = (x * n + a) div n" "y = (y * n + b) div n" using assms(1,2) by simp_all
  moreover have "a = (x * n + a) mod n" "b = (y * n + b) mod n" using assms(1,2) by simp_all
  ultimately show ?thesis using assms(3) by simp
qed

lemma mixed_radix_borrow:
  fixes a b n x y :: nat
  assumes "y < x" "b \<le> n"
  shows "(x - y - 1) * n + (a + n - b) + (y * n + b) = x * n + a"
proof -
  from assms(1) obtain k where "x = Suc (y + k)" using less_imp_Suc_add by blast
  with assms(2) show ?thesis by (simp add: algebra_simps)
qed

lemma sint_nonneg:
  assumes "0 \<le> sint (x :: 'a::len word)"
  shows "sint x = uint x"
  using assms
proof (transfer)
  fix k :: int
  assume "0 \<le> signed_take_bit (LENGTH('a) - Suc 0) k"
  then have "\<not> bit k (LENGTH('a) - Suc 0)" by simp
  then show "signed_take_bit (LENGTH('a) - Suc 0) k = take_bit LENGTH('a) k"
    using take_bit_Suc_from_most [of "LENGTH('a) - Suc 0" k]
    by (simp add: signed_take_bit_eq_if_positive)
qed
section \<open>Lists\<close>

lemma card_1_member: "a \<in> S \<Longrightarrow> card S = 1 \<longleftrightarrow> S = {a}"
  by (auto simp: card_1_singleton_iff)

lemma bex_set_nth: "(\<exists>x \<in> set xs. P x) \<longleftrightarrow> (\<exists>i < length xs. P (xs ! i))"
  by (metis in_set_conv_nth)

lemma take_drop_append: "take m (drop w xs) @ take k (drop (w + m) xs) = take (m + k) (drop w xs)"
  by (simp add: take_add [of m k] add.commute [of w m])

end
