(* ===== verification/Pipe.thy ===== *)
theory Pipe
  imports Prelude
begin

text \<open>
  The anonymous pipe of \<open>api/src/file/pipe.rs\<close>: the 256-byte ring buffer, the two pipe ends that
  share it, and the blocking read and write loops.

  A blocking loop takes the list of everything the other tasks do: one state transformer for
  each time the loop gives up the buffer's lock before taking it again. The empty list means
  that the call is still waiting (\<open>None\<close>).
\<close>

section \<open>The ring buffer\<close>

datatype RingBufferStatus = Full | Empty | Normal

definition RING_BUFFER_SIZE :: nat where
  "RING_BUFFER_SIZE = 256"

record PipeRingBuffer =
  rb_arr :: "u8 list"
  rb_head :: nat
  rb_tail :: nat
  rb_status :: RingBufferStatus

definition ring_new :: PipeRingBuffer where
  "ring_new =
     \<lparr>rb_arr = replicate RING_BUFFER_SIZE 0, rb_head = 0, rb_tail = 0, rb_status = Empty\<rparr>"

text \<open>An index outside the array panics (\<open>None\<close>).\<close>

definition write_byte :: "u8 \<Rightarrow> PipeRingBuffer \<Rightarrow> PipeRingBuffer option" where
  "write_byte byte rb =
     (if rb_tail rb < length (rb_arr rb)
      then let rb1 = rb\<lparr>rb_status := Normal, rb_arr := (rb_arr rb)[rb_tail rb := byte],
                        rb_tail := (rb_tail rb + 1) mod RING_BUFFER_SIZE\<rparr>
           in Some (if rb_tail rb1 = rb_head rb1 then rb1\<lparr>rb_status := Full\<rparr> else rb1)
      else None)"

definition read_byte :: "PipeRingBuffer \<Rightarrow> (u8 \<times> PipeRingBuffer) option" where
  "read_byte rb =
     (if rb_head rb < length (rb_arr rb)
      then let c = rb_arr rb ! rb_head rb;
               rb1 = rb\<lparr>rb_status := Normal, rb_head := (rb_head rb + 1) mod RING_BUFFER_SIZE\<rparr>
           in Some (c, if rb_head rb1 = rb_tail rb1 then rb1\<lparr>rb_status := Empty\<rparr> else rb1)
      else None)"

definition available_read :: "PipeRingBuffer \<Rightarrow> nat" where
  "available_read rb =
     (if rb_status rb = Empty then 0
      else if rb_tail rb > rb_head rb then rb_tail rb - rb_head rb
      else rb_tail rb + RING_BUFFER_SIZE - rb_head rb)"

definition available_write :: "PipeRingBuffer \<Rightarrow> nat" where
  "available_write rb =
     (if rb_status rb = Full then 0 else RING_BUFFER_SIZE - available_read rb)"

subsection \<open>The two copying loops\<close>

text \<open>\<open>for c in buf.iter_mut().take(n) { *c = ring_buffer.read_byte(); }\<close>\<close>

fun drain :: "('q \<Rightarrow> ('a \<times> 'q) option) \<Rightarrow> nat \<Rightarrow> 'q \<Rightarrow> ('a list \<times> 'q) option" where
  "drain deq 0 q = Some ([], q)"
| "drain deq (Suc n) q =
     (case deq q of None \<Rightarrow> None
      | Some (x, q1) \<Rightarrow>
          (case drain deq n q1 of None \<Rightarrow> None | Some (xs, q2) \<Rightarrow> Some (x # xs, q2)))"

text \<open>
  \<open>for _ in 0..loop_write { if write_size == total_len { return ..; } write_byte(buf[write_size]);
  write_size += 1; }\<close>: the flag says that the loop returned from inside.
\<close>

fun fill :: "('a \<Rightarrow> 'q \<Rightarrow> 'q option) \<Rightarrow> nat \<Rightarrow> 'a list \<Rightarrow> nat \<Rightarrow> 'q \<Rightarrow> (bool \<times> nat \<times> 'q) option" where
  "fill enq 0 buf write_size q = Some (False, write_size, q)"
| "fill enq (Suc n) buf write_size q =
     (if write_size = length buf then Some (True, write_size, q)
      else case enq (buf ! write_size) q of None \<Rightarrow> None
           | Some q1 \<Rightarrow> fill enq n buf (write_size + 1) q1)"

section \<open>Pipe ends\<close>

text \<open>
  The shared state of a pipe: the buffer behind the mutex and the strong count of its \<open>Arc\<close>.
  The record is open, so that a history of the bytes read can be added in the proofs.
\<close>

record pipe_state =
  ps_buf :: PipeRingBuffer
  ps_count :: nat

record Pipe =
  p_readable :: bool

definition pipe_new :: "Pipe \<times> Pipe \<times> pipe_state" where
  "pipe_new = (\<lparr>p_readable = True\<rparr>, \<lparr>p_readable = False\<rparr>, \<lparr>ps_buf = ring_new, ps_count = 2\<rparr>)"

definition pipe_readable :: "Pipe \<Rightarrow> bool" where
  "pipe_readable p = p_readable p"

definition pipe_writable :: "Pipe \<Rightarrow> bool" where
  "pipe_writable p = (\<not> p_readable p)"

definition pipe_closed :: "'z pipe_state_scheme \<Rightarrow> bool" where
  "pipe_closed s = (ps_count s = 1)"

fun pipe_read_loop ::
  "('z pipe_state_scheme \<Rightarrow> 'z pipe_state_scheme) list \<Rightarrow> nat \<Rightarrow> 'z pipe_state_scheme
   \<Rightarrow> (u8 list LinuxResult \<times> 'z pipe_state_scheme) option" where
  "pipe_read_loop [] len s = None"
| "pipe_read_loop (env # envs) len s =
     (let s1 = env s;
          read_size = min (available_read (ps_buf s1)) len
      in if read_size = 0
         then if pipe_closed s1 then Some (Ok [], s1) else pipe_read_loop envs len s1
         else case drain read_byte read_size (ps_buf s1) of
                None \<Rightarrow> Some (Panic, s1)
              | Some (bs, b) \<Rightarrow> Some (Ok bs, s1\<lparr>ps_buf := b\<rparr>))"

text \<open>\<open>FileLike::read\<close>: the bytes stored at the front of the caller's buffer of \<open>len\<close> bytes.\<close>

definition pipe_read ::
  "('z pipe_state_scheme \<Rightarrow> 'z pipe_state_scheme) list \<Rightarrow> Pipe \<Rightarrow> nat \<Rightarrow> 'z pipe_state_scheme
   \<Rightarrow> (u8 list LinuxResult \<times> 'z pipe_state_scheme) option" where
  "pipe_read envs p len s =
     (if \<not> pipe_readable p then Some (Err EPERM, s)
      else if len = 0 then Some (Ok [], s)
      else pipe_read_loop envs len s)"

fun pipe_write_loop ::
  "('z pipe_state_scheme \<Rightarrow> 'z pipe_state_scheme) list \<Rightarrow> u8 list \<Rightarrow> nat \<Rightarrow> 'z pipe_state_scheme
   \<Rightarrow> (nat LinuxResult \<times> 'z pipe_state_scheme) option" where
  "pipe_write_loop [] buf write_size s = None"
| "pipe_write_loop (env # envs) buf write_size s =
     (let s1 = env s;
          loop_write = available_write (ps_buf s1)
      in if loop_write = 0
         then if pipe_closed s1 then Some (Ok write_size, s1)
              else pipe_write_loop envs buf write_size s1
         else case fill write_byte loop_write buf write_size (ps_buf s1) of
                None \<Rightarrow> Some (Panic, s1)
              | Some (returned, write_size1, b) \<Rightarrow>
                  (let s2 = s1\<lparr>ps_buf := b\<rparr>
                   in if returned then Some (Ok write_size1, s2)
                      else pipe_write_loop envs buf write_size1 s2))"

text \<open>\<open>FileLike::write\<close>: the number of bytes written.\<close>

definition pipe_write ::
  "('z pipe_state_scheme \<Rightarrow> 'z pipe_state_scheme) list \<Rightarrow> Pipe \<Rightarrow> u8 list \<Rightarrow> 'z pipe_state_scheme
   \<Rightarrow> (nat LinuxResult \<times> 'z pipe_state_scheme) option" where
  "pipe_write envs p buf s =
     (if \<not> pipe_writable p then Some (Err EPERM, s)
      else if pipe_closed s then Some (Err EPIPE, s)
      else if buf = [] then Some (Ok 0, s)
      else pipe_write_loop envs buf 0 s)"

record PollState =
  poll_readable :: bool
  poll_writable :: bool

definition pipe_poll :: "Pipe \<Rightarrow> 'z pipe_state_scheme \<Rightarrow> PollState" where
  "pipe_poll p s =
     \<lparr>poll_readable = (pipe_readable p \<and> available_read (ps_buf s) > 0),
      poll_writable = (pipe_writable p \<and> available_write (ps_buf s) > 0)\<rparr>"

section \<open>A bounded first-in first-out queue\<close>

text \<open>
  What a client of the ring buffer relies on: an invariant and a list of the queued bytes that
  \<open>enq\<close> extends at the end and \<open>deq\<close> consumes at the front, never failing within the bounds.
\<close>

locale bounded_fifo =
  fixes enq :: "'a \<Rightarrow> 'q \<Rightarrow> 'q option"
    and deq :: "'q \<Rightarrow> ('a \<times> 'q) option"
    and len :: "'q \<Rightarrow> nat"
    and room :: "'q \<Rightarrow> nat"
    and items :: "'q \<Rightarrow> 'a list"
    and invar :: "'q \<Rightarrow> bool"
    and cap :: nat
  assumes len_items: "invar q \<Longrightarrow> len q = length (items q)"
    and room_items: "invar q \<Longrightarrow> room q = cap - length (items q)"
    and items_bound: "invar q \<Longrightarrow> length (items q) \<le> cap"
    and enq_items: "invar q \<Longrightarrow> length (items q) < cap \<Longrightarrow>
          \<exists>q'. enq x q = Some q' \<and> invar q' \<and> items q' = items q @ [x]"
    and deq_items: "invar q \<Longrightarrow> items q \<noteq> [] \<Longrightarrow>
          \<exists>q'. deq q = Some (hd (items q), q') \<and> invar q' \<and> items q' = tl (items q)"
begin

lemma drain_items:
  "invar q \<Longrightarrow> n \<le> length (items q) \<Longrightarrow>
   \<exists>q'. drain deq n q = Some (take n (items q), q') \<and> invar q' \<and> items q' = drop n (items q)"
proof (induction n arbitrary: q)
  case 0
  then show ?case by simp
next
  case (Suc n)
  then have ne: "items q \<noteq> []" by auto
  with Suc.prems(1) obtain q1 where
    q1: "deq q = Some (hd (items q), q1)" "invar q1" "items q1 = tl (items q)"
    using deq_items by blast
  from Suc.prems(2) q1(3) have "n \<le> length (items q1)" by simp
  with Suc.IH [OF q1(2)] obtain q2 where
    "drain deq n q1 = Some (take n (items q1), q2)" "invar q2" "items q2 = drop n (items q1)"
    by blast
  with q1 ne show ?case by (cases "items q") auto
qed

lemma fill_items:
  "invar q \<Longrightarrow> n \<le> cap - length (items q) \<Longrightarrow> w \<le> length buf \<Longrightarrow>
   \<exists>q'. fill enq n buf w q = Some (length buf - w < n, min (w + n) (length buf), q') \<and> invar q' \<and>
        items q' = items q @ take n (drop w buf)"
proof (induction n arbitrary: q w)
  case 0
  then show ?case by simp
next
  case (Suc n)
  show ?case
  proof (cases "w = length buf")
    case True
    with Suc.prems show ?thesis by simp
  next
    case False
    with Suc.prems have lt: "w < length buf" and sp: "length (items q) < cap" by auto
    from enq_items [OF Suc.prems(1) sp] obtain q1 where
      q1: "enq (buf ! w) q = Some q1" "invar q1" "items q1 = items q @ [buf ! w]" by blast
    from Suc.prems(2) q1(3) sp have "n \<le> cap - length (items q1)" by simp
    with Suc.IH [OF q1(2), of "Suc w"] lt obtain q2 where
      "fill enq n buf (Suc w) q1 = Some (length buf - Suc w < n, min (Suc w + n) (length buf), q2)"
      "invar q2" "items q2 = items q1 @ take n (drop (Suc w) buf)" by auto
    moreover have "take (Suc n) (drop w buf) = buf ! w # take n (drop (Suc w) buf)"
      using lt by (simp add: Cons_nth_drop_Suc [symmetric])
    moreover have "(length buf - Suc w < n) = (length buf - w < Suc n)"
      using lt by auto
    ultimately show ?thesis using q1 False by simp
  qed
qed

end

section \<open>The ring buffer is such a queue\<close>

definition rb_inv :: "PipeRingBuffer \<Rightarrow> bool" where
  "rb_inv rb \<longleftrightarrow>
     length (rb_arr rb) = RING_BUFFER_SIZE \<and> rb_head rb < RING_BUFFER_SIZE \<and>
     rb_tail rb < RING_BUFFER_SIZE \<and> (rb_status rb = Normal \<longleftrightarrow> rb_head rb \<noteq> rb_tail rb)"

definition rb_contents :: "PipeRingBuffer \<Rightarrow> u8 list" where
  "rb_contents rb =
     map (\<lambda>i. rb_arr rb ! ((rb_head rb + i) mod RING_BUFFER_SIZE)) [0..<available_read rb]"

lemma length_rb_contents [simp]: "length (rb_contents rb) = available_read rb"
  by (simp add: rb_contents_def)

lemma rb_inv_new [simp]: "rb_inv ring_new"
  by (simp add: rb_inv_def ring_new_def RING_BUFFER_SIZE_def)

lemma rb_contents_new [simp]: "rb_contents ring_new = []"
  by (simp add: rb_contents_def ring_new_def available_read_def)

lemma available_read_bound: "rb_inv rb \<Longrightarrow> available_read rb \<le> RING_BUFFER_SIZE"
  by (auto simp: rb_inv_def available_read_def)

lemma available_read_full:
  "rb_inv rb \<Longrightarrow> (rb_status rb = Full) = (available_read rb = RING_BUFFER_SIZE)"
  by (cases "rb_status rb") (auto simp: rb_inv_def available_read_def RING_BUFFER_SIZE_def)

lemma available_write_eq: "rb_inv rb \<Longrightarrow> available_write rb = RING_BUFFER_SIZE - available_read rb"
  by (auto simp: available_write_def available_read_full)

lemma rb_tail_eq:
  "rb_inv rb \<Longrightarrow> rb_tail rb = (rb_head rb + available_read rb) mod RING_BUFFER_SIZE"
  by (cases "rb_status rb")
     (auto simp: rb_inv_def available_read_def RING_BUFFER_SIZE_def mod_if)

lemma ring_index:
  "h < n \<Longrightarrow> i < n \<Longrightarrow> (h + i) mod n = (if h + i < n then h + i else h + i - (n::nat))"
  by (auto simp: mod_if)

lemma write_byte_contents:
  assumes inv: "rb_inv rb" and sp: "available_read rb < RING_BUFFER_SIZE"
  shows "\<exists>rb'. write_byte b rb = Some rb' \<and> rb_inv rb' \<and> rb_contents rb' = rb_contents rb @ [b]"
proof -
  define n where "n = available_read rb"
  from inv have tail: "rb_tail rb = (rb_head rb + n) mod RING_BUFFER_SIZE"
    unfolding n_def by (rule rb_tail_eq)
  from inv have hd: "rb_head rb < RING_BUFFER_SIZE" and tl: "rb_tail rb < RING_BUFFER_SIZE"
    and len: "length (rb_arr rb) = RING_BUFFER_SIZE" by (auto simp: rb_inv_def)
  from tl len obtain rb' where w: "write_byte b rb = Some rb'"
    by (auto simp: write_byte_def Let_def)
  then have arr: "rb_arr rb' = (rb_arr rb)[rb_tail rb := b]" and head: "rb_head rb' = rb_head rb"
    and tail': "rb_tail rb' = (rb_tail rb + 1) mod RING_BUFFER_SIZE"
    and st: "rb_status rb' = (if rb_tail rb' = rb_head rb' then Full else Normal)"
    by (auto simp: write_byte_def Let_def split: if_splits)
  have inv': "rb_inv rb'"
    using hd len st by (auto simp: rb_inv_def arr head tail' RING_BUFFER_SIZE_def)
  have "available_read rb' = n + 1"
    using sp hd unfolding n_def [symmetric]
    by (auto simp: available_read_def st head tail' tail RING_BUFFER_SIZE_def ring_index mod_Suc
        split: if_splits)
  moreover have "rb_tail rb \<noteq> (rb_head rb + i) mod RING_BUFFER_SIZE" if "i < n" for i
    using that hd sp unfolding n_def [symmetric] by (auto simp: tail ring_index split: if_splits)
  ultimately have "rb_contents rb' = rb_contents rb @ [b]"
    using tl len unfolding n_def by (auto simp: rb_contents_def arr head tail [unfolded n_def])
  with w inv' show ?thesis by blast
qed

lemma read_byte_contents:
  assumes inv: "rb_inv rb" and ne: "available_read rb \<noteq> 0"
  shows "\<exists>rb'. read_byte rb = Some (hd (rb_contents rb), rb') \<and> rb_inv rb' \<and>
           rb_contents rb' = tl (rb_contents rb)"
proof -
  define n where "n = available_read rb"
  from inv have tail: "rb_tail rb = (rb_head rb + n) mod RING_BUFFER_SIZE"
    unfolding n_def by (rule rb_tail_eq)
  from inv have hd: "rb_head rb < RING_BUFFER_SIZE" and tl: "rb_tail rb < RING_BUFFER_SIZE"
    and len: "length (rb_arr rb) = RING_BUFFER_SIZE" by (auto simp: rb_inv_def)
  from inv have le: "n \<le> RING_BUFFER_SIZE" unfolding n_def by (rule available_read_bound)
  from hd len obtain rb' where r: "read_byte rb = Some (rb_arr rb ! rb_head rb, rb')"
    by (auto simp: read_byte_def Let_def)
  then have arr: "rb_arr rb' = rb_arr rb" and tail': "rb_tail rb' = rb_tail rb"
    and head': "rb_head rb' = (rb_head rb + 1) mod RING_BUFFER_SIZE"
    and st: "rb_status rb' = (if rb_head rb' = rb_tail rb' then Empty else Normal)"
    by (auto simp: read_byte_def Let_def split: if_splits)
  have inv': "rb_inv rb'"
    using tl len st by (auto simp: rb_inv_def arr tail' head' RING_BUFFER_SIZE_def)
  have n': "available_read rb' = n - 1"
    using ne hd le unfolding n_def [symmetric]
    by (cases "n = RING_BUFFER_SIZE")
       (auto simp: available_read_def st tail' head' tail RING_BUFFER_SIZE_def ring_index mod_Suc
        split: if_splits)
  obtain m where m: "n = Suc m" using ne unfolding n_def by (cases "available_read rb") auto
  have "rb_contents rb =
      rb_arr rb ! rb_head rb # map (\<lambda>i. rb_arr rb ! ((rb_head rb + Suc i) mod RING_BUFFER_SIZE)) [0..<m]"
    using hd m unfolding n_def
    by (simp add: rb_contents_def upt_conv_Cons map_Suc_upt [symmetric] del: upt_Suc)
  moreover have "rb_contents rb' =
      map (\<lambda>i. rb_arr rb ! ((rb_head rb + Suc i) mod RING_BUFFER_SIZE)) [0..<m]"
    using m by (simp add: rb_contents_def n' arr head' mod_add_left_eq)
  ultimately show ?thesis using r inv' by simp
qed

interpretation ring: bounded_fifo write_byte read_byte available_read available_write
    rb_contents rb_inv RING_BUFFER_SIZE
proof unfold_locales
  fix q :: PipeRingBuffer and x :: u8
  assume inv: "rb_inv q"
  show "available_read q = length (rb_contents q)" by simp
  show "available_write q = RING_BUFFER_SIZE - length (rb_contents q)"
    using inv by (simp add: available_write_eq)
  show "length (rb_contents q) \<le> RING_BUFFER_SIZE" using inv by (simp add: available_read_bound)
  show "\<exists>q'. write_byte x q = Some q' \<and> rb_inv q' \<and> rb_contents q' = rb_contents q @ [x]"
    if "length (rb_contents q) < RING_BUFFER_SIZE"
    using inv that by (simp add: write_byte_contents)
  show "\<exists>q'. read_byte q = Some (hd (rb_contents q), q') \<and> rb_inv q' \<and>
          rb_contents q' = tl (rb_contents q)" if "rb_contents q \<noteq> []"
    using inv that by (intro read_byte_contents) (auto simp flip: length_greater_0_conv)
qed

section \<open>Reading and writing a pipe\<close>

text \<open>The state the loop sees after the other tasks' steps, and steps that give it no data.\<close>

fun after_envs :: "('s \<Rightarrow> 's) list \<Rightarrow> 's \<Rightarrow> 's" where
  "after_envs [] s = s"
| "after_envs (e # es) s = after_envs es (e s)"

fun quiet :: "('z pipe_state_scheme \<Rightarrow> 'z pipe_state_scheme) list \<Rightarrow> 'z pipe_state_scheme \<Rightarrow> bool" where
  "quiet [] s \<longleftrightarrow> True"
| "quiet (e # es) s \<longleftrightarrow>
     available_read (ps_buf (e s)) = 0 \<and> \<not> pipe_closed (e s) \<and> quiet es (e s)"

lemma read_loop_waits:
  "quiet es s \<Longrightarrow> pipe_read_loop (es @ fs) n s = pipe_read_loop fs n (after_envs es s)"
  by (induction es arbitrary: s) (auto simp: Let_def)

lemma read_loop_data:
  assumes "rb_inv (ps_buf (e s))" "rb_contents (ps_buf (e s)) \<noteq> []" "0 < n"
  shows "\<exists>b. pipe_read_loop (e # fs) n s =
              Some (Ok (take n (rb_contents (ps_buf (e s)))), (e s)\<lparr>ps_buf := b\<rparr>) \<and>
            rb_inv b \<and> rb_contents b = drop n (rb_contents (ps_buf (e s)))"
proof -
  let ?rb = "ps_buf (e s)" and ?m = "min (available_read (ps_buf (e s))) n"
  have pos: "?m \<noteq> 0" using assms(2,3) by (auto simp flip: length_0_conv)
  obtain b where "drain read_byte ?m ?rb = Some (take ?m (rb_contents ?rb), b)" "rb_inv b"
    "rb_contents b = drop ?m (rb_contents ?rb)"
    using ring.drain_items [OF assms(1), of ?m] by auto
  moreover have "take ?m (rb_contents ?rb) = take n (rb_contents ?rb)"
    "drop ?m (rb_contents ?rb) = drop n (rb_contents ?rb)"
    by (simp_all add: min_def)
  ultimately show ?thesis using pos by (auto simp: Let_def min_def split: if_splits)
qed

text \<open>A history of the bytes that the reading side has received.\<close>

record pipe_trace = pipe_state +
  ps_log :: "u8 list"

definition reader :: "nat \<Rightarrow> pipe_trace \<Rightarrow> pipe_trace" where
  "reader k s =
     (case pipe_read [\<lambda>s. s] \<lparr>p_readable = True\<rparr> k s of
        Some (Ok bs, s') \<Rightarrow> s'\<lparr>ps_log := ps_log s' @ bs\<rparr>
      | _ \<Rightarrow> s)"

lemma reader_step:
  assumes "rb_inv (ps_buf s)"
  shows "rb_inv (ps_buf (reader k s)) \<and> ps_count (reader k s) = ps_count s \<and>
    rb_contents (ps_buf (reader k s)) = drop k (rb_contents (ps_buf s)) \<and>
    ps_log (reader k s) = ps_log s @ take k (rb_contents (ps_buf s))"
proof (cases "k = 0 \<or> rb_contents (ps_buf s) = []")
  case True
  then have "k = 0 \<or> available_read (ps_buf s) = 0" by (auto simp flip: length_0_conv)
  with True assms show ?thesis
    by (auto simp: reader_def pipe_read_def pipe_readable_def Let_def)
next
  case False
  then obtain b where "pipe_read_loop [\<lambda>s. s] k s =
      Some (Ok (take k (rb_contents (ps_buf s))), s\<lparr>ps_buf := b\<rparr>)"
    "rb_inv b" "rb_contents b = drop k (rb_contents (ps_buf s))"
    using read_loop_data [of "\<lambda>s. s" s k "[]"] assms by auto
  with False show ?thesis by (simp add: reader_def pipe_read_def pipe_readable_def)
qed

text \<open>One round of the writing loop, with the buffer not full.\<close>

lemma write_loop_round:
  assumes "rb_inv (ps_buf (e s))" "available_read (ps_buf (e s)) < RING_BUFFER_SIZE"
    and "w \<le> length buf"
  shows "\<exists>b. rb_inv b \<and>
     rb_contents b = rb_contents (ps_buf (e s)) @ take (available_write (ps_buf (e s))) (drop w buf) \<and>
     pipe_write_loop (e # es) buf w s =
       (if length buf - w < available_write (ps_buf (e s))
        then Some (Ok (length buf), (e s)\<lparr>ps_buf := b\<rparr>)
        else pipe_write_loop es buf (w + available_write (ps_buf (e s))) ((e s)\<lparr>ps_buf := b\<rparr>))"
proof -
  let ?rb = "ps_buf (e s)"
  have room: "available_write ?rb = RING_BUFFER_SIZE - length (rb_contents ?rb)"
    using ring.room_items [OF assms(1)] .
  with assms(2) have pos: "available_write ?rb \<noteq> 0" by simp
  obtain b where b: "fill write_byte (available_write ?rb) buf w ?rb =
       Some (length buf - w < available_write ?rb, min (w + available_write ?rb) (length buf), b)"
    "rb_inv b" "rb_contents b = rb_contents ?rb @ take (available_write ?rb) (drop w buf)"
    using ring.fill_items [OF assms(1), of "available_write ?rb" w buf] assms(3) room by auto
  then show ?thesis using pos assms(3) by (auto simp: Let_def min_def)
qed

lemma write_loop_fifo:
  assumes "rb_inv (ps_buf s)" "w \<le> length buf"
    and "pipe_write_loop (map reader ks) buf w s = Some (r, s')"
  shows "\<exists>n. r = Ok n \<and> w \<le> n \<and> n \<le> length buf \<and> rb_inv (ps_buf s') \<and>
    ps_log s' @ rb_contents (ps_buf s') =
    ps_log s @ rb_contents (ps_buf s) @ take (n - w) (drop w buf)"
  using assms
proof (induction ks arbitrary: w s)
  case Nil
  then show ?case by simp
next
  case (Cons k ks)
  let ?t = "reader k s"
  from reader_step [OF Cons.prems(1), of k]
  have t: "rb_inv (ps_buf ?t)"
    "ps_log ?t @ rb_contents (ps_buf ?t) = ps_log s @ rb_contents (ps_buf s)" by auto
  show ?case
  proof (cases "available_read (ps_buf ?t) < RING_BUFFER_SIZE")
    case False
    with t(1) have "available_write (ps_buf ?t) = 0" by (simp add: available_write_eq)
    with Cons.prems(3) have
      "(pipe_closed ?t \<and> r = Ok w \<and> s' = ?t) \<or> pipe_write_loop (map reader ks) buf w ?t = Some (r, s')"
      by (auto simp: Let_def split: if_splits)
    then show ?thesis using Cons.IH [OF t(1) Cons.prems(2)] t Cons.prems(2) by auto
  next
    case True
    let ?m = "available_write (ps_buf ?t)"
    obtain b where b: "rb_inv b" "rb_contents b = rb_contents (ps_buf ?t) @ take ?m (drop w buf)"
      and run: "Some (r, s') = (if length buf - w < ?m then Some (Ok (length buf), ?t\<lparr>ps_buf := b\<rparr>)
        else pipe_write_loop (map reader ks) buf (w + ?m) (?t\<lparr>ps_buf := b\<rparr>))"
      using write_loop_round [of "reader k" s w buf "map reader ks"] t(1) True Cons.prems(2,3) by auto
    show ?thesis
    proof (cases "length buf - w < ?m")
      case True
      then have "take ?m (drop w buf) = take (length buf - w) (drop w buf)" by simp
      with True run b t Cons.prems(2) show ?thesis by auto
    next
      case False
      with run have "pipe_write_loop (map reader ks) buf (w + ?m) (?t\<lparr>ps_buf := b\<rparr>) = Some (r, s')"
        by simp
      moreover from False Cons.prems(2) have "w + ?m \<le> length buf" by simp
      ultimately obtain n where n: "r = Ok n" "w + ?m \<le> n" "n \<le> length buf" "rb_inv (ps_buf s')"
        "ps_log s' @ rb_contents (ps_buf s') =
         ps_log ?t @ rb_contents b @ take (n - (w + ?m)) (drop (w + ?m) buf)"
        using Cons.IH [of "?t\<lparr>ps_buf := b\<rparr>" "w + ?m"] b(1) by auto
      have "take ?m (drop w buf) @ take (n - (w + ?m)) (drop (w + ?m) buf) = take (n - w) (drop w buf)"
        using n(2) by (simp add: take_drop_append)
      with n b t show ?thesis by auto
    qed
  qed
qed

lemma write_loop_completes:
  assumes "rb_inv (ps_buf s)" "w \<le> length buf" "\<forall>k\<in>set ks. 0 < k" "ps_count s \<noteq> 1"
    and "length buf - w < length ks"
  shows "\<exists>s'. pipe_write_loop (map reader ks) buf w s = Some (Ok (length buf), s')"
  using assms
proof (induction ks arbitrary: w s)
  case Nil
  then show ?case by simp
next
  case (Cons k ks)
  let ?t = "reader k s"
  from reader_step [OF Cons.prems(1), of k]
  have t: "rb_inv (ps_buf ?t)" "ps_count ?t = ps_count s"
    "length (rb_contents (ps_buf ?t)) = available_read (ps_buf s) - k" by auto
  with Cons.prems(3) available_read_bound [OF Cons.prems(1)]
  have sp: "available_read (ps_buf ?t) < RING_BUFFER_SIZE" by (auto simp: RING_BUFFER_SIZE_def)
  let ?m = "available_write (ps_buf ?t)"
  from t(1) sp have m: "0 < ?m" by (simp add: available_write_eq)
  obtain b where b: "rb_inv b"
    and run: "pipe_write_loop (map reader (k # ks)) buf w s =
      (if length buf - w < ?m then Some (Ok (length buf), ?t\<lparr>ps_buf := b\<rparr>)
       else pipe_write_loop (map reader ks) buf (w + ?m) (?t\<lparr>ps_buf := b\<rparr>))"
    using write_loop_round [of "reader k" s w buf "map reader ks"] t(1) sp Cons.prems(2) by auto
  show ?case
  proof (cases "length buf - w < ?m")
    case True
    with run show ?thesis by simp
  next
    case False
    with Cons.prems m have "w + ?m \<le> length buf" "length buf - (w + ?m) < length ks" by auto
    with Cons.IH [of "?t\<lparr>ps_buf := b\<rparr>" "w + ?m"] b t Cons.prems(3,4) run False
    show ?thesis by auto
  qed
qed

lemma write_loop_full_waits:
  "rb_inv (ps_buf s) \<Longrightarrow> available_read (ps_buf s) = RING_BUFFER_SIZE \<Longrightarrow> \<not> pipe_closed s \<Longrightarrow>
   pipe_write_loop (replicate n (\<lambda>s. s)) buf w s = None"
  by (induction n) (simp_all add: available_write_eq Let_def)

section \<open>Properties\<close>

text \<open>
  C11: The ring buffer implements a bounded first-in first-out queue of 256 bytes. In every state
  satisfying the invariant, \<open>available_read\<close> and \<open>available_write\<close> report the number of queued bytes
  and the room left; a write within the room appends the byte, a read of a non-empty buffer returns
  and removes the oldest byte; neither panics and both keep the invariant.
\<close>

theorem ring_buffer_refines_fifo:
  assumes "rb_inv rb"
  shows "available_read rb = length (rb_contents rb) \<and>
    available_write rb = RING_BUFFER_SIZE - length (rb_contents rb) \<and>
    (0 < available_write rb \<longrightarrow>
      (\<exists>rb'. write_byte byte rb = Some rb' \<and> rb_inv rb' \<and> rb_contents rb' = rb_contents rb @ [byte])) \<and>
    (0 < available_read rb \<longrightarrow>
      (\<exists>rb'. read_byte rb = Some (hd (rb_contents rb), rb') \<and> rb_inv rb' \<and>
             rb_contents rb' = tl (rb_contents rb)))"
proof -
  have "\<exists>rb'. write_byte byte rb = Some rb' \<and> rb_inv rb' \<and> rb_contents rb' = rb_contents rb @ [byte]"
    if "0 < available_write rb"
    using that assms by (intro write_byte_contents) (simp_all add: available_write_eq)
  moreover have "\<exists>rb'. read_byte rb = Some (hd (rb_contents rb), rb') \<and> rb_inv rb' \<and>
             rb_contents rb' = tl (rb_contents rb)" if "0 < available_read rb"
    using that assms by (intro read_byte_contents) auto
  ultimately show ?thesis using assms by (simp add: available_write_eq)
qed

theorem ring_buffer_refines_fifo_witness:
  "rb_inv ring_new \<and> available_read ring_new = length (rb_contents ring_new) \<and>
   (\<exists>rb'. write_byte 65 ring_new = Some rb' \<and> rb_contents rb' = [65])"
  using ring_buffer_refines_fifo [of ring_new 65]
  by (auto simp: RING_BUFFER_SIZE_def)

text \<open>
  C5: No byte is lost, duplicated or reordered. Whatever reads the other end performs while a
  write is in progress, when the write returns it has returned some \<open>n\<close> at most the length of its
  buffer, and the bytes received by the readers followed by those still queued are exactly the bytes
  received and queued before, followed by the first \<open>n\<close> bytes written.
\<close>

theorem pipe_write_fifo:
  assumes "rb_inv (ps_buf s)" "pipe_writable p" "\<not> pipe_closed s"
    and "pipe_write (map reader ks) p buf s = Some (r, s')"
  shows "\<exists>n \<le> length buf. r = Ok n \<and> rb_inv (ps_buf s') \<and>
    ps_log s' @ rb_contents (ps_buf s') = ps_log s @ rb_contents (ps_buf s) @ take n buf"
proof (cases "buf = []")
  case True
  with assms show ?thesis by (auto simp: pipe_write_def)
next
  case False
  with assms have "pipe_write_loop (map reader ks) buf 0 s = Some (r, s')"
    by (simp add: pipe_write_def)
  with assms(1) show ?thesis using write_loop_fifo [of s 0 buf ks r s'] by auto
qed

definition fresh_pipe :: pipe_trace where
  "fresh_pipe = \<lparr>ps_buf = ring_new, ps_count = 2, ps_log = []\<rparr>"

theorem pipe_write_fifo_witness:
  "\<exists>s'. pipe_write (map reader [1, 1, 1]) \<lparr>p_readable = False\<rparr> [1, 2] fresh_pipe = Some (Ok 2, s') \<and>
     ps_log s' @ rb_contents (ps_buf s') = [1, 2]"
proof -
  have "\<exists>s'. pipe_write_loop (map reader [1, 1, 1]) [1, 2] 0 fresh_pipe = Some (Ok 2, s')"
    using write_loop_completes [of fresh_pipe 0 "[1, 2]" "[1, 1, 1]"]
    by (simp add: fresh_pipe_def numeral_2_eq_2 del: pipe_write_loop.simps)
  then obtain s' where "pipe_write (map reader [1, 1, 1]) \<lparr>p_readable = False\<rparr> [1, 2] fresh_pipe =
      Some (Ok 2, s')"
    by (auto simp: pipe_write_def pipe_writable_def pipe_closed_def fresh_pipe_def
        simp del: pipe_write_loop.simps)
  moreover from pipe_write_fifo [OF _ _ _ this]
  have "ps_log s' @ rb_contents (ps_buf s') = [1, 2]"
    by (simp add: pipe_writable_def pipe_closed_def fresh_pipe_def)
  ultimately show ?thesis by blast
qed

text \<open>
  C17: A write terminates as long as the other end keeps reading. If the reading end is open and
  takes at least one byte in every round, the write returns after at most one round more than it has
  bytes, and it reports that all of them were written.
\<close>

theorem pipe_write_completes:
  assumes "rb_inv (ps_buf s)" "pipe_writable p" "ps_count s \<noteq> 1"
    and "\<forall>k\<in>set ks. 0 < k" "length buf < length ks"
  shows "\<exists>s'. pipe_write (map reader ks) p buf s = Some (Ok (length buf), s')"
  using assms write_loop_completes [of s 0 buf ks]
  by (auto simp: pipe_write_def pipe_closed_def)

theorem pipe_write_completes_witness:
  "\<exists>s'. pipe_write (map reader [1, 2]) \<lparr>p_readable = False\<rparr> [7] fresh_pipe = Some (Ok 1, s')"
  using pipe_write_completes [of fresh_pipe "\<lparr>p_readable = False\<rparr>" "[1, 2]" "[7]"]
  by (simp add: fresh_pipe_def pipe_writable_def)

text \<open>
  C18: A read blocks exactly until there is data or the write end is gone. While the other tasks
  leave the pipe empty and open it keeps waiting. As soon as a round finds bytes, it returns the
  oldest ones, as many as fit in the caller's buffer, and leaves the rest queued; if it finds the pipe
  empty with the other end closed, it reports end of file.
\<close>

theorem pipe_read_delivers:
  assumes "quiet es s" "pipe_readable p" "0 < n"
  shows "pipe_read es p n s = None \<and>
    (let t = e (after_envs es s); bs = rb_contents (ps_buf t) in
       rb_inv (ps_buf t) \<longrightarrow>
       (bs \<noteq> [] \<longrightarrow>
          (\<exists>b. pipe_read (es @ e # fs) p n s = Some (Ok (take n bs), t\<lparr>ps_buf := b\<rparr>) \<and>
               rb_inv b \<and> rb_contents b = drop n bs)) \<and>
       (bs = [] \<and> pipe_closed t \<longrightarrow> pipe_read (es @ e # fs) p n s = Some (Ok [], t)))"
proof -
  have "pipe_read es p n s = None"
    using assms read_loop_waits [of es s "[]" n] by (simp add: pipe_read_def)
  moreover have "pipe_read (es @ e # fs) p n s = pipe_read_loop (e # fs) n (after_envs es s)"
    using assms read_loop_waits [of es s "e # fs" n] by (simp add: pipe_read_def)
  moreover have "available_read rb = 0" if "rb_contents rb = []" for rb
    using that by (simp flip: length_0_conv)
  ultimately show ?thesis
    using read_loop_data [of e "after_envs es s" n fs] assms(3) by (auto simp: Let_def)
qed

theorem pipe_read_delivers_witness:
  "pipe_read [\<lambda>s. s] \<lparr>p_readable = True\<rparr> 4 fresh_pipe = None \<and>
   pipe_read [\<lambda>s. s, \<lambda>s. s\<lparr>ps_count := 1\<rparr>] \<lparr>p_readable = True\<rparr> 4 fresh_pipe =
     Some (Ok [], fresh_pipe\<lparr>ps_count := 1\<rparr>)"
  using pipe_read_delivers [of "[\<lambda>s. s]" fresh_pipe "\<lparr>p_readable = True\<rparr>" 4
      "\<lambda>s. s\<lparr>ps_count := 1\<rparr>" "[]"]
  by (simp add: fresh_pipe_def pipe_readable_def pipe_closed_def available_read_def ring_new_def Let_def
      rb_contents_def rb_inv_def RING_BUFFER_SIZE_def)

text \<open>
  C19: A write of exactly as many bytes as there is room for stores all of them and then never
  returns while nobody reads: the loop looks at \<open>write_size == total_len\<close> only before storing another
  byte, and finds the buffer full first. In particular a program that writes 256 bytes into an empty
  pipe and then reads them back deadlocks.
\<close>

theorem pipe_write_exact_fill_blocks:
  assumes "rb_inv (ps_buf s)" "pipe_writable p" "\<not> pipe_closed s" "buf \<noteq> []"
    and "length buf = available_write (ps_buf s)"
  shows "pipe_write (replicate n (\<lambda>s. s)) p buf s = None"
proof (cases n)
  case 0
  with assms show ?thesis by (simp add: pipe_write_def)
next
  case (Suc m)
  have sp: "available_read (ps_buf s) < RING_BUFFER_SIZE"
    using assms by (auto simp: available_write_eq simp flip: length_greater_0_conv)
  obtain b where b: "rb_inv b"
      "rb_contents b = rb_contents (ps_buf s) @ take (available_write (ps_buf s)) buf"
    and run: "pipe_write_loop (replicate n (\<lambda>s. s)) buf 0 s =
      pipe_write_loop (replicate m (\<lambda>s. s)) buf (available_write (ps_buf s)) (s\<lparr>ps_buf := b\<rparr>)"
    using write_loop_round [of "\<lambda>s. s" s 0 buf "replicate m (\<lambda>s. s)"] assms sp Suc by auto
  from b(2) assms(1,5) sp have "length (rb_contents b) = RING_BUFFER_SIZE"
    by (simp add: available_write_eq)
  with b(1) assms run show ?thesis
    by (simp add: pipe_write_def write_loop_full_waits pipe_closed_def)
qed

theorem pipe_write_exact_fill_blocks_witness:
  "pipe_write (replicate 5 (\<lambda>s. s)) \<lparr>p_readable = False\<rparr> (replicate 256 0) fresh_pipe = None"
  using pipe_write_exact_fill_blocks [of fresh_pipe "\<lparr>p_readable = False\<rparr>" "replicate 256 0" 5]
  by (simp add: fresh_pipe_def pipe_writable_def pipe_closed_def available_write_def
      available_read_def ring_new_def rb_inv_def RING_BUFFER_SIZE_def)

end
