(* ===== verification/FdTable.thy ===== *)
theory FdTable
  imports Pipe "HOL-Library.Multiset"
begin

text \<open>
  The file descriptor table of \<open>api/src/file/mod.rs\<close> and the system calls of
  \<open>api/src/imp/fs/fd_ops.rs\<close> and \<open>api/src/imp/fs/pipe.rs\<close> that manage descriptors.

  An open file is an \<open>Arc<dyn FileLike>\<close>: an address in a reference-counted store. The two ends of a
  pipe are two open files that share the \<open>Arc\<close> of one ring buffer, so that the end-of-file test of a
  pipe (\<open>strong_count == 1\<close>) depends on every descriptor of every process. The state holds all
  descriptor tables, one for each namespace; an operation names the table of the calling process.

  The container behind a table, \<open>flatten_objects::FlattenObjects\<close>, is code outside this repository:
  its operations are a parameter, and \<open>flatten_laws\<close> is its documented behaviour.
\<close>

section \<open>State\<close>

definition AX_FILE_LIMIT :: nat where
  "AX_FILE_LIMIT = 1024"

text \<open>The implementations of \<open>FileLike\<close>; a pipe end carries the address of its buffer.\<close>

datatype ('f, 'd, 's) FileLike =
  Stdin | Stdout | File 'f | Directory 'd | PipeEnd Pipe nat | Socket 's

record 't flatten_ops =
  fo_new :: 't
  fo_add :: "nat \<Rightarrow> 't \<Rightarrow> (usize \<times> 't) option"
  fo_add_at :: "usize \<Rightarrow> nat \<Rightarrow> 't \<Rightarrow> 't option"
  fo_get :: "'t \<Rightarrow> usize \<Rightarrow> nat option"
  fo_remove :: "usize \<Rightarrow> 't \<Rightarrow> nat option \<times> 't"
  fo_ids :: "'t \<Rightarrow> usize list"

record ('t, 'f, 'd, 's) files =
  objs :: "('f, 'd, 's) FileLike arcs"
  bufs :: "PipeRingBuffer arcs"
  next_addr :: nat
  tabs :: "'t list"

abbreviation tab :: "nat \<Rightarrow> ('t, 'f, 'd, 's) files \<Rightarrow> 't" where
  "tab c st \<equiv> tabs st ! c"

definition set_tab :: "nat \<Rightarrow> 't \<Rightarrow> ('t, 'f, 'd, 's) files \<Rightarrow> ('t, 'f, 'd, 's) files" where
  "set_tab c t st = st\<lparr>tabs := (tabs st)[c := t]\<rparr>"

section \<open>Sharing and dropping open files\<close>

definition clone_file :: "nat \<Rightarrow> ('t, 'f, 'd, 's) files \<Rightarrow> ('t, 'f, 'd, 's) files" where
  "clone_file a st = st\<lparr>objs := arc_clone a (objs st)\<rparr>"

definition drop_buf :: "nat \<Rightarrow> ('t, 'f, 'd, 's) files \<Rightarrow> ('t, 'f, 'd, 's) files" where
  "drop_buf b st = st\<lparr>bufs := snd (arc_drop b (bufs st))\<rparr>"

text \<open>Dropping the last reference to a pipe end drops its reference to the buffer.\<close>

definition drop_file :: "nat \<Rightarrow> ('t, 'f, 'd, 's) files \<Rightarrow> ('t, 'f, 'd, 's) files" where
  "drop_file a st =
     (let (freed, os) = arc_drop a (objs st); st1 = st\<lparr>objs := os\<rparr>
      in case freed of Some (PipeEnd p b) \<Rightarrow> drop_buf b st1 | _ \<Rightarrow> st1)"

definition alloc_file ::
  "('f, 'd, 's) FileLike \<Rightarrow> ('t, 'f, 'd, 's) files \<Rightarrow> nat \<times> ('t, 'f, 'd, 's) files" where
  "alloc_file f st =
     (next_addr st, st\<lparr>objs := (objs st)(next_addr st \<mapsto> (1, f)), next_addr := next_addr st + 1\<rparr>)"

section \<open>The table\<close>

definition get_file_like ::
  "'t flatten_ops \<Rightarrow> nat \<Rightarrow> i32 \<Rightarrow> ('t, 'f, 'd, 's) files \<Rightarrow> nat LinuxResult \<times> ('t, 'f, 'd, 's) files" where
  "get_file_like F c fd st =
     (case fo_get F (tab c st) (scast fd) of
        None \<Rightarrow> (Err EBADF, st)
      | Some a \<Rightarrow> (Ok a, clone_file a st))"

definition add_file_like ::
  "'t flatten_ops \<Rightarrow> nat \<Rightarrow> nat \<Rightarrow> ('t, 'f, 'd, 's) files \<Rightarrow> i32 LinuxResult \<times> ('t, 'f, 'd, 's) files" where
  "add_file_like F c a st =
     (case fo_add F a (tab c st) of
        None \<Rightarrow> (Err EMFILE, drop_file a st)
      | Some (i, t) \<Rightarrow> (Ok (ucast i), set_tab c t st))"

definition close_file_like ::
  "'t flatten_ops \<Rightarrow> nat \<Rightarrow> i32 \<Rightarrow> ('t, 'f, 'd, 's) files \<Rightarrow> unit LinuxResult \<times> ('t, 'f, 'd, 's) files" where
  "close_file_like F c fd st =
     (case fo_remove F (scast fd) (tab c st) of
        (None, t) \<Rightarrow> (Err EBADF, set_tab c t st)
      | (Some a, t) \<Rightarrow> (Ok (), drop_file a (set_tab c t st)))"

definition add_to_fd_table ::
  "'t flatten_ops \<Rightarrow> nat \<Rightarrow> ('f, 'd, 's) FileLike \<Rightarrow> ('t, 'f, 'd, 's) files
   \<Rightarrow> i32 LinuxResult \<times> ('t, 'f, 'd, 's) files" where
  "add_to_fd_table F c f st = (let (a, st1) = alloc_file f st in add_file_like F c a st1)"

text \<open>
  \<open>from_fd\<close> for the files, directories and pipes: the reference is given back when the type is
  not the expected one.
\<close>

definition from_fd ::
  "(('f, 'd, 's) FileLike \<Rightarrow> bool) \<Rightarrow> LinuxError \<Rightarrow> 't flatten_ops \<Rightarrow> nat \<Rightarrow> i32
   \<Rightarrow> ('t, 'f, 'd, 's) files \<Rightarrow> nat LinuxResult \<times> ('t, 'f, 'd, 's) files" where
  "from_fd is_self err F c fd st =
     (case get_file_like F c fd st of
        (Ok a, st1) \<Rightarrow>
          (case arc_get (objs st1) a of
             Some f \<Rightarrow> if is_self f then (Ok a, st1) else (Err err, drop_file a st1)
           | None \<Rightarrow> (Err err, drop_file a st1))
      | (Err e, st1) \<Rightarrow> (Err e, st1)
      | (Panic, st1) \<Rightarrow> (Panic, st1))"

definition file_from_fd ::
  "'t flatten_ops \<Rightarrow> nat \<Rightarrow> i32 \<Rightarrow> ('t, 'f, 'd, 's) files \<Rightarrow> nat LinuxResult \<times> ('t, 'f, 'd, 's) files" where
  "file_from_fd = from_fd (\<lambda>f. case f of File _ \<Rightarrow> True | _ \<Rightarrow> False) EINVAL"

definition directory_from_fd ::
  "'t flatten_ops \<Rightarrow> nat \<Rightarrow> i32 \<Rightarrow> ('t, 'f, 'd, 's) files \<Rightarrow> nat LinuxResult \<times> ('t, 'f, 'd, 's) files" where
  "directory_from_fd = from_fd (\<lambda>f. case f of Directory _ \<Rightarrow> True | _ \<Rightarrow> False) ENOTDIR"

text \<open>\<open>copy_inner\<close>: the table of a forked process. A missing entry panics (\<open>None\<close>).\<close>

fun copy_ids ::
  "'t flatten_ops \<Rightarrow> 't \<Rightarrow> usize list \<Rightarrow> 't \<Rightarrow> ('t, 'f, 'd, 's) files \<Rightarrow> ('t \<times> ('t, 'f, 'd, 's) files) option" where
  "copy_ids F t [] new_table st = Some (new_table, st)"
| "copy_ids F t (i # ids) new_table st =
     (case fo_get F t i of
        None \<Rightarrow> None
      | Some a \<Rightarrow>
          let st1 = clone_file a st
          in case fo_add_at F i a new_table of
               Some new_table1 \<Rightarrow> copy_ids F t ids new_table1 st1
             | None \<Rightarrow> copy_ids F t ids new_table (drop_file a st1))"

definition copy_inner ::
  "'t flatten_ops \<Rightarrow> nat \<Rightarrow> ('t, 'f, 'd, 's) files \<Rightarrow> ('t \<times> ('t, 'f, 'd, 's) files) option" where
  "copy_inner F c st = copy_ids F (tab c st) (fo_ids F (tab c st)) (fo_new F) st"

text \<open>\<open>clear\<close>: the ids are collected first, then removed one by one.\<close>

fun clear_ids :: "'t flatten_ops \<Rightarrow> nat \<Rightarrow> usize list \<Rightarrow> ('t, 'f, 'd, 's) files \<Rightarrow> ('t, 'f, 'd, 's) files" where
  "clear_ids F c [] st = st"
| "clear_ids F c (i # ids) st =
     (case fo_remove F i (tab c st) of
        (None, t) \<Rightarrow> clear_ids F c ids (set_tab c t st)
      | (Some a, t) \<Rightarrow> clear_ids F c ids (drop_file a (set_tab c t st)))"

definition clear :: "'t flatten_ops \<Rightarrow> nat \<Rightarrow> ('t, 'f, 'd, 's) files \<Rightarrow> ('t, 'f, 'd, 's) files" where
  "clear F c st = clear_ids F c (fo_ids F (tab c st)) st"

text \<open>\<open>init_stdio\<close>: the table of the first process.\<close>

definition init_stdio :: "'t flatten_ops \<Rightarrow> ('t, 'f, 'd, 's) files option" where
  "init_stdio F =
     (case fo_add_at F 0 0 (fo_new F) of None \<Rightarrow> None
      | Some t1 \<Rightarrow>
        (case fo_add_at F 1 1 t1 of None \<Rightarrow> None
         | Some t2 \<Rightarrow>
           (case fo_add_at F 2 2 t2 of None \<Rightarrow> None
            | Some t3 \<Rightarrow>
                Some \<lparr>objs = [0 \<mapsto> (1, Stdin), 1 \<mapsto> (1, Stdout), 2 \<mapsto> (1, Stdout)],
                      bufs = Map.empty, next_addr = 3, tabs = [t3]\<rparr>)))"

section \<open>System calls\<close>

definition sys_close ::
  "'t flatten_ops \<Rightarrow> nat \<Rightarrow> i32 \<Rightarrow> ('t, 'f, 'd, 's) files \<Rightarrow> i64 LinuxResult \<times> ('t, 'f, 'd, 's) files" where
  "sys_close F c fd st =
     (let (r, st1) = close_file_like F c fd st in (bindR r (\<lambda>_. Ok 0), st1))"

definition dup_fd ::
  "'t flatten_ops \<Rightarrow> nat \<Rightarrow> i32 \<Rightarrow> ('t, 'f, 'd, 's) files \<Rightarrow> i64 LinuxResult \<times> ('t, 'f, 'd, 's) files" where
  "dup_fd F c old_fd st =
     (case get_file_like F c old_fd st of
        (Ok f, st1) \<Rightarrow>
          let (r, st2) = add_file_like F c f st1 in (bindR r (\<lambda>new_fd. Ok (scast new_fd)), st2)
      | (Err e, st1) \<Rightarrow> (Err e, st1)
      | (Panic, st1) \<Rightarrow> (Panic, st1))"

definition sys_dup ::
  "'t flatten_ops \<Rightarrow> nat \<Rightarrow> i32 \<Rightarrow> ('t, 'f, 'd, 's) files \<Rightarrow> i64 LinuxResult \<times> ('t, 'f, 'd, 's) files" where
  "sys_dup F c old_fd st = dup_fd F c old_fd st"

definition sys_dup2 ::
  "'t flatten_ops \<Rightarrow> nat \<Rightarrow> i32 \<Rightarrow> i32 \<Rightarrow> ('t, 'f, 'd, 's) files
   \<Rightarrow> i64 LinuxResult \<times> ('t, 'f, 'd, 's) files" where
  "sys_dup2 F c old_fd new_fd st =
     (case fo_get F (tab c st) (scast old_fd) of
        None \<Rightarrow> (Err EBADF, st)
      | Some f \<Rightarrow>
          let st1 = clone_file f st
          in if old_fd \<noteq> new_fd
             then let (removed, t) = fo_remove F (scast new_fd) (tab c st1);
                      st2 = set_tab c t st1;
                      st3 = (case removed of None \<Rightarrow> st2 | Some a \<Rightarrow> drop_file a st2)
                  in case fo_add_at F (scast new_fd) f t of
                       None \<Rightarrow> (Panic, drop_file f st3)
                     | Some t1 \<Rightarrow> (Ok (scast new_fd), set_tab c t1 st3)
             else (Ok (scast new_fd), drop_file f st1))"

text \<open>The constants of \<open>linux_raw_sys\<close> that \<open>fcntl\<close> uses.\<close>

record fcntl_abi =
  F_DUPFD :: u32
  F_DUPFD_CLOEXEC :: u32
  F_SETFL :: u32
  O_NONBLOCK :: u32

definition set_nonblocking ::
  "(bool \<Rightarrow> 's \<Rightarrow> 's) \<Rightarrow> bool \<Rightarrow> ('f, 'd, 's) FileLike \<Rightarrow> unit LinuxResult \<times> ('f, 'd, 's) FileLike" where
  "set_nonblocking sock_set nonblocking f =
     (case f of Socket s \<Rightarrow> (Ok (), Socket (sock_set nonblocking s)) | _ \<Rightarrow> (Ok (), f))"

definition sys_fcntl ::
  "fcntl_abi \<Rightarrow> (bool \<Rightarrow> 's \<Rightarrow> 's) \<Rightarrow> 't flatten_ops \<Rightarrow> nat \<Rightarrow> i32 \<Rightarrow> i32 \<Rightarrow> usize
   \<Rightarrow> ('t, 'f, 'd, 's) files \<Rightarrow> i64 LinuxResult \<times> ('t, 'f, 'd, 's) files" where
  "sys_fcntl abi sock_set F c fd cmd arg st =
     (if (ucast cmd :: u32) = F_DUPFD abi then dup_fd F c fd st
      else if (ucast cmd :: u32) = F_DUPFD_CLOEXEC abi then dup_fd F c fd st
      else if (ucast cmd :: u32) = F_SETFL abi then
        (if fd = 0 \<or> fd = 1 \<or> fd = 2 then (Ok 0, st)
         else case get_file_like F c fd st of
                (Ok a, st1) \<Rightarrow>
                  (case objs st1 a of
                     None \<Rightarrow> (Panic, st1)
                   | Some (n, f) \<Rightarrow>
                       let (r, f1) = set_nonblocking sock_set (0 < arg AND ucast (O_NONBLOCK abi)) f
                       in (bindR r (\<lambda>_. Ok 0), drop_file a (st1\<lparr>objs := (objs st1)(a \<mapsto> (n, f1))\<rparr>)))
              | (Err e, st1) \<Rightarrow> (Err e, st1)
              | (Panic, st1) \<Rightarrow> (Panic, st1))
      else (Ok 0, st))"

text \<open>
  \<open>sys_pipe2\<close>: \<open>user\<close> is the outcome of checking the user pointer; the second component of the
  result is what is stored there. When the first \<open>add_to_fd_table\<close> fails the write end, still a
  local variable, is dropped; when the second fails the read end is closed again.
\<close>

definition pipe_new_in :: "('t, 'f, 'd, 's) files \<Rightarrow> Pipe \<times> Pipe \<times> nat \<times> ('t, 'f, 'd, 's) files" where
  "pipe_new_in st =
     (let (r, w, ps) = pipe_new; b = next_addr st
      in (r, w, b, st\<lparr>bufs := (bufs st)(b \<mapsto> (ps_count ps, ps_buf ps)), next_addr := b + 1\<rparr>))"

definition sys_pipe2 ::
  "'t flatten_ops \<Rightarrow> nat \<Rightarrow> unit LinuxResult \<Rightarrow> ('t, 'f, 'd, 's) files
   \<Rightarrow> i64 LinuxResult \<times> (i32 \<times> i32) option \<times> ('t, 'f, 'd, 's) files" where
  "sys_pipe2 F c user st =
     (case user of
        Err e \<Rightarrow> (Err e, None, st)
      | Panic \<Rightarrow> (Panic, None, st)
      | Ok _ \<Rightarrow>
          let (read_end, write_end, b, st1) = pipe_new_in st
          in case add_to_fd_table F c (PipeEnd read_end b) st1 of
               (Err e, st2) \<Rightarrow> (Err e, None, drop_buf b st2)
             | (Panic, st2) \<Rightarrow> (Panic, None, st2)
             | (Ok read_fd, st2) \<Rightarrow>
                 (case add_to_fd_table F c (PipeEnd write_end b) st2 of
                    (Ok write_fd, st3) \<Rightarrow> (Ok 0, Some (read_fd, write_fd), st3)
                  | (Panic, st3) \<Rightarrow> (Panic, None, st3)
                  | (Err e, st3) \<Rightarrow>
                      (case close_file_like F c read_fd st3 of
                         (Ok _, st4) \<Rightarrow> (Err e, None, st4)
                       | (_, st4) \<Rightarrow> (Panic, None, st4))))"

section \<open>What the container promises\<close>

text \<open>
  The documented behaviour of \<open>FlattenObjects\<close>: a partial map from the ids below the capacity;
  \<open>add\<close> picks some free id and fails only when there is none, \<open>add_at\<close> fails exactly when the id is
  taken or too large, \<open>remove\<close> returns what was there, \<open>ids\<close> lists the ids in use.
\<close>

definition flatten_add_law :: "'t flatten_ops \<Rightarrow> bool" where
  "flatten_add_law F \<longleftrightarrow>
     (\<forall>t a. case fo_add F a t of
        None \<Rightarrow> \<forall>i. unat i < AX_FILE_LIMIT \<longrightarrow> fo_get F t i \<noteq> None
      | Some (i, t') \<Rightarrow> unat i < AX_FILE_LIMIT \<and> fo_get F t i = None \<and>
                       fo_get F t' = (fo_get F t)(i \<mapsto> a))"

definition flatten_add_at_law :: "'t flatten_ops \<Rightarrow> bool" where
  "flatten_add_at_law F \<longleftrightarrow>
     (\<forall>t i a. case fo_add_at F i a t of
        None \<Rightarrow> \<not> (unat i < AX_FILE_LIMIT \<and> fo_get F t i = None)
      | Some t' \<Rightarrow> unat i < AX_FILE_LIMIT \<and> fo_get F t i = None \<and>
                  fo_get F t' = (fo_get F t)(i \<mapsto> a))"

definition flatten_remove_law :: "'t flatten_ops \<Rightarrow> bool" where
  "flatten_remove_law F \<longleftrightarrow>
     (\<forall>t i. case fo_remove F i t of (r, t') \<Rightarrow>
        r = fo_get F t i \<and> fo_get F t' = (fo_get F t)(i := None))"

definition flatten_ids_law :: "'t flatten_ops \<Rightarrow> bool" where
  "flatten_ids_law F \<longleftrightarrow>
     (\<forall>i. fo_get F (fo_new F) i = None) \<and>
     (\<forall>t. distinct (fo_ids F t) \<and> set (fo_ids F t) = dom (fo_get F t)) \<and>
     (\<forall>t. \<forall>i \<in> dom (fo_get F t). unat i < AX_FILE_LIMIT)"

definition flatten_laws :: "'t flatten_ops \<Rightarrow> bool" where
  "flatten_laws F \<longleftrightarrow>
     flatten_add_law F \<and> flatten_add_at_law F \<and> flatten_remove_law F \<and> flatten_ids_law F"

lemma flatten_new: "flatten_laws F \<Longrightarrow> fo_get F (fo_new F) i = None"
  by (simp add: flatten_laws_def flatten_ids_law_def)

lemma flatten_ids: "flatten_laws F \<Longrightarrow> distinct (fo_ids F t) \<and> set (fo_ids F t) = dom (fo_get F t)"
  by (simp add: flatten_laws_def flatten_ids_law_def)

lemma flatten_limit: "flatten_laws F \<Longrightarrow> fo_get F t i = Some a \<Longrightarrow> unat i < AX_FILE_LIMIT"
  unfolding flatten_laws_def flatten_ids_law_def by (blast intro: domI)

lemma flatten_add:
  assumes "flatten_laws F" "fo_add F a t = Some (i, t')"
  shows "unat i < AX_FILE_LIMIT \<and> fo_get F t i = None \<and> fo_get F t' = (fo_get F t)(i \<mapsto> a)"
  using assms(1)[unfolded flatten_laws_def flatten_add_law_def, THEN conjunct1, rule_format, of t a]
    assms(2) by simp

lemma flatten_add_full:
  assumes "flatten_laws F" "fo_add F a t = None" "unat i < AX_FILE_LIMIT"
  shows "fo_get F t i \<noteq> None"
  using assms(1)[unfolded flatten_laws_def flatten_add_law_def, THEN conjunct1, rule_format, of t a]
    assms(2,3) by simp

lemma flatten_add_at:
  assumes "flatten_laws F"
  shows "case fo_add_at F i a t of
        None \<Rightarrow> \<not> (unat i < AX_FILE_LIMIT \<and> fo_get F t i = None)
      | Some t' \<Rightarrow> unat i < AX_FILE_LIMIT \<and> fo_get F t i = None \<and>
                  fo_get F t' = (fo_get F t)(i \<mapsto> a)"
  using assms[unfolded flatten_laws_def flatten_add_at_law_def, THEN conjunct2, THEN conjunct1] by blast

lemma flatten_remove:
  assumes "flatten_laws F" "fo_remove F i t = (r, t')"
  shows "r = fo_get F t i \<and> fo_get F t' = (fo_get F t)(i := None)"
  using assms(1)[unfolded flatten_laws_def flatten_remove_law_def, THEN conjunct2, THEN conjunct2,
      THEN conjunct1, rule_format, of t i] assms(2) by simp

section \<open>Reference counts follow the descriptors\<close>

text \<open>
  The references to an open file are its descriptors in all tables, plus those a running
  operation holds (the multiset \<open>E\<close>). The references to a pipe buffer are the live pipe ends, plus
  the ends a running operation holds as local variables (\<open>B\<close>).
\<close>

definition table_refs :: "'t flatten_ops \<Rightarrow> 't list \<Rightarrow> nat \<Rightarrow> nat" where
  "table_refs F ts a = (\<Sum>t\<leftarrow>ts. card {i. fo_get F t i = Some a})"

definition buf_refs :: "(nat \<Rightarrow> ('f, 'd, 's) FileLike option) \<Rightarrow> nat \<Rightarrow> nat" where
  "buf_refs os b = card {a. \<exists>p. os a = Some (PipeEnd p b)}"

definition fd_inv ::
  "'t flatten_ops \<Rightarrow> nat multiset \<Rightarrow> nat multiset \<Rightarrow> ('t, 'f, 'd, 's) files \<Rightarrow> bool" where
  "fd_inv F E B st \<longleftrightarrow>
     arc_ok (objs st) (\<lambda>a. table_refs F (tabs st) a + count E a) \<and>
     arc_ok (bufs st) (\<lambda>b. buf_refs (arc_get (objs st)) b + count B b) \<and>
     finite (dom (objs st)) \<and>
     (\<forall>a\<ge>next_addr st. objs st a = None \<and> bufs st a = None) \<and>
     (\<forall>b rb. arc_get (bufs st) b = Some rb \<longrightarrow> rb_inv rb)"

lemma finite_ends: "finite (dom os) \<Longrightarrow> finite {a. \<exists>p. arc_get os a = Some (PipeEnd p b)}"
  by (rule finite_subset [of _ "dom os"]) (auto simp: arc_get_def)

lemma table_refs_update:
  assumes "c < length ts"
  shows "table_refs F (ts[c := t]) a + card {i. fo_get F (ts ! c) i = Some a} =
         table_refs F ts a + card {i. fo_get F t i = Some a}"
proof -
  from assms have ts: "ts = take c ts @ ts ! c # drop (Suc c) ts" by (rule id_take_nth_drop)
  have "ts[c := t] = take c ts @ t # drop (Suc c) ts" by (rule upd_conv_take_nth_drop [OF assms])
  then show ?thesis by (subst (2) ts) (simp add: table_refs_def)
qed

lemma card_refs_upd:
  fixes g :: "usize \<Rightarrow> nat option"
  shows "g i = None \<Longrightarrow> card {j. (g(i \<mapsto> a)) j = Some x} = card {j. g j = Some x} + (if x = a then 1 else 0)"
    and "card {j. g j = Some x} = card {j. (g(i := None)) j = Some x} + (if g i = Some x then 1 else 0)"
proof -
  assume "g i = None"
  then have "{j. (g(i \<mapsto> a)) j = Some x} = (if x = a then insert i {j. g j = Some x} else {j. g j = Some x})"
    by auto
  with \<open>g i = None\<close> show "card {j. (g(i \<mapsto> a)) j = Some x} = card {j. g j = Some x} + (if x = a then 1 else 0)"
    by simp
next
  have "{j. g j = Some x} = (if g i = Some x then insert i {j. (g(i := None)) j = Some x}
      else {j. (g(i := None)) j = Some x})" by auto
  then show "card {j. g j = Some x} = card {j. (g(i := None)) j = Some x} + (if g i = Some x then 1 else 0)"
    by simp
qed

subsection \<open>The primitives\<close>

lemma inv_clone:
  assumes "fd_inv F E B st" "objs st a \<noteq> None"
  shows "fd_inv F (add_mset a E) B (clone_file a st)"
proof -
  from assms(1) have "arc_ok (objs st) (\<lambda>a. table_refs F (tabs st) a + count E a)"
    by (simp add: fd_inv_def)
  from arc_ok_clone [OF this assms(2)] assms(1) show ?thesis
    by (simp add: fd_inv_def clone_file_def arc_clone_dead)
qed

lemma inv_drop_buf:
  assumes "fd_inv F E (add_mset b B) st"
  shows "fd_inv F E B (drop_buf b st)"
proof -
  from assms have "arc_ok (bufs st) (\<lambda>x. buf_refs (arc_get (objs st)) x + count (add_mset b B) x)"
    by (simp add: fd_inv_def)
  from arc_ok_drop [OF this, of "\<lambda>x. buf_refs (arc_get (objs st)) x + count B x"] assms
  show ?thesis
    by (auto simp add: fd_inv_def drop_buf_def arc_drop_None arc_get_drop split: if_splits)
qed

lemma buf_refs_drop:
  assumes "finite (dom H)" "arc_get H a = Some (PipeEnd p b)"
  shows "buf_refs ((arc_get H)(a := None)) x + (if x = b then 1 else 0) = buf_refs (arc_get H) x"
proof -
  let ?S = "{y. \<exists>p. arc_get H y = Some (PipeEnd p x)}"
  have "{y. \<exists>p. ((arc_get H)(a := None)) y = Some (PipeEnd p x)} = ?S - {a}"
    by (auto split: if_splits)
  moreover from assms(2) have "a \<in> ?S \<longleftrightarrow> x = b" by auto
  moreover note finite_ends [OF assms(1), of x]
  ultimately show ?thesis using card_Suc_Diff1 [of ?S a] by (auto simp: buf_refs_def)
qed

lemma buf_refs_other:
  assumes "\<forall>p b. os a \<noteq> Some (PipeEnd p b)" "\<forall>p b. y \<noteq> Some (PipeEnd p b)"
  shows "buf_refs (os(a := y)) = buf_refs os"
proof -
  have "{z. \<exists>p. (os(a := y)) z = Some (PipeEnd p x)} = {z. \<exists>p. os z = Some (PipeEnd p x)}" for x
    using assms by auto
  then show ?thesis by (simp add: buf_refs_def fun_eq_iff)
qed

lemma inv_drop_objs:
  assumes "fd_inv F (add_mset a E) B st"
  defines "st1 \<equiv> st\<lparr>objs := snd (arc_drop a (objs st))\<rparr>"
  shows "(case fst (arc_drop a (objs st)) of
            Some (PipeEnd p b) \<Rightarrow> fd_inv F E (add_mset b B) st1 | _ \<Rightarrow> fd_inv F E B st1)"
proof -
  let ?os = "snd (arc_drop a (objs st))"
  from assms(1) have "arc_ok (objs st) (\<lambda>x. table_refs F (tabs st) x + count (add_mset a E) x)"
    by (simp add: fd_inv_def)
  from arc_ok_drop [OF this, of "\<lambda>x. table_refs F (tabs st) x + count E x"] assms(1)
  have os: "arc_ok ?os (\<lambda>x. table_refs F (tabs st) x + count E x)" "finite (dom ?os)"
    "\<forall>x\<ge>next_addr st. ?os x = None"
    by (simp_all add: fd_inv_def arc_drop_None finite_dom_drop)
  show ?thesis
  proof (cases "fst (arc_drop a (objs st))")
    case None
    then have "buf_refs (arc_get ?os) = buf_refs (arc_get (objs st))"
      by (auto simp: arc_get_drop arc_drop_freed arc_count_def split: if_splits option.splits)
    with None os assms(1) show ?thesis by (simp add: fd_inv_def st1_def)
  next
    case (Some f)
    then have f: "arc_get (objs st) a = Some f" "arc_get ?os = (arc_get (objs st))(a := None)"
      by (simp_all add: arc_get_drop arc_drop_freed split: if_splits)
    show ?thesis
    proof (cases "\<exists>p b. f = PipeEnd p b")
      case True
      then obtain p b where pb: "f = PipeEnd p b" by blast
      from f(1) assms(1) have "\<forall>x. buf_refs (arc_get (objs st)) x =
          buf_refs (arc_get ?os) x + (if x = b then 1 else 0)"
        using buf_refs_drop [of "objs st" a p b] by (simp add: f(2) pb fd_inv_def)
      then have "(\<lambda>x. buf_refs (arc_get (objs st)) x + count B x) =
          (\<lambda>x. buf_refs (arc_get ?os) x + count (add_mset b B) x)" by auto
      with Some os assms(1) pb show ?thesis by (simp add: fd_inv_def st1_def)
    next
      case False
      with f have "buf_refs (arc_get ?os) = buf_refs (arc_get (objs st))"
        by (simp add: buf_refs_other)
      with Some os assms(1) False show ?thesis
        by (auto simp add: fd_inv_def st1_def split: FileLike.splits)
    qed
  qed
qed

lemma inv_drop: "fd_inv F (add_mset a E) B st \<Longrightarrow> fd_inv F E B (drop_file a st)"
  using inv_drop_objs [of F a E B st]
  by (auto simp: drop_file_def Let_def split: prod.splits option.splits FileLike.splits
      intro: inv_drop_buf)

lemma inv_fresh:
  assumes "fd_inv F E B st"
  shows "objs st (next_addr st) = None" "bufs st (next_addr st) = None"
    "table_refs F (tabs st) (next_addr st) + count E (next_addr st) = 0"
    "buf_refs (arc_get (objs st)) (next_addr st) + count B (next_addr st) = 0"
proof -
  show o: "objs st (next_addr st) = None" and b: "bufs st (next_addr st) = None"
    using assms by (auto simp: fd_inv_def)
  from assms have ok: "arc_ok (objs st) (\<lambda>a. table_refs F (tabs st) a + count E a)"
    "arc_ok (bufs st) (\<lambda>b. buf_refs (arc_get (objs st)) b + count B b)"
    by (simp_all add: fd_inv_def)
  show "table_refs F (tabs st) (next_addr st) + count E (next_addr st) = 0"
    using arc_ok_live [OF ok(1)] o by blast
  show "buf_refs (arc_get (objs st)) (next_addr st) + count B (next_addr st) = 0"
    using arc_ok_live [OF ok(2)] b by blast
qed

lemma arc_get_new [simp]: "arc_get (H(a \<mapsto> (n, v))) = (arc_get H)(a \<mapsto> v)"
  by (rule ext) (simp add: arc_get_def)

lemma inv_alloc:
  assumes "fd_inv F E B st" "alloc_file f st = (a, st1)"
    and bufs: "\<forall>x. buf_refs (arc_get (objs st1)) x + count B' x = buf_refs (arc_get (objs st)) x + count B x"
  shows "fd_inv F (add_mset a E) B' st1"
proof -
  have st1: "a = next_addr st" "objs st1 = (objs st)(a \<mapsto> (1, f))" "bufs st1 = bufs st"
    "next_addr st1 = a + 1" "tabs st1 = tabs st"
    using assms(2) by (auto simp: alloc_file_def)
  from assms(1) have "arc_ok (objs st) (\<lambda>a. table_refs F (tabs st) a + count E a)"
    and b: "arc_ok (bufs st) (\<lambda>b. buf_refs (arc_get (objs st)) b + count B b)"
    by (simp_all add: fd_inv_def)
  from this(1) have "arc_ok (objs st1) (\<lambda>x. table_refs F (tabs st) x + count (add_mset a E) x)"
    unfolding st1(2) by (rule arc_ok_new) (use inv_fresh(3) [OF assms(1)] st1(1) in auto)
  moreover from b have "arc_ok (bufs st1) (\<lambda>x. buf_refs (arc_get (objs st1)) x + count B' x)"
    unfolding st1(3) by (rule arc_ok_cong [OF _ bufs])
  ultimately show ?thesis using assms(1) by (simp add: fd_inv_def st1)
qed

lemma inv_alloc_pipe:
  assumes "fd_inv F E (add_mset b B) st" "alloc_file (PipeEnd p b) st = (a, st1)"
  shows "fd_inv F (add_mset a E) B st1"
proof (rule inv_alloc [OF assms])
  have st1: "a = next_addr st" "objs st1 = (objs st)(a \<mapsto> (1, PipeEnd p b))"
    using assms(2) by (auto simp: alloc_file_def)
  have none: "(arc_get (objs st))(a := None) = arc_get (objs st)"
    using inv_fresh(1) [OF assms(1)] st1(1) by (simp add: fun_eq_iff arc_get_def)
  have "finite (dom (objs st1))" using assms(1) by (simp add: fd_inv_def st1)
  then have "buf_refs (arc_get (objs st1)) x = buf_refs (arc_get (objs st)) x + (if x = b then 1 else 0)"
    for x using buf_refs_drop [of "objs st1" a p b x] by (simp add: st1 none [unfolded st1(1)])
  then show "\<forall>x. buf_refs (arc_get (objs st1)) x + count B x =
      buf_refs (arc_get (objs st)) x + count (add_mset b B) x"
    by simp
qed

lemma inv_alloc_other:
  assumes "fd_inv F E B st" "alloc_file f st = (a, st1)" "\<forall>p b. f \<noteq> PipeEnd p b"
  shows "fd_inv F (add_mset a E) B st1"
proof (rule inv_alloc [OF assms(1,2)])
  have "a = next_addr st" "objs st1 = (objs st)(a \<mapsto> (1, f))"
    using assms(2) by (auto simp: alloc_file_def)
  with assms(3) inv_fresh(1) [OF assms(1)]
  show "\<forall>x. buf_refs (arc_get (objs st1)) x + count B x = buf_refs (arc_get (objs st)) x + count B x"
    by (simp add: buf_refs_other arc_get_def)
qed

lemma inv_pipe_new:
  assumes "fd_inv F E B st" "pipe_new_in st = (r, w, b, st1)"
  shows "fd_inv F E (add_mset b (add_mset b B)) st1"
proof -
  from assms(1) have "arc_ok (bufs st) (\<lambda>b. buf_refs (arc_get (objs st)) b + count B b)"
    by (simp add: fd_inv_def)
  then have "arc_ok ((bufs st)(b \<mapsto> (2, ring_new)))
      (\<lambda>x. buf_refs (arc_get (objs st)) x + count (add_mset b (add_mset b B)) x)"
    by (rule arc_ok_new)
      (use assms(2) inv_fresh(4) [OF assms(1)] in \<open>auto simp: pipe_new_in_def pipe_new_def Let_def\<close>)
  with assms show ?thesis
    by (auto simp: pipe_new_in_def pipe_new_def fd_inv_def Let_def split: if_splits)
qed

lemma inv_retable:
  assumes "fd_inv F E B st" "c < length (tabs st)"
    and "\<forall>x. card {i. fo_get F t i = Some x} + count E' x =
              card {i. fo_get F (tab c st) i = Some x} + count E x"
  shows "fd_inv F E' B (set_tab c t st)"
proof -
  from assms(1) have "arc_ok (objs st) (\<lambda>a. table_refs F (tabs st) a + count E a)"
    by (simp add: fd_inv_def)
  moreover have "\<forall>x. table_refs F ((tabs st)[c := t]) x + count E' x = table_refs F (tabs st) x + count E x"
  proof
    fix x
    show "table_refs F ((tabs st)[c := t]) x + count E' x = table_refs F (tabs st) x + count E x"
      using table_refs_update [OF assms(2), of F t x] assms(3) [rule_format, of x] by linarith
  qed
  ultimately have "arc_ok (objs st) (\<lambda>a. table_refs F ((tabs st)[c := t]) a + count E' a)"
    by (rule arc_ok_cong)
  with assms(1) show ?thesis by (simp add: fd_inv_def set_tab_def)
qed

lemma inv_put:
  assumes "fd_inv F (add_mset a E) B st" "c < length (tabs st)"
    and "fo_get F (tab c st) i = None" "fo_get F t = (fo_get F (tab c st))(i \<mapsto> a)"
  shows "fd_inv F E B (set_tab c t st)"
proof (rule inv_retable [OF assms(1,2)])
  show "\<forall>x. card {i. fo_get F t i = Some x} + count E x =
      card {i. fo_get F (tab c st) i = Some x} + count (add_mset a E) x"
    using card_refs_upd(1) [of "fo_get F (tab c st)" i a, OF assms(3)] by (simp add: assms(4))
qed

lemma inv_take:
  assumes "fd_inv F E B st" "c < length (tabs st)"
    and "fo_get F t = (fo_get F (tab c st))(i := None)"
  shows "case fo_get F (tab c st) i of
      None \<Rightarrow> fd_inv F E B (set_tab c t st) | Some a \<Rightarrow> fd_inv F (add_mset a E) B (set_tab c t st)"
proof (cases "fo_get F (tab c st) i")
  case None
  then have "fo_get F t = fo_get F (tab c st)" using assms(3) by (simp add: fun_eq_iff)
  with inv_retable [OF assms(1,2), of t E] None show ?thesis by simp
next
  case (Some a)
  from inv_retable [OF assms(1,2), of t "add_mset a E"]
    card_refs_upd(2) [of "fo_get F (tab c st)" _ i] Some show ?thesis by (simp add: assms(3))
qed

lemma inv_live:
  assumes "fd_inv F E B st" "c < length (tabs st)" "fo_get F (tab c st) i = Some a"
  shows "objs st a \<noteq> None"
proof -
  have "i \<in> {i. fo_get F (tab c st) i = Some a}" using assms(3) by simp
  then have "0 < card {i. fo_get F (tab c st) i = Some a}" by (auto simp: card_gt_0_iff)
  moreover have "card {i. fo_get F (tab c st) i = Some a} \<le> table_refs F (tabs st) a"
    unfolding table_refs_def by (rule member_le_sum_list) (use assms(2) in auto)
  moreover have "arc_ok (objs st) (\<lambda>a. table_refs F (tabs st) a + count E a)"
    using assms(1) by (simp add: fd_inv_def)
  from arc_ok_live [OF this, of a] have "objs st a \<noteq> None \<longleftrightarrow> 0 < table_refs F (tabs st) a + count E a" .
  ultimately show ?thesis by simp
qed

subsection \<open>The operations\<close>

lemma tabs_simps [simp]:
  "tabs (clone_file a st) = tabs st" "tabs (drop_buf b st) = tabs st"
  "tabs (set_tab c t st) = (tabs st)[c := t]"
  by (simp_all add: clone_file_def drop_buf_def set_tab_def)

lemma tabs_drop_file [simp]: "tabs (drop_file a st) = tabs st"
  by (simp add: drop_file_def Let_def split: prod.splits option.splits FileLike.splits)

lemma tabs_alloc: "alloc_file f st = (a, st1) \<Longrightarrow> tabs st1 = tabs st"
  by (auto simp: alloc_file_def)

lemma tabs_pipe_new: "pipe_new_in st = (r, w, b, st1) \<Longrightarrow> tabs st1 = tabs st"
  by (auto simp: pipe_new_in_def Let_def split: prod.splits)

lemma get_file_like_inv:
  assumes laws: "flatten_laws F" and "fd_inv F E B st" "c < length (tabs st)" "get_file_like F c fd st = (r, st1)"
  shows "tabs st1 = tabs st \<and>
    (case r of Ok a \<Rightarrow> fo_get F (tab c st) (scast fd) = Some a \<and> fd_inv F (add_mset a E) B st1
     | Err e \<Rightarrow> e = EBADF \<and> st1 = st \<and> fo_get F (tab c st) (scast fd) = None
     | Panic \<Rightarrow> False)"
  using assms inv_clone [OF assms(2)] inv_live [OF assms(2,3)]
  by (auto simp: get_file_like_def split: option.splits)

lemma add_file_like_inv:
  assumes laws: "flatten_laws F" and "fd_inv F (add_mset a E) B st" "c < length (tabs st)" "add_file_like F c a st = (r, st1)"
  shows "fd_inv F E B st1 \<and> length (tabs st1) = length (tabs st)"
  using assms flatten_add [OF laws, of a "tab c st"]
  by (auto simp: add_file_like_def intro: inv_drop inv_put split: option.splits)

lemma close_file_like_inv:
  assumes laws: "flatten_laws F" and "fd_inv F E B st" "c < length (tabs st)" "close_file_like F c fd st = (r, st1)"
  shows "fd_inv F E B st1 \<and> length (tabs st1) = length (tabs st)"
proof -
  obtain x t where rm: "fo_remove F (scast fd) (tab c st) = (x, t)" by fastforce
  from flatten_remove [OF laws rm] inv_take [OF assms(2,3), of t "scast fd"]
  have "case x of None \<Rightarrow> fd_inv F E B (set_tab c t st) | Some a \<Rightarrow> fd_inv F (add_mset a E) B (set_tab c t st)"
    by simp
  with assms(4) rm show ?thesis
    by (auto simp: close_file_like_def intro: inv_drop split: option.splits)
qed

lemma dup_fd_inv:
  assumes laws: "flatten_laws F" and "fd_inv F {#} {#} st" "c < length (tabs st)" "dup_fd F c fd st = (r, st1)"
  shows "fd_inv F {#} {#} st1 \<and> length (tabs st1) = length (tabs st)"
proof -
  obtain r0 st0 where g: "get_file_like F c fd st = (r0, st0)" by fastforce
  from get_file_like_inv [OF laws assms(2,3) g] assms g show ?thesis
    by (cases r0) (auto simp: dup_fd_def split: prod.splits dest: add_file_like_inv [OF laws])
qed

lemma sys_dup2_inv:
  assumes laws: "flatten_laws F" and "fd_inv F {#} {#} st" "c < length (tabs st)" "sys_dup2 F c fd fd' st = (r, st1)"
  shows "fd_inv F {#} {#} st1 \<and> length (tabs st1) = length (tabs st)"
proof (cases "fo_get F (tab c st) (scast fd)")
  case None
  with assms show ?thesis by (simp add: sys_dup2_def)
next
  case (Some f)
  let ?st = "clone_file f st"
  from inv_clone [OF assms(2) inv_live [OF assms(2,3) Some]]
  have inv: "fd_inv F {#f#} {#} ?st" by simp
  show ?thesis
  proof (cases "fd = fd'")
    case True
    with Some assms inv show ?thesis by (auto simp: sys_dup2_def Let_def intro: inv_drop)
  next
    case False
    obtain x t where rm: "fo_remove F (scast fd') (tab c ?st) = (x, t)" by fastforce
    let ?st2 = "case x of None \<Rightarrow> set_tab c t ?st | Some a \<Rightarrow> drop_file a (set_tab c t ?st)"
    from flatten_remove [OF laws rm] inv_take [OF inv, of c t "scast fd'"] assms(3)
    have t: "fo_get F t (scast fd') = None" "fd_inv F {#f#} {#} ?st2" "tabs ?st2 = (tabs st)[c := t]"
      by (auto split: option.splits intro: inv_drop simp: add_mset_commute)
    with flatten_add_at [OF laws, of "scast fd'" t f] assms(3)
    have "case fo_add_at F (scast fd') f t of None \<Rightarrow> fd_inv F {#} {#} (drop_file f ?st2)
        | Some t1 \<Rightarrow> fd_inv F {#} {#} (set_tab c t1 ?st2)"
      by (auto split: option.splits intro: inv_drop inv_put [of F f _ _ _ _ "scast fd'"])
    with Some False rm assms(4) t(3) show ?thesis
      by (auto simp: sys_dup2_def Let_def split: option.splits prod.splits)
  qed
qed

lemma add_pipe_inv:
  assumes "flatten_laws F" "fd_inv F E (add_mset b B) st" "c < length (tabs st)"
    and "add_to_fd_table F c (PipeEnd p b) st = (r, st1)"
  shows "fd_inv F E B st1 \<and> length (tabs st1) = length (tabs st)"
proof -
  obtain a st0 where al: "alloc_file (PipeEnd p b) st = (a, st0)" by fastforce
  with assms(4) have "add_file_like F c a st0 = (r, st1)" by (simp add: add_to_fd_table_def)
  from add_file_like_inv [OF assms(1) inv_alloc_pipe [OF assms(2) al] _ this] assms(3) tabs_alloc [OF al]
  show ?thesis by simp
qed

lemma add_other_inv:
  assumes "flatten_laws F" "fd_inv F E B st" "c < length (tabs st)"
    and "add_to_fd_table F c f st = (r, st1)" "\<forall>p b. f \<noteq> PipeEnd p b"
  shows "fd_inv F E B st1 \<and> length (tabs st1) = length (tabs st)"
proof -
  obtain a st0 where al: "alloc_file f st = (a, st0)" by fastforce
  with assms(4) have "add_file_like F c a st0 = (r, st1)" by (simp add: add_to_fd_table_def)
  from add_file_like_inv [OF assms(1) inv_alloc_other [OF assms(2) al assms(5)] _ this] assms(3)
    tabs_alloc [OF al]
  show ?thesis by simp
qed

lemma sys_pipe2_inv:
  assumes laws: "flatten_laws F" and "fd_inv F {#} {#} st" "c < length (tabs st)"
    and run: "sys_pipe2 F c user st = (r, out, st')"
  shows "fd_inv F {#} {#} st' \<and> length (tabs st') = length (tabs st)"
proof (cases user)
  case (Ok u)
  obtain re we b st1 where pn: "pipe_new_in st = (re, we, b, st1)" by (metis prod_cases4)
  note i1 = inv_pipe_new [OF assms(2) pn] and t1 = tabs_pipe_new [OF pn]
  obtain r2 st2 where a2: "add_to_fd_table F c (PipeEnd re b) st1 = (r2, st2)" by fastforce
  from add_pipe_inv [OF laws i1 _ a2] assms(3) t1
  have i2: "fd_inv F {#} {#b#} st2" "length (tabs st2) = length (tabs st)" by simp_all
  show ?thesis
  proof (cases r2)
    case (Ok rfd)
    obtain r3 st3 where a3: "add_to_fd_table F c (PipeEnd we b) st2 = (r3, st3)" by fastforce
    from add_pipe_inv [OF laws i2(1) _ a3] assms(3) i2(2)
    have i3: "fd_inv F {#} {#} st3" "length (tabs st3) = length (tabs st)" by simp_all
    obtain r4 st4 where a4: "close_file_like F c rfd st3 = (r4, st4)" by fastforce
    from close_file_like_inv [OF laws i3(1) _ a4] assms(3) i3(2)
    have "fd_inv F {#} {#} st4" "length (tabs st4) = length (tabs st)" by simp_all
    with run \<open>user = Ok u\<close> pn a2 Ok a3 a4 i3 show ?thesis
      by (cases r3; cases r4) (simp_all add: sys_pipe2_def)
  next
    case (Err e)
    with run \<open>user = Ok u\<close> pn a2 i2 inv_drop_buf [of F "{#}" b "{#}" st2] show ?thesis
      by (auto simp add: sys_pipe2_def)
  next
    case Panic
    have False using a2 Panic
      by (auto simp: add_to_fd_table_def add_file_like_def split: prod.splits option.splits)
    then show ?thesis ..
  qed
qed (use assms in \<open>simp_all add: sys_pipe2_def\<close>)

lemma clear_ids_inv:
  assumes "flatten_laws F" "fd_inv F E B st" "c < length (tabs st)"
  shows "fd_inv F E B (clear_ids F c ids st) \<and> length (tabs (clear_ids F c ids st)) = length (tabs st)"
  using assms(2,3)
proof (induction ids arbitrary: st)
  case (Cons i ids)
  obtain x t where rm: "fo_remove F i (tab c st) = (x, t)" by fastforce
  from flatten_remove [OF assms(1) rm] inv_take [OF Cons.prems, of t i]
  have "case x of None \<Rightarrow> fd_inv F E B (set_tab c t st) | Some a \<Rightarrow> fd_inv F E B (drop_file a (set_tab c t st))"
    by (auto split: option.splits intro: inv_drop)
  with Cons rm show ?case by (auto split: option.splits)
qed simp

text \<open>Copying: the new table, not yet part of the state, holds the references in \<open>E\<close>.\<close>

lemma copy_ids_spec:
  assumes laws: "flatten_laws F" and live: "\<forall>i a. fo_get F t i = Some a \<longrightarrow> objs st a \<noteq> None"
    and "fd_inv F E B st" "\<forall>x. count E x = card {i. fo_get F n i = Some x}"
    and "set ids \<subseteq> dom (fo_get F t)" "\<forall>i \<in> set ids. fo_get F n i = None" "distinct ids"
  shows "\<exists>n' st' E'. copy_ids F t ids n st = Some (n', st') \<and> tabs st' = tabs st \<and>
    fd_inv F E' B st' \<and> (\<forall>x. count E' x = card {i. fo_get F n' i = Some x}) \<and>
    (\<forall>i. fo_get F n' i = (if i \<in> set ids then fo_get F t i else fo_get F n i))"
  using assms(2-)
proof (induction ids arbitrary: n st E)
  case (Cons i ids)
  from Cons.prems(4) obtain a where a: "fo_get F t i = Some a" by auto
  with Cons.prems(1,2) have c: "fd_inv F (add_mset a E) B (clone_file a st)" by (auto intro: inv_clone)
  from Cons.prems(5) have n: "fo_get F n i = None" by simp
  moreover from flatten_limit [OF laws a] have "unat i < AX_FILE_LIMIT" .
  ultimately obtain n1 where n1: "fo_add_at F i a n = Some n1" "fo_get F n1 = (fo_get F n)(i \<mapsto> a)"
    using flatten_add_at [OF laws, of i n a] by (auto split: option.splits)
  have cnt: "\<forall>x. count (add_mset a E) x = card {j. fo_get F n1 j = Some x}"
    using card_refs_upd(1) [of "fo_get F n" i a, OF n] Cons.prems(3) by (simp add: n1(2))
  have live: "\<forall>i b. fo_get F t i = Some b \<longrightarrow> objs (clone_file a st) b \<noteq> None"
    using Cons.prems(1) by (simp add: clone_file_def arc_clone_dead)
  have "set ids \<subseteq> dom (fo_get F t)" "\<forall>j \<in> set ids. fo_get F n1 j = None" "distinct ids"
    using Cons.prems(4-6) n1(2) by auto
  from Cons.IH [OF live c cnt this] obtain n' st' E'
    where ih: "copy_ids F t ids n1 (clone_file a st) = Some (n', st')" "tabs st' = tabs st"
      "fd_inv F E' B st'" "\<forall>x. count E' x = card {i. fo_get F n' i = Some x}"
      and g: "\<forall>j. fo_get F n' j = (if j \<in> set ids then fo_get F t j else fo_get F n1 j)" by auto
  from g have "\<forall>j. fo_get F n' j = (if j \<in> set (i # ids) then fo_get F t j else fo_get F n j)"
    using a n1(2) Cons.prems(6) by auto
  moreover from ih(1) a n1 have "copy_ids F t (i # ids) n st = Some (n', st')" by (simp add: Let_def)
  ultimately show ?case using ih by blast
qed auto

lemma copy_inner_spec:
  assumes laws: "flatten_laws F" and inv: "fd_inv F {#} B st" and c: "c < length (tabs st)"
  shows "\<exists>n st'. copy_inner F c st = Some (n, st') \<and> tabs st' = tabs st \<and>
    fo_get F n = fo_get F (tab c st) \<and> fd_inv F {#} B (st'\<lparr>tabs := tabs st' @ [n]\<rparr>)"
proof -
  have "\<forall>x. count {#} x = card {i. fo_get F (fo_new F) i = Some x}"
    by (simp add: flatten_new [OF laws])
  from copy_ids_spec [OF laws _ inv this, of "tab c st" "fo_ids F (tab c st)"]
  obtain n st' E' where cp: "copy_inner F c st = Some (n, st')" "tabs st' = tabs st"
    and i: "fd_inv F E' B st'" "\<forall>x. count E' x = card {i. fo_get F n i = Some x}"
    and g: "\<forall>i. fo_get F n i = (if i \<in> set (fo_ids F (tab c st)) then fo_get F (tab c st) i
                             else fo_get F (fo_new F) i)"
    using flatten_ids [OF laws, of "tab c st"] inv_live [OF inv c] flatten_new [OF laws]
    by (auto simp: copy_inner_def)
  from g have "fo_get F n = fo_get F (tab c st)"
    using flatten_ids [OF laws, of "tab c st"] flatten_new [OF laws] by (auto simp: fun_eq_iff dom_def)
  moreover from i have "fd_inv F {#} B (st'\<lparr>tabs := tabs st' @ [n]\<rparr>)"
    by (simp add: fd_inv_def table_refs_def)
  ultimately show ?thesis using cp by auto
qed

lemma set_nonblocking_inv:
  assumes "fd_inv F E B st" "objs st a = Some (n, f)" "set_nonblocking sock_set nb f = (r, f1)"
  shows "fd_inv F E B (st\<lparr>objs := (objs st)(a \<mapsto> (n, f1))\<rparr>) \<and> r = Ok ()"
proof -
  have r: "r = Ok ()" and ends: "f1 = PipeEnd p b \<longleftrightarrow> f = PipeEnd p b" for p b
    using assms(3) by (auto simp: set_nonblocking_def split: FileLike.splits)
  have "(\<exists>p. ((arc_get (objs st))(a \<mapsto> f1)) x = Some (PipeEnd p b)) \<longleftrightarrow>
      (\<exists>p. arc_get (objs st) x = Some (PipeEnd p b))" for x b
    using assms(2) ends by (auto simp: arc_get_def)
  then have "buf_refs ((arc_get (objs st))(a \<mapsto> f1)) = buf_refs (arc_get (objs st))"
    by (simp only: buf_refs_def fun_eq_iff simp_thms)
  moreover have "arc_ok ((objs st)(a \<mapsto> (n, f1))) rf" if "arc_ok (objs st) rf" for rf
    using that
    by (rule arc_ok_new)
      (use that arc_ok_live [OF that, of a] arc_ok_count [OF that, of a] assms(2) in
        \<open>auto simp: arc_count_def\<close>)
  moreover have "a < next_addr st" using assms(1,2) unfolding fd_inv_def
    by (metis not_less option.distinct(1))
  ultimately show ?thesis using assms(1) r by (simp add: fd_inv_def)
qed

lemma inv_held: "fd_inv F (add_mset a E) B st \<Longrightarrow> objs st a \<noteq> None"
  using arc_ok_live [of "objs st" "\<lambda>x. table_refs F (tabs st) x + count (add_mset a E) x" a]
  by (simp add: fd_inv_def)

lemma sys_fcntl_inv:
  assumes laws: "flatten_laws F" and "fd_inv F {#} {#} st" "c < length (tabs st)"
    and run: "sys_fcntl abi sock_set F c fd cmd arg st = (r, st')"
  shows "fd_inv F {#} {#} st' \<and> length (tabs st') = length (tabs st)"
proof -
  obtain r0 st0 where g: "get_file_like F c fd st = (r0, st0)" by fastforce
  note gi = get_file_like_inv [OF assms(1-3) g]
  have "fd_inv F {#} {#} (drop_file a (st0\<lparr>objs := (objs st0)(a \<mapsto> (n, f1))\<rparr>))"
    if "r0 = Ok a" "objs st0 a = Some (n, f)" "set_nonblocking sock_set nb f = (r1, f1)" for a n f nb r1 f1
    using gi that set_nonblocking_inv [of F "{#a#}" "{#}" st0] by (auto intro: inv_drop)
  moreover have "objs st0 a \<noteq> None" if "r0 = Ok a" for a using gi that by (auto dest: inv_held)
  ultimately show ?thesis using run g gi dup_fd_inv [OF assms(1-3)] assms(2)
    by (fastforce simp: sys_fcntl_def Let_def split: if_splits option.splits prod.splits result.splits)
qed

section \<open>Reachable states\<close>

text \<open>
  One step is one of the operations above, on any of the tables, by any process: opening a file,
  directory or socket, \<open>pipe2\<close>, \<open>close\<close>, \<open>dup\<close>, \<open>dup2\<close>, \<open>fcntl\<close>, the copy of a table by a fork, and
  the clearing of a table by an exit.
\<close>

inductive fd_step ::
  "'t flatten_ops \<Rightarrow> ('t, 'f, 'd, 's) files \<Rightarrow> ('t, 'f, 'd, 's) files \<Rightarrow> bool" for F where
  step_open: "c < length (tabs st) \<Longrightarrow> \<forall>p b. f \<noteq> PipeEnd p b \<Longrightarrow>
     add_to_fd_table F c f st = (r, st') \<Longrightarrow> fd_step F st st'"
| step_pipe2: "c < length (tabs st) \<Longrightarrow> sys_pipe2 F c user st = (r, out, st') \<Longrightarrow> fd_step F st st'"
| step_close: "c < length (tabs st) \<Longrightarrow> sys_close F c fd st = (r, st') \<Longrightarrow> fd_step F st st'"
| step_dup: "c < length (tabs st) \<Longrightarrow> sys_dup F c fd st = (r, st') \<Longrightarrow> fd_step F st st'"
| step_dup2: "c < length (tabs st) \<Longrightarrow> sys_dup2 F c fd fd' st = (r, st') \<Longrightarrow> fd_step F st st'"
| step_fcntl: "c < length (tabs st) \<Longrightarrow> sys_fcntl abi sock_set F c fd cmd arg st = (r, st') \<Longrightarrow>
     fd_step F st st'"
| step_fork: "c < length (tabs st) \<Longrightarrow> copy_inner F c st = Some (n, st') \<Longrightarrow>
     fd_step F st (st'\<lparr>tabs := tabs st' @ [n]\<rparr>)"
| step_exit: "c < length (tabs st) \<Longrightarrow> fd_step F st (clear F c st)"

inductive fd_reachable :: "'t flatten_ops \<Rightarrow> ('t, 'f, 'd, 's) files \<Rightarrow> bool" for F where
  reach_init: "init_stdio F = Some st \<Longrightarrow> fd_reachable F st"
| reach_step: "fd_reachable F st \<Longrightarrow> fd_step F st st' \<Longrightarrow> fd_reachable F st'"

lemma fd_step_inv:
  assumes laws: "flatten_laws F" and "fd_step F st st'" "fd_inv F {#} {#} st"
  shows "fd_inv F {#} {#} st'"
  using assms(2)
proof cases
  case (step_open c f r)
  then show ?thesis using add_other_inv [OF laws assms(3)] by blast
next
  case (step_pipe2 c user r out)
  then show ?thesis using sys_pipe2_inv [OF laws assms(3)] by blast
next
  case (step_close c fd r)
  then show ?thesis using close_file_like_inv [OF laws assms(3), of c fd]
    by (auto simp: sys_close_def split: prod.splits)
next
  case (step_dup c fd r)
  then show ?thesis using dup_fd_inv [OF laws assms(3)] by (auto simp: sys_dup_def)
next
  case (step_dup2 c fd fd' r)
  then show ?thesis using sys_dup2_inv [OF laws assms(3)] by blast
next
  case (step_fcntl c abi sock_set fd cmd arg r)
  then show ?thesis using sys_fcntl_inv [OF laws assms(3)] by blast
next
  case (step_fork c n st1)
  then show ?thesis using copy_inner_spec [OF laws assms(3), of c] by auto
next
  case (step_exit c)
  then show ?thesis using clear_ids_inv [OF laws assms(3), of c] by (simp add: clear_def)
qed

lemma init_stdio_spec:
  assumes laws: "flatten_laws F"
  shows "\<exists>t. init_stdio F = Some (\<lparr>objs = [0 \<mapsto> (1, Stdin), 1 \<mapsto> (1, Stdout), 2 \<mapsto> (1, Stdout)],
      bufs = Map.empty, next_addr = 3, tabs = [t]\<rparr> :: ('t, 'f, 'd, 's) files) \<and> fo_get F t = [0 \<mapsto> 0, 1 \<mapsto> 1, 2 \<mapsto> 2]"
proof -
  have new: "fo_get F (fo_new F) = Map.empty" by (rule ext) (rule flatten_new [OF laws])
  from flatten_add_at [OF laws, of 0 "fo_new F" 0]
  obtain t1 where t1: "fo_add_at F 0 0 (fo_new F) = Some t1" "fo_get F t1 = [0 \<mapsto> 0]"
    by (auto simp: new AX_FILE_LIMIT_def split: option.splits)
  from flatten_add_at [OF laws, of 1 t1 1]
  obtain t2 where t2: "fo_add_at F 1 1 t1 = Some t2" "fo_get F t2 = [0 \<mapsto> 0, 1 \<mapsto> 1]"
    by (auto simp: t1 AX_FILE_LIMIT_def split: option.splits)
  from flatten_add_at [OF laws, of 2 t2 2]
  obtain t3 where t3: "fo_add_at F 2 2 t2 = Some t3" "fo_get F t3 = [0 \<mapsto> 0, 1 \<mapsto> 1, 2 \<mapsto> 2]"
    by (auto simp: t2 AX_FILE_LIMIT_def split: option.splits)
  from t1 t2 t3 show ?thesis by (simp add: init_stdio_def)
qed

lemma init_stdio_inv:
  fixes st :: "('t, 'f, 'd, 's) files"
  assumes laws: "flatten_laws F" and "init_stdio F = Some st"
  shows "fd_inv F {#} {#} st"
proof -
  from init_stdio_spec [OF laws, where 'f = 'f and 'd = 'd and 's = 's] assms(2) obtain t where
    st: "st = \<lparr>objs = [0 \<mapsto> (1, Stdin), 1 \<mapsto> (1, Stdout), 2 \<mapsto> (1, Stdout)],
      bufs = Map.empty, next_addr = 3, tabs = [t]\<rparr>" and t: "fo_get F t = [0 \<mapsto> 0, 1 \<mapsto> 1, 2 \<mapsto> 2]"
    by auto
  have refs: "table_refs F [t] x = (if x < 3 then 1 else 0)" for x
  proof -
    have "{i. ([0 \<mapsto> 0, 1 \<mapsto> 1, 2 \<mapsto> 2] :: usize \<Rightarrow> nat option) i = Some x} =
        (if x = 0 then {0} else if x = 1 then {1} else if x = 2 then {2} else {})" by auto
    then show ?thesis by (simp add: table_refs_def t)
  qed
  have "{a. \<exists>p. arc_get (objs st) a = Some (PipeEnd p x)} = {}" for x
    by (auto simp: st arc_get_def split: if_splits)
  then have "buf_refs (arc_get (objs st)) x = 0" for x by (simp only: buf_refs_def card.empty)
  then show ?thesis by (auto simp: st fd_inv_def arc_ok_def refs arc_count_def arc_get_def)
qed

lemma reachable_inv: "flatten_laws F \<Longrightarrow> fd_reachable F st \<Longrightarrow> fd_inv F {#} {#} st"
  by (rotate_tac, induction rule: fd_reachable.induct) (auto intro: init_stdio_inv fd_step_inv)

section \<open>A table\<close>

text \<open>A container with the documented behaviour: a map that ignores ids beyond the capacity.\<close>

definition map_get :: "(usize \<Rightarrow> nat option) \<Rightarrow> usize \<Rightarrow> nat option" where
  "map_get t i = (if unat i < AX_FILE_LIMIT then t i else None)"

definition all_ids :: "usize list" where
  "all_ids = map of_nat [0..<AX_FILE_LIMIT]"

definition map_ops :: "(usize \<Rightarrow> nat option) flatten_ops" where
  "map_ops =
     \<lparr>fo_new = Map.empty,
      fo_add = (\<lambda>a t. map_option (\<lambda>i. (i, t(i \<mapsto> a))) (find (\<lambda>i. map_get t i = None) all_ids)),
      fo_add_at = (\<lambda>i a t. if unat i < AX_FILE_LIMIT \<and> map_get t i = None then Some (t(i \<mapsto> a)) else None),
      fo_get = map_get,
      fo_remove = (\<lambda>i t. (map_get t i, t(i := None))),
      fo_ids = (\<lambda>t. filter (\<lambda>i. map_get t i \<noteq> None) all_ids)\<rparr>"

lemma set_all_ids: "set all_ids = {i. unat i < AX_FILE_LIMIT}"
proof -
  have "i \<in> of_nat ` {0..<AX_FILE_LIMIT}" if "unat i < AX_FILE_LIMIT" for i :: usize
    using that by (intro image_eqI [of _ _ "unat i"]) auto
  moreover have "unat (of_nat n :: usize) < AX_FILE_LIMIT" if "n < AX_FILE_LIMIT" for n
    using that by (simp add: unat_of_nat AX_FILE_LIMIT_def)
  ultimately show ?thesis by (auto simp: all_ids_def)
qed

lemma distinct_all_ids: "distinct all_ids"
proof -
  have "inj_on (of_nat :: nat \<Rightarrow> usize) {0..<AX_FILE_LIMIT}"
    by (rule inj_on_inverseI [of _ unat]) (simp add: unat_of_nat AX_FILE_LIMIT_def)
  then show ?thesis by (simp add: all_ids_def distinct_map)
qed

lemma find_all_ids:
  "find P all_ids = Some i \<Longrightarrow> P i \<and> unat i < AX_FILE_LIMIT"
  "find P all_ids = None \<Longrightarrow> unat i < AX_FILE_LIMIT \<Longrightarrow> \<not> P i"
  using set_all_ids by (auto simp: find_None_iff find_Some_iff dest: nth_mem)

lemma map_get_simps:
  "unat i < AX_FILE_LIMIT \<Longrightarrow> map_get (t(i \<mapsto> a)) = (map_get t)(i \<mapsto> a)"
  "map_get (t(i := None)) = (map_get t)(i := None)"
  "dom (map_get t) = {i. unat i < AX_FILE_LIMIT \<and> map_get t i \<noteq> None}"
  by (auto simp: map_get_def fun_eq_iff split: if_splits)

lemma map_ops_laws: "flatten_laws map_ops"
  unfolding flatten_laws_def
proof (intro conjI)
  show "flatten_add_law map_ops"
    unfolding flatten_add_law_def map_ops_def flatten_ops.select_convs
    by (auto simp: map_get_simps split: option.split dest: find_all_ids)
  show "flatten_add_at_law map_ops"
    by (simp add: flatten_add_at_law_def map_ops_def map_get_simps)
  show "flatten_remove_law map_ops"
    by (simp add: flatten_remove_law_def map_ops_def map_get_simps)
  show "flatten_ids_law map_ops"
    using distinct_all_ids
    by (simp add: flatten_ids_law_def map_ops_def map_get_simps(3) set_all_ids)
      (simp add: map_get_def)
qed

section \<open>What the system calls do to the tables\<close>

lemma limit_cast:
  assumes "unat (i :: usize) < AX_FILE_LIMIT"
  shows "scast (ucast i :: i32) = i"
proof -
  have "uint i = int (unat i)" by (rule uint_nat)
  with assms have "- 2147483648 \<le> uint i" "uint i < 2147483648"
    unfolding AX_FILE_LIMIT_def by linarith+
  then have "sint (ucast i :: i32) = uint i"
    unfolding signed_ucast_eq by (intro signed_take_bit_int_eq_self) simp_all
  then show ?thesis by (simp add: scast_eq)
qed

lemma add_to_fd_table_spec:
  assumes "flatten_laws F" "c < length (tabs st)" "unat i < AX_FILE_LIMIT" "fo_get F (tab c st) i = None"
  shows "\<exists>j t. add_to_fd_table F c f st = (Ok (ucast j), set_tab c t (snd (alloc_file f st))) \<and>
    unat j < AX_FILE_LIMIT \<and> fo_get F (tab c st) j = None \<and>
    fo_get F t = (fo_get F (tab c st))(j \<mapsto> next_addr st)"
proof -
  obtain j t where jt: "fo_add F (next_addr st) (tab c st) = Some (j, t)"
    using flatten_add_full [OF assms(1) _ assms(3), of "next_addr st" "tab c st"] assms(4) by fastforce
  with flatten_add [OF assms(1) this] assms(2) show ?thesis
    by (auto simp: add_to_fd_table_def add_file_like_def alloc_file_def)
qed

lemma sys_pipe2_spec:
  assumes laws: "flatten_laws F" and c: "c < length (tabs st)"
    and "i \<noteq> j" "unat i < AX_FILE_LIMIT" "unat j < AX_FILE_LIMIT"
    and "fo_get F (tab c st) i = None" "fo_get F (tab c st) j = None"
  shows "\<exists>r w st' t. sys_pipe2 F c (Ok ()) st = (Ok 0, Some (ucast r, ucast w), st') \<and>
    r \<noteq> w \<and> unat r < AX_FILE_LIMIT \<and> unat w < AX_FILE_LIMIT \<and>
    objs st' = (objs st)(next_addr st + 1 \<mapsto> (1, PipeEnd \<lparr>p_readable = True\<rparr> (next_addr st)),
                         next_addr st + 2 \<mapsto> (1, PipeEnd \<lparr>p_readable = False\<rparr> (next_addr st))) \<and>
    bufs st' = (bufs st)(next_addr st \<mapsto> (2, ring_new)) \<and> tabs st' = (tabs st)[c := t] \<and>
    fo_get F t = (fo_get F (tab c st))(r \<mapsto> next_addr st + 1, w \<mapsto> next_addr st + 2)"
proof -
  let ?b = "next_addr st"
  let ?st1 = "st\<lparr>bufs := (bufs st)(?b \<mapsto> (2, ring_new)), next_addr := ?b + 1\<rparr>"
  let ?re = "\<lparr>p_readable = True\<rparr> :: Pipe" and ?we = "\<lparr>p_readable = False\<rparr> :: Pipe"
  have pn: "pipe_new_in st = (?re, ?we, ?b, ?st1)"
    by (simp add: pipe_new_in_def pipe_new_def Let_def)
  from add_to_fd_table_spec [OF laws, of c ?st1 i "PipeEnd ?re ?b"] assms
  obtain r t1 where r: "add_to_fd_table F c (PipeEnd ?re ?b) ?st1 =
      (Ok (ucast r), set_tab c t1 (snd (alloc_file (PipeEnd ?re ?b) ?st1)))"
    "unat r < AX_FILE_LIMIT" "fo_get F (tab c st) r = None"
    "fo_get F t1 = (fo_get F (tab c st))(r \<mapsto> ?b + 1)" by auto
  let ?st2 = "set_tab c t1 (snd (alloc_file (PipeEnd ?re ?b) ?st1))"
  obtain k where k: "unat k < AX_FILE_LIMIT" "fo_get F t1 k = None"
    using assms r(4) by (cases "i = r") auto
  have t2: "length (tabs ?st2) = length (tabs st)" "tab c ?st2 = t1" "next_addr ?st2 = ?b + 2"
    using c by (simp_all add: alloc_file_def set_tab_def)
  from add_to_fd_table_spec [OF laws, of c ?st2 k "PipeEnd ?we ?b"] c k t2
  obtain w t where w: "add_to_fd_table F c (PipeEnd ?we ?b) ?st2 =
      (Ok (ucast w), set_tab c t (snd (alloc_file (PipeEnd ?we ?b) ?st2)))"
    "unat w < AX_FILE_LIMIT" "fo_get F t1 w = None" "fo_get F t = (fo_get F t1)(w \<mapsto> ?b + 2)" by auto
  from w(3) r(4) have "r \<noteq> w" by auto
  moreover from pn r(1) w(1)
  have "sys_pipe2 F c (Ok ()) st =
      (Ok 0, Some (ucast r, ucast w), set_tab c t (snd (alloc_file (PipeEnd ?we ?b) ?st2)))"
    by (simp add: sys_pipe2_def)
  ultimately show ?thesis using r(2,4) w(2,4)
    by (intro exI [of _ r] exI [of _ w] exI [of _ "set_tab c t (snd (alloc_file (PipeEnd ?we ?b) ?st2))"]
        exI [of _ t]) (simp add: alloc_file_def set_tab_def)
qed

lemma sys_dup2_spec:
  assumes laws: "flatten_laws F" and c: "c < length (tabs st)"
    and old: "fo_get F (tab c st) (scast old_fd) = Some a"
    and new: "unat (scast new_fd :: usize) < AX_FILE_LIMIT"
  shows "\<exists>st'. sys_dup2 F c old_fd new_fd st = (Ok (scast new_fd), st') \<and>
    length (tabs st') = length (tabs st) \<and>
    fo_get F (tab c st') = (fo_get F (tab c st))(scast new_fd \<mapsto> a) \<and>
    (\<forall>c'. c' \<noteq> c \<longrightarrow> tab c' st' = tab c' st)"
proof (cases "old_fd = new_fd")
  case True
  with old show ?thesis by (auto simp: sys_dup2_def Let_def fun_eq_iff)
next
  case False
  obtain x t where rm: "fo_remove F (scast new_fd) (tab c st) = (x, t)" by fastforce
  from flatten_remove [OF laws rm] have t: "fo_get F t = (fo_get F (tab c st))(scast new_fd := None)" by simp
  with flatten_add_at [OF laws, of "scast new_fd" t a] new obtain t1 where
    t1: "fo_add_at F (scast new_fd) a t = Some t1" "fo_get F t1 = (fo_get F t)(scast new_fd \<mapsto> a)"
    by (auto split: option.splits)
  from False old rm t1 t c show ?thesis
    by (cases x) (auto simp: sys_dup2_def Let_def)
qed

section \<open>Properties\<close>

lemma inv_pipe_end:
  assumes inv: "fd_inv F {#} {#} st" and a: "objs st a = Some (n, PipeEnd p b)"
  shows "\<exists>rb. bufs st b = Some (buf_refs (arc_get (objs st)) b, rb) \<and> rb_inv rb \<and>
    (buf_refs (arc_get (objs st)) b = 1 \<longleftrightarrow> (\<forall>a' p'. arc_get (objs st) a' = Some (PipeEnd p' b) \<longrightarrow> a' = a))"
proof -
  let ?S = "{a. \<exists>p. arc_get (objs st) a = Some (PipeEnd p b)}"
  have fin: "finite ?S" using inv by (intro finite_ends) (simp add: fd_inv_def)
  have mem: "a \<in> ?S" using a by (auto simp: arc_get_def)
  have ok: "arc_ok (bufs st) (\<lambda>b. buf_refs (arc_get (objs st)) b + count {#} b)"
    using inv by (simp add: fd_inv_def)
  have "0 < buf_refs (arc_get (objs st)) b" using fin mem by (auto simp: buf_refs_def card_gt_0_iff)
  with arc_ok_live [OF ok, of b] obtain m rb where rb: "bufs st b = Some (m, rb)" by auto
  with arc_ok_count [OF ok, of b] have "m = buf_refs (arc_get (objs st)) b" by (simp add: arc_count_def)
  moreover have "arc_get (bufs st) b = Some rb" using rb by (simp add: arc_get_def)
  then have "rb_inv rb" using inv unfolding fd_inv_def by blast
  moreover have "buf_refs (arc_get (objs st)) b = 1 \<longleftrightarrow> ?S = {a}"
    unfolding buf_refs_def by (rule card_1_member [OF mem])
  moreover have "?S = {a} \<longleftrightarrow> (\<forall>a' p'. arc_get (objs st) a' = Some (PipeEnd p' b) \<longrightarrow> a' = a)"
    using mem by auto
  ultimately show ?thesis using rb by (intro exI [of _ rb]) simp
qed

lemma inv_in_table:
  assumes inv: "fd_inv F {#} {#} st"
  shows "objs st a \<noteq> None \<longleftrightarrow> (\<exists>c < length (tabs st). \<exists>i. fo_get F (tab c st) i = Some a)"
proof -
  have "arc_ok (objs st) (\<lambda>x. table_refs F (tabs st) x + count {#} x)" using inv by (simp add: fd_inv_def)
  from arc_ok_live [OF this, of a] have "objs st a \<noteq> None \<longleftrightarrow> table_refs F (tabs st) a \<noteq> 0" by simp
  also have "\<dots> \<longleftrightarrow> (\<exists>t \<in> set (tabs st). {i. fo_get F t i = Some a} \<noteq> {})"
    by (auto simp: table_refs_def card_eq_0_iff)
  also have "\<dots> \<longleftrightarrow> (\<exists>c < length (tabs st). \<exists>i. fo_get F (tab c st) i = Some a)"
    by (simp add: bex_set_nth)
  finally show ?thesis .
qed

lemma inv_alone:
  assumes inv: "fd_inv F {#} {#} st" and a: "objs st a = Some (n, PipeEnd p b)"
  shows "\<exists>cnt rb. bufs st b = Some (cnt, rb) \<and> rb_inv rb \<and>
    (cnt = 1 \<longleftrightarrow> \<not> (\<exists>c < length (tabs st). \<exists>i a' m p'. fo_get F (tab c st) i = Some a' \<and> a' \<noteq> a \<and>
          objs st a' = Some (m, PipeEnd p' b)))"
proof -
  from inv_pipe_end [OF inv a] obtain rb where
    rb: "bufs st b = Some (buf_refs (arc_get (objs st)) b, rb)" "rb_inv rb"
    and one: "buf_refs (arc_get (objs st)) b = 1 \<longleftrightarrow>
      (\<forall>a' p'. arc_get (objs st) a' = Some (PipeEnd p' b) \<longrightarrow> a' = a)" by blast
  have "\<exists>c < length (tabs st). \<exists>i. fo_get F (tab c st) i = Some a'" if "objs st a' = Some x" for a' x
    using inv_in_table [OF inv, of a'] that by simp
  then have "(\<forall>a' p'. arc_get (objs st) a' = Some (PipeEnd p' b) \<longrightarrow> a' = a) \<longleftrightarrow>
     \<not> (\<exists>c < length (tabs st). \<exists>i a' m p'. fo_get F (tab c st) i = Some a' \<and> a' \<noteq> a \<and>
          objs st a' = Some (m, PipeEnd p' b))"
    unfolding arc_get_Some by blast
  with rb one show ?thesis by simp
qed

lemma inv_count_pos: "fd_inv F E B st \<Longrightarrow> objs st a = Some (n, v) \<Longrightarrow> 0 < n"
  unfolding fd_inv_def arc_ok_def arc_count_def by (metis case_prod_conv option.distinct(1) option.simps(5))

text \<open>A pipe in a fresh process, for examples: its ends are at descriptors \<open>r\<close> and \<open>w\<close>.\<close>

lemma pipe_example:
  obtains st :: "(usize \<Rightarrow> nat option, 'f, 'd, 's) files" and r w :: i32
  where "fd_reachable map_ops st" "tabs st \<noteq> []" "objs st 4 = Some (1, PipeEnd \<lparr>p_readable = True\<rparr> 3)"
    "objs st 5 = Some (1, PipeEnd \<lparr>p_readable = False\<rparr> 3)" "bufs st 3 = Some (2, ring_new)"
    "fo_get map_ops (tab 0 st) (scast r) = Some 4" "fo_get map_ops (tab 0 st) (scast w) = Some 5"
proof -
  obtain t where init: "init_stdio map_ops = Some (\<lparr>objs = [0 \<mapsto> (1, Stdin), 1 \<mapsto> (1, Stdout), 2 \<mapsto> (1, Stdout)],
      bufs = Map.empty, next_addr = 3, tabs = [t]\<rparr> :: (usize \<Rightarrow> nat option, 'f, 'd, 's) files)"
      (is "_ = Some ?st0")
    and t: "fo_get map_ops t = [0 \<mapsto> 0, 1 \<mapsto> 1, 2 \<mapsto> 2]"
    using init_stdio_spec [OF map_ops_laws] by blast
  from sys_pipe2_spec [OF map_ops_laws, of 0 ?st0 3 4] obtain r w st t'
    where p2: "sys_pipe2 map_ops 0 (Ok ()) ?st0 = (Ok 0, Some (ucast r, ucast w), st)"
      and rw: "r \<noteq> w" "unat r < AX_FILE_LIMIT" "unat w < AX_FILE_LIMIT"
      and o: "objs st = [0 \<mapsto> (1, Stdin), 1 \<mapsto> (1, Stdout), 2 \<mapsto> (1, Stdout),
          4 \<mapsto> (1, PipeEnd \<lparr>p_readable = True\<rparr> 3), 5 \<mapsto> (1, PipeEnd \<lparr>p_readable = False\<rparr> 3)]"
        "bufs st = [3 \<mapsto> (2, ring_new)]" "tabs st = [t']"
        "fo_get map_ops t' = [0 \<mapsto> 0, 1 \<mapsto> 1, 2 \<mapsto> 2, r \<mapsto> 4, w \<mapsto> 5]"
    by (auto simp: t AX_FILE_LIMIT_def)
  have "fd_step map_ops ?st0 st" by (rule step_pipe2 [OF _ p2]) simp
  with init have "fd_reachable map_ops st" by (auto intro: reach_init reach_step)
  moreover have "scast (ucast r :: i32) = r" "scast (ucast w :: i32) = w"
    using rw by (auto intro: limit_cast)
  ultimately show ?thesis using o rw(1) by (intro that [of st "ucast r" "ucast w"]) auto
qed

text \<open>
  C4: Descriptors never dangle and open files never leak. In every state that the descriptor
  system calls, forks and exits of any number of processes can reach, an open file exists exactly
  when some descriptor refers to it, and its reference count is the number of descriptors that refer
  to it, over the tables of all processes.
\<close>

theorem reachable_reference_counts:
  fixes st :: "('t, 'f, 'd, 's) files"
  assumes "flatten_laws F" "fd_reachable F st"
  shows "(objs st a = None \<longleftrightarrow> (\<forall>c < length (tabs st). \<forall>i. fo_get F (tab c st) i \<noteq> Some a)) \<and>
    (case objs st a of None \<Rightarrow> True
     | Some (n, f) \<Rightarrow> n = (\<Sum>t\<leftarrow>tabs st. card {i. fo_get F t i = Some a}))"
proof -
  have inv: "fd_inv F {#} {#} st" by (rule reachable_inv [OF assms])
  then have "arc_ok (objs st) (table_refs F (tabs st))" by (simp add: fd_inv_def)
  from arc_ok_count [OF this, of a] inv_in_table [OF inv, of a] show ?thesis
    by (auto simp: arc_count_def table_refs_def split: option.splits)
qed

theorem reachable_reference_counts_witness:
  "\<exists>st :: (usize \<Rightarrow> nat option, unit, unit, unit) files.
     flatten_laws map_ops \<and> fd_reachable map_ops st \<and> objs st 0 \<noteq> None \<and>
     (\<exists>c < length (tabs st). \<exists>i. fo_get map_ops (tab c st) i = Some 0)"
proof -
  obtain st :: "(usize \<Rightarrow> nat option, unit, unit, unit) files"
    where st: "init_stdio map_ops = Some st" "objs st 0 \<noteq> None"
    using init_stdio_spec [OF map_ops_laws] by fastforce
  then have "fd_reachable map_ops st" by (auto intro: reach_init)
  with st(2) reachable_reference_counts [OF map_ops_laws this, of 0] map_ops_laws show ?thesis
    by (intro exI [of _ st]) simp
qed

text \<open>
  C20: End of file on a pipe is decided correctly. In every reachable state, the test
  \<open>Arc::strong_count == 1\<close> that a pipe end uses to see whether it is alone holds exactly when no
  descriptor of any process refers to another end of the same pipe: not too early, while a forked
  child still holds a duplicate, and not too late, after the last one is closed.
\<close>

theorem pipe_closed_iff_no_other_end:
  fixes st :: "('t, 'f, 'd, 's) files"
  assumes "flatten_laws F" "fd_reachable F st" "objs st a = Some (n, PipeEnd p b)"
  shows "\<exists>cnt rb. bufs st b = Some (cnt, rb) \<and> rb_inv rb \<and>
    (pipe_closed \<lparr>ps_buf = rb, ps_count = cnt\<rparr> \<longleftrightarrow>
     \<not> (\<exists>c < length (tabs st). \<exists>i a' m p'. fo_get F (tab c st) i = Some a' \<and> a' \<noteq> a \<and>
          objs st a' = Some (m, PipeEnd p' b)))"
proof -
  have inv: "fd_inv F {#} {#} st" by (rule reachable_inv [OF assms(1,2)])
  from inv_alone [OF this assms(3)] show ?thesis unfolding pipe_closed_def by auto
qed

theorem pipe_closed_iff_no_other_end_witness:
  "\<exists>(st :: (usize \<Rightarrow> nat option, unit, unit, unit) files) rb. fd_reachable map_ops st \<and>
     objs st 4 = Some (1, PipeEnd \<lparr>p_readable = True\<rparr> 3) \<and>
     objs st 5 = Some (1, PipeEnd \<lparr>p_readable = False\<rparr> 3) \<and>
     bufs st 3 = Some (2, rb) \<and> \<not> pipe_closed \<lparr>ps_buf = rb, ps_count = 2\<rparr> \<and>
     (\<exists>c < length (tabs st). \<exists>i a' m p'. fo_get map_ops (tab c st) i = Some a' \<and> a' \<noteq> 4 \<and>
          objs st a' = Some (m, PipeEnd p' 3))"
proof -
  obtain st :: "(usize \<Rightarrow> nat option, unit, unit, unit) files" and r w where reach: "fd_reachable map_ops st"
    and o: "objs st 4 = Some (1, PipeEnd \<lparr>p_readable = True\<rparr> 3)"
      "objs st 5 = Some (1, PipeEnd \<lparr>p_readable = False\<rparr> 3)" "bufs st 3 = Some (2, ring_new)"
    by (rule pipe_example)
  from pipe_closed_iff_no_other_end [OF map_ops_laws reach o(1)] o(3)
  have "\<exists>c < length (tabs st). \<exists>i a' m p'. fo_get map_ops (tab c st) i = Some a' \<and> a' \<noteq> 4 \<and>
      objs st a' = Some (m, PipeEnd p' 3)" by (simp add: pipe_closed_def)
  with reach o show ?thesis by (intro exI [of _ st] exI [of _ ring_new]) (simp add: pipe_closed_def)
qed

text \<open>
  C21: \<open>dup2\<close> redirects one descriptor and nothing else. For an open \<open>old_fd\<close> and any \<open>new_fd\<close> below
  the table's capacity it succeeds; afterwards \<open>new_fd\<close> refers to the file of \<open>old_fd\<close>, every other
  descriptor and every other process's table is as before, and all reference counts are again exact,
  so that the file \<open>new_fd\<close> referred to before is closed if this was its last descriptor.
\<close>

theorem sys_dup2_redirects:
  fixes st :: "('t, 'f, 'd, 's) files"
  assumes "flatten_laws F" "fd_inv F {#} {#} st" "c < length (tabs st)"
    and "fo_get F (tab c st) (scast old_fd) = Some a" "unat (scast new_fd :: usize) < AX_FILE_LIMIT"
  shows "\<exists>st'. sys_dup2 F c old_fd new_fd st = (Ok (scast new_fd), st') \<and> fd_inv F {#} {#} st' \<and>
    fo_get F (tab c st') = (fo_get F (tab c st))(scast new_fd \<mapsto> a) \<and>
    (\<forall>c'. c' \<noteq> c \<longrightarrow> tab c' st' = tab c' st)"
  using sys_dup2_spec [OF assms(1,3-5)] sys_dup2_inv [OF assms(1-3)] by blast

theorem sys_dup2_redirects_witness:
  "\<exists>st st' :: (usize \<Rightarrow> nat option, unit, unit, unit) files.
     fd_inv map_ops {#} {#} st \<and> sys_dup2 map_ops 0 1 7 st = (Ok 7, st') \<and>
     fo_get map_ops (tab 0 st') 7 = Some 1"
proof -
  obtain t where init: "init_stdio map_ops = Some (\<lparr>objs = [0 \<mapsto> (1, Stdin), 1 \<mapsto> (1, Stdout), 2 \<mapsto> (1, Stdout)],
      bufs = Map.empty, next_addr = 3, tabs = [t]\<rparr> :: (usize \<Rightarrow> nat option, unit, unit, unit) files)"
      (is "_ = Some ?st0")
    and t: "fo_get map_ops t = [0 \<mapsto> 0, 1 \<mapsto> 1, 2 \<mapsto> 2]"
    using init_stdio_spec [OF map_ops_laws] by blast
  from init_stdio_inv [OF map_ops_laws init] have inv: "fd_inv map_ops {#} {#} ?st0" .
  with sys_dup2_redirects [OF map_ops_laws this, of 0 1 1 7] t show ?thesis
    by (auto simp: AX_FILE_LIMIT_def)
qed

text \<open>
  \<open>dup2\<close> from an open descriptor to a negative \<open>new_fd\<close>, or to one of 1024 or more, panics the
  kernel instead of reporting \<open>EBADF\<close>: the table refuses the id and the refusal is unwrapped.
\<close>

theorem sys_dup2_panics:
  fixes st :: "('t, 'f, 'd, 's) files"
  assumes "flatten_laws F" "fo_get F (tab c st) (scast old_fd) = Some a"
    and "AX_FILE_LIMIT \<le> unat (scast new_fd :: usize)"
  shows "fst (sys_dup2 F c old_fd new_fd st) = Panic"
proof -
  have "old_fd \<noteq> new_fd" using flatten_limit [OF assms(1,2)] assms(3) by auto
  moreover obtain x t where "fo_remove F (scast new_fd) (tab c st) = (x, t)" by fastforce
  moreover have "fo_add_at F (scast new_fd) a t = None"
    using flatten_add_at [OF assms(1), of "scast new_fd" t a] assms(3) by (auto split: option.splits)
  ultimately show ?thesis using assms(2) by (simp add: sys_dup2_def Let_def)
qed

theorem sys_dup2_panics_witness:
  "\<exists>st :: (usize \<Rightarrow> nat option, unit, unit, unit) files.
     fo_get map_ops (tab 0 st) 1 = Some 1 \<and> fst (sys_dup2 map_ops 0 1 2000 st) = Panic \<and>
     fst (sys_dup2 map_ops 0 1 (- 1) st) = Panic"
proof -
  let ?st = "\<lparr>objs = [1 \<mapsto> (1, Stdout)], bufs = Map.empty, next_addr = 3, tabs = [[1 \<mapsto> 1]]\<rparr>
    :: (usize \<Rightarrow> nat option, unit, unit, unit) files"
  have "fo_get map_ops (tab 0 ?st) 1 = Some 1"
    by (simp add: map_ops_def map_get_def AX_FILE_LIMIT_def)
  with sys_dup2_panics [OF map_ops_laws, where c = 0 and st = ?st and old_fd = 1 and a = 1 and new_fd = 2000]
    sys_dup2_panics [OF map_ops_laws, where c = 0 and st = ?st and old_fd = 1 and a = 1 and new_fd = "- 1"]
  show ?thesis by (intro exI [of _ ?st]) (simp add: AX_FILE_LIMIT_def unsigned_minus_1_eq_mask mask_eq_exp_minus_1)
qed

end
