(* ===== verification/TimeStat.thy ===== *)
theory TimeStat
  imports Prelude
begin

text \<open>
  The per-task time statistics of \<open>core/src/time.rs\<close> and the functions of \<open>core/src/task.rs\<close> that
  drive them at every switch between user and kernel mode. Time stamps are nanoseconds in a
  \<open>usize\<close>; all arithmetic wraps at 64 bits.
\<close>

section \<open>Definitions\<close>

datatype TimerType = NONE | REAL | VIRTUAL | PROF

text \<open>\<open>TryFrom<i32>\<close> generated by \<open>numeric_enum!\<close>, and \<open>From<usize>\<close> on top of it.\<close>

definition TimerType_try_from :: "i32 \<Rightarrow> TimerType option" where
  "TimerType_try_from n =
     (if n = - 1 then Some NONE else if n = 0 then Some REAL
      else if n = 1 then Some VIRTUAL else if n = 2 then Some PROF else None)"

definition TimerType_from :: "usize \<Rightarrow> TimerType" where
  "TimerType_from num = (case TimerType_try_from (ucast num) of Some v \<Rightarrow> v | None \<Rightarrow> NONE)"

record TimeStat =
  utime_ns :: usize
  stime_ns :: usize
  user_timestamp :: usize
  kernel_timestamp :: usize
  timer_type :: TimerType
  timer_interval_ns :: usize
  timer_remained_ns :: usize

definition time_new :: TimeStat where
  "time_new =
     \<lparr>utime_ns = 0, stime_ns = 0, user_timestamp = 0, kernel_timestamp = 0,
      timer_type = NONE, timer_interval_ns = 0, timer_remained_ns = 0\<rparr>"

definition time_output :: "TimeStat \<Rightarrow> usize \<times> usize" where
  "time_output ts = (utime_ns ts, stime_ns ts)"

definition time_reset :: "usize \<Rightarrow> TimeStat \<Rightarrow> TimeStat" where
  "time_reset current_timestamp ts =
     ts\<lparr>utime_ns := 0, stime_ns := 0, user_timestamp := 0, kernel_timestamp := current_timestamp\<rparr>"

definition update_timer :: "usize \<Rightarrow> TimeStat \<Rightarrow> TimeStat" where
  "update_timer delta ts =
     (if timer_remained_ns ts = 0 then ts
      else if timer_remained_ns ts > delta
           then ts\<lparr>timer_remained_ns := timer_remained_ns ts - delta\<rparr>
      else ts)"

definition switch_into_kernel_mode :: "usize \<Rightarrow> TimeStat \<Rightarrow> TimeStat" where
  "switch_into_kernel_mode current_timestamp ts =
     (let delta = current_timestamp - kernel_timestamp ts;
          ts1 = ts\<lparr>utime_ns := utime_ns ts + delta, kernel_timestamp := current_timestamp\<rparr>
      in if timer_type ts1 \<noteq> NONE then update_timer delta ts1 else ts1)"

definition switch_into_user_mode :: "usize \<Rightarrow> TimeStat \<Rightarrow> TimeStat" where
  "switch_into_user_mode current_timestamp ts =
     (let delta = current_timestamp - kernel_timestamp ts;
          ts1 = ts\<lparr>stime_ns := stime_ns ts + delta, user_timestamp := current_timestamp\<rparr>
      in if timer_type ts1 = REAL \<or> timer_type ts1 = PROF then update_timer delta ts1 else ts1)"

definition switch_from_old_task :: "usize \<Rightarrow> TimeStat \<Rightarrow> TimeStat" where
  "switch_from_old_task current_timestamp ts =
     (let delta = current_timestamp - kernel_timestamp ts;
          ts1 = ts\<lparr>stime_ns := stime_ns ts + delta, kernel_timestamp := current_timestamp\<rparr>
      in if timer_type ts1 = REAL \<or> timer_type ts1 = PROF then update_timer delta ts1 else ts1)"

definition switch_to_new_task :: "usize \<Rightarrow> TimeStat \<Rightarrow> TimeStat" where
  "switch_to_new_task current_timestamp ts =
     (let delta = current_timestamp - kernel_timestamp ts;
          ts1 = ts\<lparr>kernel_timestamp := current_timestamp\<rparr>
      in if timer_type ts1 = REAL then update_timer delta ts1 else ts1)"

definition set_timer :: "usize \<Rightarrow> usize \<Rightarrow> usize \<Rightarrow> TimeStat \<Rightarrow> bool \<times> TimeStat" where
  "set_timer interval_ns remained_ns type ts =
     (let ts1 = ts\<lparr>timer_type := TimerType_from type, timer_interval_ns := interval_ns,
                   timer_remained_ns := remained_ns\<rparr>
      in (timer_type ts1 \<noteq> NONE, ts1))"

text \<open>The entry points of \<open>task.rs\<close>, for the current task and a reading of the monotonic clock.\<close>

definition time_stat_from_kernel_to_user :: "u64 \<Rightarrow> TimeStat \<Rightarrow> TimeStat" where
  "time_stat_from_kernel_to_user monotonic_time_nanos ts = switch_into_user_mode monotonic_time_nanos ts"

definition time_stat_from_user_to_kernel :: "u64 \<Rightarrow> TimeStat \<Rightarrow> TimeStat" where
  "time_stat_from_user_to_kernel monotonic_time_nanos ts = switch_into_kernel_mode monotonic_time_nanos ts"

definition NANOS_PER_SEC :: u64 where "NANOS_PER_SEC = 1000000000"

definition NANOS_PER_MICROS :: u64 where "NANOS_PER_MICROS = 1000"

definition time_stat_output :: "TimeStat \<Rightarrow> usize \<times> usize \<times> usize \<times> usize" where
  "time_stat_output ts =
     (let (utime, stime) = time_output ts
      in (utime div NANOS_PER_SEC, utime div NANOS_PER_MICROS,
          stime div NANOS_PER_SEC, stime div NANOS_PER_MICROS))"

section \<open>What is counted\<close>

named_theorems switch_defs
lemmas mode_switch_defs [switch_defs] = switch_into_kernel_mode_def switch_into_user_mode_def
  switch_from_old_task_def switch_to_new_task_def

lemma update_timer_times [simp]:
  "utime_ns (update_timer d ts) = utime_ns ts" "stime_ns (update_timer d ts) = stime_ns ts"
  "kernel_timestamp (update_timer d ts) = kernel_timestamp ts"
  "timer_type (update_timer d ts) = timer_type ts"
  by (simp_all add: update_timer_def)

text \<open>
  A run of a task: it enters the kernel, spends \<open>k\<close> nanoseconds there, returns to user mode and
  spends \<open>u\<close> nanoseconds there, again and again.
\<close>

fun rounds :: "usize \<Rightarrow> (usize \<times> usize) list \<Rightarrow> TimeStat \<Rightarrow> TimeStat" where
  "rounds now [] ts = ts"
| "rounds now ((k, u) # rs) ts =
     rounds (now + k + u) rs
       (time_stat_from_user_to_kernel (now + k + u) (time_stat_from_kernel_to_user (now + k) ts))"

text \<open>A switch of any kind.\<close>

datatype switch = IntoKernel usize | IntoUser usize | FromOld usize | ToNew usize

fun do_switch :: "switch \<Rightarrow> TimeStat \<Rightarrow> TimeStat" where
  "do_switch (IntoKernel t) ts = switch_into_kernel_mode t ts"
| "do_switch (IntoUser t) ts = switch_into_user_mode t ts"
| "do_switch (FromOld t) ts = switch_from_old_task t ts"
| "do_switch (ToNew t) ts = switch_to_new_task t ts"

lemma rounds_counts:
  assumes "kernel_timestamp ts = now"
  shows "utime_ns (rounds now rs ts) = utime_ns ts + (\<Sum>(k, u)\<leftarrow>rs. k + u) \<and>
         stime_ns (rounds now rs ts) = stime_ns ts + (\<Sum>(k, u)\<leftarrow>rs. k)"
  using assms
proof (induction now rs ts rule: rounds.induct)
  case (2 now k u rs ts)
  let ?ts = "time_stat_from_user_to_kernel (now + k + u) (time_stat_from_kernel_to_user (now + k) ts)"
  have "kernel_timestamp ?ts = now + k + u" "utime_ns ?ts = utime_ns ts + (k + u)"
    "stime_ns ?ts = stime_ns ts + k"
    using 2(2) by (simp_all add: time_stat_from_user_to_kernel_def time_stat_from_kernel_to_user_def
        switch_defs Let_def)
  with 2(1) show ?case by (simp add: algebra_simps)
qed simp

lemma update_timer_remained:
  "timer_remained_ns (update_timer d ts) =
     (if d < timer_remained_ns ts then timer_remained_ns ts - d else timer_remained_ns ts)"
  by (simp add: update_timer_def)

lemma shorter: "d < r \<Longrightarrow> r - d \<noteq> 0 \<and> r - d \<le> r" for d r :: usize
  by (simp add: word_sub_le less_imp_le)

lemma do_switch_armed:
  "timer_remained_ns ts \<noteq> 0 \<Longrightarrow>
   timer_remained_ns (do_switch s ts) \<noteq> 0 \<and> timer_remained_ns (do_switch s ts) \<le> timer_remained_ns ts"
  by (cases s) (auto simp: switch_defs Let_def update_timer_remained shorter)

section \<open>Properties\<close>

text \<open>
  C38: What the statistics add up to over any run of kernel entries and returns. The system time
  is exactly the time spent in the kernel; the user time is the time spent in user mode and, once
  more, all of the time spent in the kernel, because a return to user mode does not move the
  time stamp that the next kernel entry measures from.
\<close>

theorem time_accounting:
  fixes ts :: TimeStat
  shows "let ts' = rounds (kernel_timestamp ts) rs ts;
             user = (\<Sum>(k, u)\<leftarrow>rs. u); kernel = (\<Sum>(k, u)\<leftarrow>rs. k)
         in stime_ns ts' = stime_ns ts + kernel \<and> utime_ns ts' = utime_ns ts + user + kernel"
proof -
  have "(\<Sum>(k, u)\<leftarrow>rs. k + u) = (\<Sum>(k, u)\<leftarrow>rs. u) + (\<Sum>(k, u)\<leftarrow>rs. k)"
    by (induction rs) auto
  with rounds_counts [OF refl, of ts rs] show ?thesis by (simp add: Let_def add.assoc)
qed

text \<open>
  C39: An armed interval timer never expires. Whatever switches a task goes through, a remaining
  time that is not zero never becomes zero and never grows: once less is left than the next
  interval takes, it is not changed any more.
\<close>

theorem timer_never_expires:
  fixes ts :: TimeStat
  assumes "timer_remained_ns ts \<noteq> 0"
  shows "timer_remained_ns (fold do_switch ss ts) \<noteq> 0 \<and>
         timer_remained_ns (fold do_switch ss ts) \<le> timer_remained_ns ts"
  using assms
proof (induction ss arbitrary: ts)
  case (Cons s ss)
  from do_switch_armed [OF Cons.prems, of s] Cons.IH [of "do_switch s ts"] show ?case
    by (auto intro: order_trans)
qed simp

theorem timer_never_expires_witness:
  "timer_remained_ns (fold do_switch [IntoUser 5, IntoKernel 1000000] (snd (set_timer 0 10 0 time_new))) \<noteq> 0"
  using timer_never_expires [of "snd (set_timer 0 10 0 time_new)" "[IntoUser 5, IntoKernel 1000000]"]
  by (simp add: set_timer_def Let_def)

end
