(* ===== verification/TimeConv.thy ===== *)
theory TimeConv
  imports TimeStat
begin

text \<open>
  Time values and the structures user programs exchange them in (\<open>api/src/time.rs\<close>), and the system
  calls on clocks and sleeping (\<open>api/src/imp/time.rs\<close>, \<open>api/src/imp/task/schedule.rs\<close>).

  \<open>TimeValue\<close> is \<open>core::time::Duration\<close>: seconds in a \<open>u64\<close> and nanoseconds in a \<open>u32\<close> kept below one
  second. \<open>timespec\<close> and \<open>timeval\<close> hold two signed 64-bit numbers.
\<close>

section \<open>Durations\<close>

record TimeValue =
  dur_secs :: u64
  dur_nanos :: u32

definition as_secs :: "TimeValue \<Rightarrow> u64" where
  "as_secs tv = dur_secs tv"

definition subsec_nanos :: "TimeValue \<Rightarrow> u32" where
  "subsec_nanos tv = dur_nanos tv"

definition subsec_micros :: "TimeValue \<Rightarrow> u32" where
  "subsec_micros tv = dur_nanos tv div 1000"

text \<open>\<open>Duration::new\<close> carries whole seconds over and panics when the seconds overflow.\<close>

definition duration_new :: "u64 \<Rightarrow> u32 \<Rightarrow> TimeValue LinuxResult" where
  "duration_new secs nanos =
     (if nanos < 1000000000 then Ok \<lparr>dur_secs = secs, dur_nanos = nanos\<rparr>
      else let carry = ucast (nanos div 1000000000) :: u64
           in if unat secs + unat carry < 2 ^ 64
              then Ok \<lparr>dur_secs = secs + carry, dur_nanos = nanos mod 1000000000\<rparr>
              else Panic)"

definition duration_from_nanos :: "u64 \<Rightarrow> TimeValue" where
  "duration_from_nanos n =
     \<lparr>dur_secs = n div 1000000000, dur_nanos = ucast (n mod 1000000000)\<rparr>"

text \<open>The length in nanoseconds, and the normal form every operation keeps.\<close>

definition tv_ns :: "TimeValue \<Rightarrow> nat" where
  "tv_ns tv = unat (dur_secs tv) * 1000000000 + unat (dur_nanos tv)"

definition tv_ok :: "TimeValue \<Rightarrow> bool" where
  "tv_ok tv \<longleftrightarrow> dur_nanos tv < 1000000000"

definition duration_checked_sub :: "TimeValue \<Rightarrow> TimeValue \<Rightarrow> TimeValue option" where
  "duration_checked_sub a b =
     (if dur_secs b \<le> dur_secs a
      then let secs = dur_secs a - dur_secs b
           in if dur_nanos b \<le> dur_nanos a
              then Some \<lparr>dur_secs = secs, dur_nanos = dur_nanos a - dur_nanos b\<rparr>
              else if 1 \<le> secs
              then Some \<lparr>dur_secs = secs - 1, dur_nanos = dur_nanos a + 1000000000 - dur_nanos b\<rparr>
              else None
      else None)"

section \<open>The structures of user space\<close>

record timespec =
  ts_sec :: i64
  ts_nsec :: i64

record timeval =
  tv_sec :: i64
  tv_usec :: i64

definition timespec_from_time_value :: "TimeValue \<Rightarrow> timespec" where
  "timespec_from_time_value tv = \<lparr>ts_sec = ucast (as_secs tv), ts_nsec = ucast (subsec_nanos tv)\<rparr>"

definition timespec_to_time_value :: "timespec \<Rightarrow> TimeValue LinuxResult" where
  "timespec_to_time_value ts = duration_new (ucast (ts_sec ts)) (ucast (ts_nsec ts))"

text \<open>\<open>self.tv_usec as u32 * 1000\<close> wraps at 32 bits.\<close>

definition timeval_from_time_value :: "TimeValue \<Rightarrow> timeval" where
  "timeval_from_time_value tv = \<lparr>tv_sec = ucast (as_secs tv), tv_usec = ucast (subsec_micros tv)\<rparr>"

definition timeval_to_time_value :: "timeval \<Rightarrow> TimeValue LinuxResult" where
  "timeval_to_time_value tv = duration_new (ucast (tv_sec tv)) (ucast (tv_usec tv) * 1000)"

text \<open>\<open>__kernel_timespec\<close>, \<open>__kernel_old_timespec\<close>, \<open>__kernel_old_timeval\<close>, \<open>__kernel_sock_timeval\<close>.\<close>

definition kernel_timespec_from_time_value :: "TimeValue \<Rightarrow> timespec" where
  "kernel_timespec_from_time_value tv = \<lparr>ts_sec = ucast (as_secs tv), ts_nsec = ucast (subsec_nanos tv)\<rparr>"

definition kernel_timespec_to_time_value :: "timespec \<Rightarrow> TimeValue LinuxResult" where
  "kernel_timespec_to_time_value ts = duration_new (ucast (ts_sec ts)) (ucast (ts_nsec ts))"

definition kernel_old_timespec_from_time_value :: "TimeValue \<Rightarrow> timespec" where
  "kernel_old_timespec_from_time_value tv = \<lparr>ts_sec = ucast (as_secs tv), ts_nsec = ucast (subsec_nanos tv)\<rparr>"

definition kernel_old_timespec_to_time_value :: "timespec \<Rightarrow> TimeValue LinuxResult" where
  "kernel_old_timespec_to_time_value ts = duration_new (ucast (ts_sec ts)) (ucast (ts_nsec ts))"

definition kernel_old_timeval_from_time_value :: "TimeValue \<Rightarrow> timeval" where
  "kernel_old_timeval_from_time_value tv = \<lparr>tv_sec = ucast (as_secs tv), tv_usec = ucast (subsec_micros tv)\<rparr>"

definition kernel_old_timeval_to_time_value :: "timeval \<Rightarrow> TimeValue LinuxResult" where
  "kernel_old_timeval_to_time_value tv = duration_new (ucast (tv_sec tv)) (ucast (tv_usec tv) * 1000)"

definition kernel_sock_timeval_from_time_value :: "TimeValue \<Rightarrow> timeval" where
  "kernel_sock_timeval_from_time_value tv = \<lparr>tv_sec = ucast (as_secs tv), tv_usec = ucast (subsec_micros tv)\<rparr>"

definition kernel_sock_timeval_to_time_value :: "timeval \<Rightarrow> TimeValue LinuxResult" where
  "kernel_sock_timeval_to_time_value tv = duration_new (ucast (tv_sec tv)) (ucast (tv_usec tv) * 1000)"

definition timespec_to_timevalue :: "timespec \<Rightarrow> TimeValue LinuxResult" where
  "timespec_to_timevalue ts = duration_new (ucast (ts_sec ts)) (ucast (ts_nsec ts))"

definition timevalue_to_timeval :: "TimeValue \<Rightarrow> timeval" where
  "timevalue_to_timeval tv = \<lparr>tv_sec = ucast (as_secs tv), tv_usec = ucast (subsec_micros tv)\<rparr>"

definition timeval_to_timevalue :: "timeval \<Rightarrow> TimeValue LinuxResult" where
  "timeval_to_timevalue tv = duration_new (ucast (tv_sec tv)) (ucast (tv_usec tv) * 1000)"

definition timevalue_to_timespec :: "TimeValue \<Rightarrow> timespec" where
  "timevalue_to_timespec tv = \<lparr>ts_sec = ucast (as_secs tv), ts_nsec = ucast (subsec_nanos tv)\<rparr>"

section \<open>System calls\<close>

text \<open>
  The clock of \<open>axhal::time\<close>, for readings \<open>ticks_nanos\<close> of the platform counter and \<open>epoch\<close> of the
  offset to real time.
\<close>

definition monotonic_time :: "u64 \<Rightarrow> TimeValue" where
  "monotonic_time ticks_nanos = duration_from_nanos ticks_nanos"

definition wall_time :: "u64 \<Rightarrow> u64 \<Rightarrow> TimeValue" where
  "wall_time ticks_nanos epoch = duration_from_nanos (ticks_nanos + epoch)"

record clock_abi =
  CLOCK_REALTIME :: u32
  CLOCK_MONOTONIC :: u32

text \<open>
  The user pointer is the outcome of its check; the second component is what is stored through it.
\<close>

definition sys_clock_gettime ::
  "clock_abi \<Rightarrow> u64 \<Rightarrow> u64 \<Rightarrow> i32 \<Rightarrow> unit LinuxResult \<Rightarrow> i64 LinuxResult \<times> timespec option" where
  "sys_clock_gettime abi ticks_nanos epoch clock_id user =
     (if (ucast clock_id :: u32) = CLOCK_REALTIME abi \<or> (ucast clock_id :: u32) = CLOCK_MONOTONIC abi
      then let now = (if (ucast clock_id :: u32) = CLOCK_REALTIME abi then wall_time ticks_nanos epoch
                      else monotonic_time ticks_nanos)
           in case user of
                Ok _ \<Rightarrow> (Ok 0, Some (timespec_from_time_value now))
              | Err e \<Rightarrow> (Err e, None) | Panic \<Rightarrow> (Panic, None)
      else (Err EINVAL, None))"

definition sys_gettimeofday ::
  "u64 \<Rightarrow> u64 \<Rightarrow> unit LinuxResult \<Rightarrow> i64 LinuxResult \<times> timeval option" where
  "sys_gettimeofday ticks_nanos epoch user =
     (case user of
        Ok _ \<Rightarrow> (Ok 0, Some (timeval_from_time_value (wall_time ticks_nanos epoch)))
      | Err e \<Rightarrow> (Err e, None) | Panic \<Rightarrow> (Panic, None))"

record Tms =
  tms_utime :: usize
  tms_stime :: usize
  tms_cutime :: usize
  tms_cstime :: usize

definition sys_times ::
  "(u64 \<Rightarrow> u64) \<Rightarrow> u64 \<Rightarrow> TimeStat \<Rightarrow> unit LinuxResult \<Rightarrow> i64 LinuxResult \<times> Tms option" where
  "sys_times nanos_to_ticks monotonic_nanos ts user =
     (let (us, utime_us, ss, stime_us) = time_stat_output ts
      in case user of
           Ok _ \<Rightarrow> (Ok (nanos_to_ticks monotonic_nanos),
                   Some \<lparr>tms_utime = utime_us, tms_stime = stime_us,
                         tms_cutime = utime_us, tms_cstime = stime_us\<rparr>)
         | Err e \<Rightarrow> (Err e, None) | Panic \<Rightarrow> (Panic, None))"

text \<open>
  \<open>sys_nanosleep\<close>: \<open>now\<close> is the clock before; \<open>after\<close> gives the clock afterwards, depending on the
  sleep that was asked of the scheduler (none for a task named \<open>busybox\<close>). \<open>rem\<close> is \<open>None\<close> for a null
  pointer and otherwise the outcome of its check.
\<close>

definition sys_nanosleep ::
  "timespec LinuxResult \<Rightarrow> unit LinuxResult option \<Rightarrow> string \<Rightarrow> TimeValue \<Rightarrow> (TimeValue option \<Rightarrow> TimeValue)
   \<Rightarrow> i64 LinuxResult \<times> timespec option" where
  "sys_nanosleep user rem name now after =
     (case user of
        Err e \<Rightarrow> (Err e, None)
      | Panic \<Rightarrow> (Panic, None)
      | Ok req \<Rightarrow>
          if sint (ts_nsec req) < 0 \<or> sint (ts_nsec req) > 999999999 \<or> sint (ts_sec req) < 0
          then (Err EINVAL, None)
          else case timespec_to_time_value req of
                 Err e \<Rightarrow> (Err e, None)
               | Panic \<Rightarrow> (Panic, None)
               | Ok dur \<Rightarrow>
                   (case duration_checked_sub (after (if name \<noteq> ''busybox'' then Some dur else None)) now of
                      None \<Rightarrow> (Panic, None)
                    | Some actual \<Rightarrow>
                        (case duration_checked_sub dur actual of
                           Some diff \<Rightarrow>
                             (case rem of
                                None \<Rightarrow> (Ok 0, None)
                              | Some (Ok _) \<Rightarrow> (Ok 0, Some (timespec_from_time_value diff))
                              | Some (Err e) \<Rightarrow> (Err e, None)
                              | Some Panic \<Rightarrow> (Panic, None))
                         | None \<Rightarrow> (Ok 0, None))))"

section \<open>Durations as nanoseconds\<close>

lemma tv_ns_inj: "tv_ok a \<Longrightarrow> tv_ok b \<Longrightarrow> tv_ns a = tv_ns b \<Longrightarrow> a = b"
proof -
  assume ok: "tv_ok a" "tv_ok b" and ns: "tv_ns a = tv_ns b"
  from ok have "unat (dur_nanos a) < 1000000000" "unat (dur_nanos b) < 1000000000"
    by (simp_all add: tv_ok_def word_less_nat_alt)
  from mixed_radix_inj [OF this ns [unfolded tv_ns_def]] show "a = b" by (simp add: word_unat_eq_iff)
qed

lemma checked_sub_spec:
  assumes "tv_ok a" "tv_ok b"
  shows "case duration_checked_sub a b of
           Some d \<Rightarrow> tv_ok d \<and> tv_ns d + tv_ns b = tv_ns a
         | None \<Rightarrow> tv_ns a < tv_ns b"
proof -
  let ?as = "unat (dur_secs a)" and ?bs = "unat (dur_secs b)"
  let ?an = "unat (dur_nanos a)" and ?bn = "unat (dur_nanos b)"
  from assms have lt: "?an < 1000000000" "?bn < 1000000000"
    by (simp_all add: tv_ok_def word_less_nat_alt)
  have plus: "unat (dur_nanos a + 1000000000) = ?an + 1000000000"
    using lt by (simp add: unat_word_ariths(1))
  consider "?as < ?bs" | "?bs \<le> ?as" "?bn \<le> ?an" | "?bs < ?as" "?an < ?bn" | "?bs = ?as" "?an < ?bn"
    by linarith
  then show ?thesis
  proof cases
    case 1
    then show ?thesis using lt by (simp add: duration_checked_sub_def word_le_nat_alt tv_ns_def)
  next
    case 2
    then have "unat (dur_secs a - dur_secs b) = ?as - ?bs" "unat (dur_nanos a - dur_nanos b) = ?an - ?bn"
      by (simp_all add: unat_sub word_le_nat_alt)
    with 2 lt show ?thesis
      by (auto simp add: duration_checked_sub_def word_le_nat_alt word_less_nat_alt tv_ns_def tv_ok_def Let_def
          diff_mult_distrib)
  next
    case 3
    then have "unat (dur_secs a - dur_secs b) = ?as - ?bs" "1 \<le> unat (dur_secs a - dur_secs b)"
      by (simp_all add: unat_sub word_le_nat_alt)
    moreover from this have "unat (dur_secs a - dur_secs b - 1) = ?as - ?bs - 1"
      by (subst unat_sub) (simp_all add: word_le_nat_alt)
    moreover have "unat (dur_nanos a + 1000000000 - dur_nanos b) = ?an + 1000000000 - ?bn"
      using lt plus by (subst unat_sub) (simp_all add: word_le_nat_alt)
    moreover have "(?as - ?bs - 1) * 1000000000 + (?an + 1000000000 - ?bn) + (?bs * 1000000000 + ?bn) =
        ?as * 1000000000 + ?an"
      using lt 3(1) by (intro mixed_radix_borrow) simp_all
    ultimately show ?thesis using 3 lt
      by (simp add: duration_checked_sub_def word_le_nat_alt word_less_nat_alt tv_ns_def tv_ok_def Let_def)
  next
    case 4
    then have "dur_secs a = dur_secs b" by (simp add: word_unat_eq_iff)
    with 4 show ?thesis
      by (simp add: duration_checked_sub_def word_le_nat_alt tv_ns_def Let_def)
  qed
qed

section \<open>Exchanging time values with user space\<close>

text \<open>
  The contract of \<open>TimeValueLike\<close>: storing a time value and reading it back loses only what the
  structure cannot express, its nanoseconds below the granularity \<open>g\<close>.
\<close>

locale time_value_like =
  fixes from_tv :: "TimeValue \<Rightarrow> 'a" and to_tv :: "'a \<Rightarrow> TimeValue LinuxResult" and g :: nat
  assumes g_pos: "0 < g"
    and to_from: "tv_ok tv \<Longrightarrow> \<exists>tv'. to_tv (from_tv tv) = Ok tv' \<and> tv_ok tv' \<and> tv_ns tv' = tv_ns tv div g * g"
begin

lemma roundtrip_below:
  assumes "tv_ok tv" "to_tv (from_tv tv) = Ok tv'"
  shows "tv_ns tv' \<le> tv_ns tv \<and> tv_ns tv < tv_ns tv' + g"
proof -
  from to_from [OF assms(1)] assms(2) have eq: "tv_ns tv' = tv_ns tv div g * g" by auto
  have "tv_ns tv div g * g + tv_ns tv mod g = tv_ns tv" by (rule div_mult_mod_eq)
  moreover have "tv_ns tv mod g < g" using g_pos by simp
  ultimately show ?thesis unfolding eq by linarith
qed

lemma roundtrip_idem:
  assumes "tv_ok tv" "to_tv (from_tv tv) = Ok tv'"
  shows "to_tv (from_tv tv') = Ok tv'"
proof -
  from to_from [OF assms(1)] assms(2) have t: "tv_ok tv'" "tv_ns tv' = tv_ns tv div g * g" by auto
  from to_from [OF t(1)] obtain tv'' where "to_tv (from_tv tv') = Ok tv''" "tv_ok tv''"
    "tv_ns tv'' = tv_ns tv' div g * g" by auto
  moreover from this t g_pos have "tv'' = tv'" by (intro tv_ns_inj) simp_all
  ultimately show ?thesis by simp
qed

lemma roundtrip_mono:
  assumes "tv_ok a" "tv_ok b" "tv_ns a \<le> tv_ns b" "to_tv (from_tv a) = Ok a'" "to_tv (from_tv b) = Ok b'"
  shows "tv_ns a' \<le> tv_ns b'"
  using assms to_from [of a] to_from [of b] by (auto intro: div_le_mono)

end

lemma nanos_cast: "ucast (ucast (n :: u32) :: i64) = n"
  by (rule bit_word_eqI) (simp add: bit_simps)

lemma secs_cast: "ucast (ucast (n :: u64) :: i64) = n"
  by simp

lemma timespec_roundtrip:
  "tv_ok tv \<Longrightarrow> timespec_to_time_value (timespec_from_time_value tv) = Ok tv"
  by (simp add: timespec_to_time_value_def timespec_from_time_value_def duration_new_def tv_ok_def
      as_secs_def subsec_nanos_def nanos_cast)

lemma timeval_roundtrip:
  assumes "tv_ok tv"
  shows "timeval_to_time_value (timeval_from_time_value tv) =
    Ok \<lparr>dur_secs = dur_secs tv, dur_nanos = dur_nanos tv div 1000 * 1000\<rparr>"
proof -
  have "unat (dur_nanos tv) < 1000000000" using assms by (simp add: tv_ok_def word_less_nat_alt)
  then have "unat (dur_nanos tv div 1000 * 1000) < 1000000000"
    by (simp add: unat_word_ariths(2) unat_div)
  then show ?thesis
    by (simp add: timeval_to_time_value_def timeval_from_time_value_def duration_new_def
      as_secs_def subsec_micros_def nanos_cast word_less_nat_alt)
qed

lemma micros_floor:
  assumes "tv_ok tv"
  shows "tv_ok \<lparr>dur_secs = dur_secs tv, dur_nanos = dur_nanos tv div 1000 * 1000\<rparr>"
    "tv_ns \<lparr>dur_secs = dur_secs tv, dur_nanos = dur_nanos tv div 1000 * 1000\<rparr> = tv_ns tv div 1000 * 1000"
proof -
  have lt: "unat (dur_nanos tv) < 1000000000" using assms by (simp add: tv_ok_def word_less_nat_alt)
  then have eq: "unat (dur_nanos tv div 1000 * 1000) = unat (dur_nanos tv) div 1000 * 1000"
    by (simp add: unat_word_ariths(2) unat_div)
  with lt show "tv_ok \<lparr>dur_secs = dur_secs tv, dur_nanos = dur_nanos tv div 1000 * 1000\<rparr>"
    by (simp add: tv_ok_def word_less_nat_alt)
  have "(x * 1000000000 + y) div 1000 = x * 1000000 + y div 1000" for x y :: nat by simp
  then show "tv_ns \<lparr>dur_secs = dur_secs tv, dur_nanos = dur_nanos tv div 1000 * 1000\<rparr> =
      tv_ns tv div 1000 * 1000"
    using eq by (simp add: tv_ns_def)
qed

lemmas timespec_like = timespec_to_time_value_def kernel_timespec_to_time_value_def
  kernel_old_timespec_to_time_value_def timespec_to_timevalue_def timespec_from_time_value_def
  kernel_timespec_from_time_value_def kernel_old_timespec_from_time_value_def timevalue_to_timespec_def

lemmas timeval_like = timeval_to_time_value_def kernel_old_timeval_to_time_value_def
  kernel_sock_timeval_to_time_value_def timeval_to_timevalue_def timeval_from_time_value_def
  kernel_old_timeval_from_time_value_def kernel_sock_timeval_from_time_value_def timevalue_to_timeval_def

interpretation timespec: time_value_like timespec_from_time_value timespec_to_time_value 1
  by unfold_locales (simp_all add: timespec_roundtrip)

interpretation kernel_timespec:
  time_value_like kernel_timespec_from_time_value kernel_timespec_to_time_value 1
  using timespec.to_from by unfold_locales (simp_all add: timespec_like)

interpretation kernel_old_timespec:
  time_value_like kernel_old_timespec_from_time_value kernel_old_timespec_to_time_value 1
  using timespec.to_from by unfold_locales (simp_all add: timespec_like)

interpretation timeval: time_value_like timeval_from_time_value timeval_to_time_value 1000
  by unfold_locales (simp_all add: timeval_roundtrip micros_floor)

interpretation kernel_old_timeval:
  time_value_like kernel_old_timeval_from_time_value kernel_old_timeval_to_time_value 1000
  using timeval.to_from by unfold_locales (simp_all add: timeval_like)

interpretation kernel_sock_timeval:
  time_value_like kernel_sock_timeval_from_time_value kernel_sock_timeval_to_time_value 1000
  using timeval.to_from by unfold_locales (simp_all add: timeval_like)

lemma nsec_cast:
  assumes "0 \<le> sint (x :: i64)" "sint x \<le> 999999999"
  shows "unat (ucast x :: u32) = nat (sint x)" "(ucast x :: u32) < 1000000000"
proof -
  from sint_nonneg [OF assms(1)] have u: "uint x = sint x" by simp
  have "uint (ucast x :: u32) = sint x"
    using assms by (simp add: unsigned_ucast_eq u take_bit_int_eq_self)
  then show "unat (ucast x :: u32) = nat (sint x)" unfolding unat_eq_nat_uint by (rule arg_cong)
  then show "(ucast x :: u32) < 1000000000" using assms by (simp add: word_less_nat_alt)
qed

lemma sleep_request:
  assumes "0 \<le> sint (ts_nsec req)" "sint (ts_nsec req) \<le> 999999999" "0 \<le> sint (ts_sec req)"
  shows "\<exists>dur. timespec_to_time_value req = Ok dur \<and> tv_ok dur \<and>
    tv_ns dur = nat (sint (ts_sec req)) * 1000000000 + nat (sint (ts_nsec req))"
proof -
  have "unat (ts_sec req) = nat (sint (ts_sec req))"
    unfolding sint_nonneg [OF assms(3)] by (rule unat_eq_nat_uint)
  with nsec_cast [OF assms(1,2)] show ?thesis
    by (simp add: timespec_to_time_value_def duration_new_def tv_ok_def tv_ns_def)
qed

section \<open>Properties\<close>

text \<open>
  C40: Time values survive the trip to user space and back. Through each of the three structures
  with nanoseconds they come back unchanged; through each of the three with microseconds they come
  back rounded down by less than a microsecond. No conversion panics or overflows.
\<close>

theorem time_value_roundtrip:
  assumes "tv_ok tv"
  shows "timespec_to_time_value (timespec_from_time_value tv) = Ok tv \<and>
    kernel_timespec_to_time_value (kernel_timespec_from_time_value tv) = Ok tv \<and>
    kernel_old_timespec_to_time_value (kernel_old_timespec_from_time_value tv) = Ok tv \<and>
    (\<exists>tv'. timeval_to_time_value (timeval_from_time_value tv) = Ok tv' \<and>
           kernel_old_timeval_to_time_value (kernel_old_timeval_from_time_value tv) = Ok tv' \<and>
           kernel_sock_timeval_to_time_value (kernel_sock_timeval_from_time_value tv) = Ok tv' \<and>
           tv_ok tv' \<and> tv_ns tv' \<le> tv_ns tv \<and> tv_ns tv < tv_ns tv' + 1000)"
proof -
  from timeval.to_from [OF assms] obtain tv' where
    tv': "timeval_to_time_value (timeval_from_time_value tv) = Ok tv'" "tv_ok tv'" by auto
  with timeval.roundtrip_below [OF assms this(1)] timespec_roundtrip [OF assms] timeval_roundtrip [OF assms]
  show ?thesis by (simp add: timespec_like timeval_like)
qed

theorem time_value_roundtrip_witness:
  "tv_ok \<lparr>dur_secs = 5, dur_nanos = 123456789\<rparr> \<and>
   timespec_to_time_value (timespec_from_time_value \<lparr>dur_secs = 5, dur_nanos = 123456789\<rparr>) =
     Ok \<lparr>dur_secs = 5, dur_nanos = 123456789\<rparr>"
  using time_value_roundtrip [of "\<lparr>dur_secs = 5, dur_nanos = 123456789\<rparr>"] by (simp add: tv_ok_def)

text \<open>
  \<open>nanosleep\<close> rejects exactly the requests with a negative field or a full second of
  nanoseconds, and otherwise succeeds; with a clock that does not run backwards it never panics. If it
  comes back early, the remaining time it reports is exactly the requested time minus the time that
  has passed; if it comes back late, nothing is reported.
\<close>

theorem sys_nanosleep_spec:
  fixes name :: string
  assumes "tv_ok now" "\<forall>d. tv_ok (after d)" "\<forall>d. tv_ns now \<le> tv_ns (after d)"
  defines "slept \<equiv> (\<lambda>d. tv_ns (after (if name \<noteq> ''busybox'' then Some d else None)) - tv_ns now)"
  shows "if 0 \<le> sint (ts_nsec req) \<and> sint (ts_nsec req) \<le> 999999999 \<and> 0 \<le> sint (ts_sec req)
    then \<exists>dur out. tv_ns dur = nat (sint (ts_sec req)) * 1000000000 + nat (sint (ts_nsec req)) \<and>
      sys_nanosleep (Ok req) (Some (Ok ())) name now after = (Ok 0, out) \<and>
      (if slept dur \<le> tv_ns dur
       then \<exists>r. out = Some (timespec_from_time_value r) \<and> tv_ns r = tv_ns dur - slept dur
       else out = None)
    else sys_nanosleep (Ok req) (Some (Ok ())) name now after = (Err EINVAL, None)"
proof (cases "0 \<le> sint (ts_nsec req) \<and> sint (ts_nsec req) \<le> 999999999 \<and> 0 \<le> sint (ts_sec req)")
  case True
  then obtain dur where dur: "timespec_to_time_value req = Ok dur" "tv_ok dur"
    "tv_ns dur = nat (sint (ts_sec req)) * 1000000000 + nat (sint (ts_nsec req))"
    using sleep_request [of req] by blast
  let ?a = "after (if name \<noteq> ''busybox'' then Some dur else None)"
  have le: "tv_ns now \<le> tv_ns ?a" using assms(3) by blast
  have "case duration_checked_sub ?a now of
      Some d \<Rightarrow> tv_ok d \<and> tv_ns d + tv_ns now = tv_ns ?a | None \<Rightarrow> tv_ns ?a < tv_ns now"
    using assms(1,2) by (intro checked_sub_spec) blast+
  with le obtain act where act: "duration_checked_sub ?a now = Some act" "tv_ok act"
      "tv_ns act + tv_ns now = tv_ns ?a"
    by (cases "duration_checked_sub ?a now") auto
  from act(3) have "tv_ns act = slept dur" by (simp add: slept_def)
  note act = act(1,2) this
  from checked_sub_spec [OF dur(2) act(2)] True dur act
  have "\<exists>out. sys_nanosleep (Ok req) (Some (Ok ())) name now after = (Ok 0, out) \<and>
      (if slept dur \<le> tv_ns dur
       then \<exists>r. out = Some (timespec_from_time_value r) \<and> tv_ns r = tv_ns dur - slept dur
       else out = None)"
    by (cases "duration_checked_sub dur act") (auto simp: sys_nanosleep_def)
  with dur(3) show ?thesis unfolding if_P [OF True] by blast
qed (auto simp: sys_nanosleep_def)

theorem sys_nanosleep_spec_witness:
  "\<exists>out. sys_nanosleep (Ok \<lparr>ts_sec = 2, ts_nsec = 5\<rparr>) (Some (Ok ())) ''sleep''
     \<lparr>dur_secs = 1, dur_nanos = 0\<rparr> (\<lambda>_. \<lparr>dur_secs = 3, dur_nanos = 5\<rparr>) = (Ok 0, out)"
  using sys_nanosleep_spec [of "\<lparr>dur_secs = 1, dur_nanos = 0\<rparr>" "\<lambda>_. \<lparr>dur_secs = 3, dur_nanos = 5\<rparr>"
      "\<lparr>ts_sec = 2, ts_nsec = 5\<rparr>" "''sleep''"]
  by (auto simp: tv_ok_def tv_ns_def split: if_splits)

end
