(* ===== verification/Sched.thy ===== *)
theory Sched
  imports Prelude "HOL-Library.Multiset"
begin

text \<open>
  Tasks, run queues and wait queues of \<open>axtask\<close> (\<open>task.rs\<close>, \<open>run_queue.rs\<close>, \<open>wait_queue.rs\<close>,
  \<open>timers.rs\<close>), in the configuration the kernel is built with: interrupts and several CPUs, no kernel
  preemption.

  Every function below is what one CPU does without giving other CPUs a chance to see a state in
  between: a section under a wait queue's lock, one atomic operation, or code that touches only the
  CPU's own data. A CPU that is inside the scheduler is described by its \<open>phase\<close>:

  \<^item> \<open>Executing\<close>: it runs the code of its current task;
  \<^item> \<open>Exiting\<close>: the current task is \<open>Exited\<close> and notifies the tasks waiting for it;
  \<^item> \<open>Rescheduling\<close>: the current task is put away and \<open>resched\<close> comes next;
  \<^item> \<open>Switched p\<close>: the context has switched away from \<open>p\<close>, whose \<open>on_cpu\<close> flag is still set.

  \<open>waking\<close> names the task a CPU is about to insert into a run queue, spinning until the task's
  \<open>on_cpu\<close> flag is clear. An operation returns \<open>None\<close> where the code's assertion fails.

  The policy behind a run queue, the \<open>scheduler\<close> crate, is outside this repository: its operations
  are a parameter, and \<open>sched_laws\<close> is what is relied on: a queue neither loses nor invents tasks.
\<close>

section \<open>State\<close>

datatype TaskState = Running | Ready | Blocked | Exited

record TaskInner =
  t_state :: TaskState
  t_in_wait_queue :: bool
  t_on_cpu :: bool
  t_timer_ticket :: u64
  t_is_idle :: bool
  t_is_init :: bool
  t_exit_code :: i32
  t_cpumask :: "nat \<Rightarrow> bool"

datatype wq_id = WaitForExit nat | WAIT_FOR_EXIT nat | WaitQueue nat

datatype phase = Executing | Exiting | Rescheduling | Switched nat

record 'q AxRunQueue =
  current :: nat
  rq_phase :: phase
  waking :: "(nat \<times> nat) option"
  queue :: 'q
  idle_task :: nat
  exited_tasks :: "nat list"

record TaskWakeupEvent =
  ev_deadline :: u64
  ev_ticket :: u64
  ev_task :: nat

record 'q sched =
  tasks :: "nat \<Rightarrow> TaskInner"
  cpus :: "nat \<Rightarrow> 'q AxRunQueue"
  wqs :: "wq_id \<Rightarrow> nat list"
  timers :: "TaskWakeupEvent list"
  ticket_counter :: u64
  id_counter :: nat

record 'q scheduler_ops =
  sc_new :: 'q
  sc_add_task :: "nat \<Rightarrow> 'q \<Rightarrow> 'q"
  sc_put_prev_task :: "nat \<Rightarrow> bool \<Rightarrow> 'q \<Rightarrow> 'q"
  sc_pick_next_task :: "'q \<Rightarrow> (nat \<times> 'q) option"
  sc_items :: "'q \<Rightarrow> nat multiset"

definition sched_laws :: "'q scheduler_ops \<Rightarrow> bool" where
  "sched_laws S \<longleftrightarrow>
     sc_items S (sc_new S) = {#} \<and>
     (\<forall>t q. sc_items S (sc_add_task S t q) = add_mset t (sc_items S q)) \<and>
     (\<forall>t b q. sc_items S (sc_put_prev_task S t b q) = add_mset t (sc_items S q)) \<and>
     (\<forall>q. case sc_pick_next_task S q of
            None \<Rightarrow> sc_items S q = {#}
          | Some (t, q') \<Rightarrow> sc_items S q = add_mset t (sc_items S q'))"

section \<open>Tasks\<close>

definition upd_task :: "nat \<Rightarrow> (TaskInner \<Rightarrow> TaskInner) \<Rightarrow> 'q sched \<Rightarrow> 'q sched" where
  "upd_task t f st = st\<lparr>tasks := (tasks st)(t := f (tasks st t))\<rparr>"

definition upd_cpu :: "nat \<Rightarrow> ('q AxRunQueue \<Rightarrow> 'q AxRunQueue) \<Rightarrow> 'q sched \<Rightarrow> 'q sched" where
  "upd_cpu c f st = st\<lparr>cpus := (cpus st)(c := f (cpus st c))\<rparr>"

definition new_common :: TaskInner where
  "new_common =
     \<lparr>t_state = Ready, t_in_wait_queue = False, t_on_cpu = False, t_timer_ticket = 0,
      t_is_idle = False, t_is_init = False, t_exit_code = 0, t_cpumask = (\<lambda>_. True)\<rparr>"

definition task_new :: "string \<Rightarrow> TaskInner" where
  "task_new name = (if name = ''idle'' then new_common\<lparr>t_is_idle := True\<rparr> else new_common)"

definition task_new_init :: "string \<Rightarrow> TaskInner" where
  "task_new_init name =
     (let t = new_common\<lparr>t_is_init := True, t_on_cpu := True\<rparr>
      in if name = ''idle'' then t\<lparr>t_is_idle := True\<rparr> else t)"

definition set_state :: "nat \<Rightarrow> TaskState \<Rightarrow> 'q sched \<Rightarrow> 'q sched" where
  "set_state t s = upd_task t (\<lambda>x. x\<lparr>t_state := s\<rparr>)"

definition transition_state :: "nat \<Rightarrow> TaskState \<Rightarrow> TaskState \<Rightarrow> 'q sched \<Rightarrow> bool \<times> 'q sched" where
  "transition_state t current_state new_state st =
     (if t_state (tasks st t) = current_state then (True, set_state t new_state st) else (False, st))"

definition set_in_wait_queue :: "nat \<Rightarrow> bool \<Rightarrow> 'q sched \<Rightarrow> 'q sched" where
  "set_in_wait_queue t b = upd_task t (\<lambda>x. x\<lparr>t_in_wait_queue := b\<rparr>)"

definition set_on_cpu :: "nat \<Rightarrow> bool \<Rightarrow> 'q sched \<Rightarrow> 'q sched" where
  "set_on_cpu t b = upd_task t (\<lambda>x. x\<lparr>t_on_cpu := b\<rparr>)"

definition set_timer_ticket :: "nat \<Rightarrow> u64 \<Rightarrow> 'q sched \<Rightarrow> 'q sched option" where
  "set_timer_ticket t i st =
     (if i = 0 then None else Some (upd_task t (\<lambda>x. x\<lparr>t_timer_ticket := i\<rparr>) st))"

definition timer_ticket_expired :: "nat \<Rightarrow> 'q sched \<Rightarrow> 'q sched" where
  "timer_ticket_expired t = upd_task t (\<lambda>x. x\<lparr>t_timer_ticket := 0\<rparr>)"

section \<open>Run queues\<close>

text \<open>
  \<open>select_run_queue_index\<close>: the loop over a shared counter, for the number of CPUs and a mask; the
  second component is the counter afterwards.
\<close>

partial_function (option) select_index_loop :: "nat \<Rightarrow> (nat \<Rightarrow> bool) \<Rightarrow> usize \<Rightarrow> (nat \<times> usize) option" where
  "select_index_loop smp cpumask counter =
     (let index = unat counter mod smp
      in if cpumask index then Some (index, counter + 1)
         else select_index_loop smp cpumask (counter + 1))"

definition select_run_queue_index :: "nat \<Rightarrow> (nat \<Rightarrow> bool) \<Rightarrow> usize \<Rightarrow> (nat \<times> usize) option" where
  "select_run_queue_index smp cpumask counter =
     (if \<exists>i \<in> set [0..<smp]. cpumask i then select_index_loop smp cpumask counter else None)"

definition set_phase :: "nat \<Rightarrow> phase \<Rightarrow> 'q sched \<Rightarrow> 'q sched" where
  "set_phase c p = upd_cpu c (\<lambda>x. x\<lparr>rq_phase := p\<rparr>)"

definition put_prev :: "'q scheduler_ops \<Rightarrow> nat \<Rightarrow> nat \<Rightarrow> bool \<Rightarrow> 'q sched \<Rightarrow> 'q sched" where
  "put_prev S j t preempt = upd_cpu j (\<lambda>x. x\<lparr>queue := sc_put_prev_task S t preempt (queue x)\<rparr>)"

text \<open>
  \<open>put_task_with_state\<close> on CPU \<open>c\<close> for run queue \<open>j\<close>: a blocked task is inserted by \<open>finish_wake\<close>,
  once it is not on a CPU any more.
\<close>

definition put_task_with_state ::
  "'q scheduler_ops \<Rightarrow> nat \<Rightarrow> nat \<Rightarrow> nat \<Rightarrow> TaskState \<Rightarrow> bool \<Rightarrow> 'q sched \<Rightarrow> bool \<times> 'q sched" where
  "put_task_with_state S c j t current_state preempt st =
     (let (ok, st1) = transition_state t current_state Ready st
      in if ok \<and> \<not> t_is_idle (tasks st1 t)
         then if current_state = Blocked
              then (True, upd_cpu c (\<lambda>x. x\<lparr>waking := Some (t, j)\<rparr>) st1)
              else (True, put_prev S j t preempt st1)
         else (False, st1))"

definition finish_wake :: "'q scheduler_ops \<Rightarrow> nat \<Rightarrow> bool \<Rightarrow> 'q sched \<Rightarrow> 'q sched" where
  "finish_wake S c preempt st =
     (case waking (cpus st c) of
        None \<Rightarrow> st
      | Some (t, j) \<Rightarrow>
          if t_on_cpu (tasks st t) then st
          else upd_cpu c (\<lambda>x. x\<lparr>waking := None\<rparr>) (put_prev S j t preempt st))"

definition unblock_task :: "'q scheduler_ops \<Rightarrow> nat \<Rightarrow> nat \<Rightarrow> nat \<Rightarrow> bool \<Rightarrow> 'q sched \<Rightarrow> 'q sched" where
  "unblock_task S c j t resched st = snd (put_task_with_state S c j t Blocked resched st)"

definition add_task :: "'q scheduler_ops \<Rightarrow> nat \<Rightarrow> nat \<Rightarrow> 'q sched \<Rightarrow> 'q sched option" where
  "add_task S j t st =
     (if t_state (tasks st t) = Ready
      then Some (upd_cpu j (\<lambda>x. x\<lparr>queue := sc_add_task S t (queue x)\<rparr>) st)
      else None)"

text \<open>\<open>switch_to\<close> up to the context switch; \<open>clear_prev_task_on_cpu\<close> follows on the new stack.\<close>

definition switch_to :: "nat \<Rightarrow> nat \<Rightarrow> 'q sched \<Rightarrow> 'q sched" where
  "switch_to c next_task st =
     (let prev_task = current (cpus st c); st1 = set_state next_task Running st
      in if prev_task = next_task then set_phase c Executing st1
         else upd_cpu c (\<lambda>x. x\<lparr>current := next_task, rq_phase := Switched prev_task\<rparr>)
                (set_on_cpu next_task True st1))"

definition clear_prev_task_on_cpu :: "nat \<Rightarrow> 'q sched \<Rightarrow> 'q sched" where
  "clear_prev_task_on_cpu c st =
     (case rq_phase (cpus st c) of
        Switched p \<Rightarrow> set_phase c Executing (set_on_cpu p False st)
      | _ \<Rightarrow> st)"

definition resched :: "'q scheduler_ops \<Rightarrow> nat \<Rightarrow> 'q sched \<Rightarrow> 'q sched option" where
  "resched S c st =
     (let (next_task, st1) =
            (case sc_pick_next_task S (queue (cpus st c)) of
               Some (t, q) \<Rightarrow> (t, upd_cpu c (\<lambda>x. x\<lparr>queue := q\<rparr>) st)
             | None \<Rightarrow> (idle_task (cpus st c), st))
      in if t_state (tasks st1 next_task) = Ready then Some (switch_to c next_task st1) else None)"

definition yield_current :: "'q scheduler_ops \<Rightarrow> nat \<Rightarrow> 'q sched \<Rightarrow> 'q sched option" where
  "yield_current S c st =
     (let curr = current (cpus st c)
      in if t_state (tasks st curr) = Running
         then Some (set_phase c Rescheduling (snd (put_task_with_state S c c curr Running False st)))
         else None)"

definition blocked_resched :: "nat \<Rightarrow> wq_id \<Rightarrow> 'q sched \<Rightarrow> 'q sched option" where
  "blocked_resched c w st =
     (let curr = current (cpus st c)
      in if t_state (tasks st curr) = Running \<and> \<not> t_is_idle (tasks st curr)
         then let st1 = set_in_wait_queue curr True (set_state curr Blocked st)
              in Some (set_phase c Rescheduling (st1\<lparr>wqs := (wqs st1)(w := wqs st1 w @ [curr])\<rparr>))
         else None)"

text \<open>\<open>timers::set_alarm_wakeup\<close>; deadlines and clock readings are nanoseconds.\<close>

definition set_alarm_wakeup :: "u64 \<Rightarrow> nat \<Rightarrow> 'q sched \<Rightarrow> 'q sched option" where
  "set_alarm_wakeup deadline t st =
     (let i = ticket_counter st; st1 = st\<lparr>ticket_counter := i + 1\<rparr>
      in case set_timer_ticket t i st1 of
           None \<Rightarrow> None
         | Some st2 \<Rightarrow>
             Some (st2\<lparr>timers := timers st2 @ [\<lparr>ev_deadline = deadline, ev_ticket = i, ev_task = t\<rparr>]\<rparr>))"

definition sleep_until :: "nat \<Rightarrow> u64 \<Rightarrow> u64 \<Rightarrow> 'q sched \<Rightarrow> 'q sched option" where
  "sleep_until c now deadline st =
     (let curr = current (cpus st c)
      in if t_state (tasks st curr) = Running \<and> \<not> t_is_idle (tasks st curr)
         then if now < deadline
              then case set_alarm_wakeup deadline curr st of
                     None \<Rightarrow> None
                   | Some st1 \<Rightarrow> Some (set_phase c Rescheduling (set_state curr Blocked st1))
              else Some st
         else None)"

section \<open>Wait queues\<close>

definition unblock_one_task :: "'q scheduler_ops \<Rightarrow> nat \<Rightarrow> nat \<Rightarrow> nat \<Rightarrow> bool \<Rightarrow> 'q sched \<Rightarrow> 'q sched" where
  "unblock_one_task S c j t preempt st = unblock_task S c j t preempt (set_in_wait_queue t False st)"

definition notify_one :: "'q scheduler_ops \<Rightarrow> nat \<Rightarrow> nat \<Rightarrow> wq_id \<Rightarrow> bool \<Rightarrow> 'q sched \<Rightarrow> bool \<times> 'q sched" where
  "notify_one S c j w preempt st =
     (case wqs st w of
        [] \<Rightarrow> (False, st)
      | t # ts \<Rightarrow> (True, unblock_one_task S c j t preempt (st\<lparr>wqs := (wqs st)(w := ts)\<rparr>)))"

definition notify_task ::
  "'q scheduler_ops \<Rightarrow> nat \<Rightarrow> nat \<Rightarrow> wq_id \<Rightarrow> bool \<Rightarrow> nat \<Rightarrow> 'q sched \<Rightarrow> bool \<times> 'q sched" where
  "notify_task S c j w preempt t st =
     (if t \<in> set (wqs st w)
      then (True, unblock_one_task S c j t preempt (st\<lparr>wqs := (wqs st)(w := remove1 t (wqs st w))\<rparr>))
      else (False, st))"

definition requeue :: "nat \<Rightarrow> wq_id \<Rightarrow> wq_id \<Rightarrow> 'q sched \<Rightarrow> nat \<times> 'q sched" where
  "requeue cnt w target st =
     (let n = min cnt (length (wqs st w));
          ts = take n (wqs st w);
          st1 = st\<lparr>wqs := (wqs st)(w := drop n (wqs st w))\<rparr>
      in (n, if ts = [] then st1 else st1\<lparr>wqs := (wqs st1)(target := wqs st1 target @ ts)\<rparr>))"

definition cancel_events :: "wq_id \<Rightarrow> nat \<Rightarrow> bool \<Rightarrow> 'q sched \<Rightarrow> 'q sched" where
  "cancel_events w me from_timer_list st =
     (let st1 = (if t_in_wait_queue (tasks st me)
                 then set_in_wait_queue me False
                        (st\<lparr>wqs := (wqs st)(w := filter (\<lambda>t. t \<noteq> me) (wqs st w))\<rparr>)
                 else st)
      in if from_timer_list then timer_ticket_expired me st1 else st1)"

text \<open>
  \<open>wait\<close>, \<open>wait_until\<close> and \<open>wait_timeout\<close> block the task in the middle: the first half runs up to
  the context switch, the second when the task is scheduled again. One round of the loop of
  \<open>wait_until\<close> checks the condition under the queue's lock; \<open>True\<close> says that it leaves the loop.
\<close>

definition wait_enter :: "nat \<Rightarrow> wq_id \<Rightarrow> 'q sched \<Rightarrow> 'q sched option" where
  "wait_enter c w st = blocked_resched c w st"

definition wait_leave :: "nat \<Rightarrow> wq_id \<Rightarrow> 'q sched \<Rightarrow> 'q sched" where
  "wait_leave c w st = cancel_events w (current (cpus st c)) False st"

definition wait_until_round ::
  "nat \<Rightarrow> wq_id \<Rightarrow> ('q sched \<Rightarrow> bool) \<Rightarrow> 'q sched \<Rightarrow> (bool \<times> 'q sched) option" where
  "wait_until_round c w condition st =
     (if condition st then Some (True, cancel_events w (current (cpus st c)) False st)
      else map_option (Pair False) (blocked_resched c w st))"

definition wait_timeout_enter :: "nat \<Rightarrow> wq_id \<Rightarrow> u64 \<Rightarrow> u64 \<Rightarrow> 'q sched \<Rightarrow> 'q sched option" where
  "wait_timeout_enter c w now dur st =
     (case set_alarm_wakeup (now + dur) (current (cpus st c)) st of
        None \<Rightarrow> None
      | Some st1 \<Rightarrow> blocked_resched c w st1)"

definition wait_timeout_leave :: "nat \<Rightarrow> wq_id \<Rightarrow> 'q sched \<Rightarrow> bool \<times> 'q sched" where
  "wait_timeout_leave c w st =
     (let curr = current (cpus st c); timeout = t_in_wait_queue (tasks st curr)
      in (timeout, cancel_events w curr True st))"

definition wait_timeout_until_round ::
  "nat \<Rightarrow> wq_id \<Rightarrow> u64 \<Rightarrow> u64 \<Rightarrow> ('q sched \<Rightarrow> bool) \<Rightarrow> 'q sched \<Rightarrow> (bool option \<times> 'q sched) option" where
  "wait_timeout_until_round c w now deadline condition st =
     (let curr = current (cpus st c)
      in if deadline \<le> now then Some (Some True, cancel_events w curr True st)
         else if condition st then Some (Some False, cancel_events w curr True st)
         else map_option (Pair None) (blocked_resched c w st))"

section \<open>Timers, spawning and exit\<close>

definition timer_callback ::
  "'q scheduler_ops \<Rightarrow> nat \<Rightarrow> nat \<Rightarrow> TaskWakeupEvent \<Rightarrow> 'q sched \<Rightarrow> 'q sched" where
  "timer_callback S c j ev st =
     (if t_timer_ticket (tasks st (ev_task ev)) \<noteq> ev_ticket ev then st
      else unblock_task S c j (ev_task ev) True st)"

text \<open>One round of \<open>check_events\<close>: some expired event is taken out and its callback run.\<close>

definition check_event ::
  "'q scheduler_ops \<Rightarrow> nat \<Rightarrow> nat \<Rightarrow> u64 \<Rightarrow> TaskWakeupEvent \<Rightarrow> 'q sched \<Rightarrow> 'q sched" where
  "check_event S c j now ev st =
     (if ev \<in> set (timers st) \<and> ev_deadline ev \<le> now
      then timer_callback S c j ev (st\<lparr>timers := remove1 ev (timers st)\<rparr>)
      else st)"

definition spawn_task :: "'q scheduler_ops \<Rightarrow> nat \<Rightarrow> string \<Rightarrow> 'q sched \<Rightarrow> (nat \<times> 'q sched) option" where
  "spawn_task S j name st =
     (let t = id_counter st;
          st1 = st\<lparr>id_counter := t + 1, tasks := (tasks st)(t := task_new name)\<rparr>
      in map_option (Pair t) (add_task S j t st1))"

text \<open>
  \<open>exit_current\<close>: the task is marked, then every task joining it is notified, then it is handed to
  the garbage collector. Exit of the init task powers the machine off and is not a step.
\<close>

definition exit_begin :: "nat \<Rightarrow> i32 \<Rightarrow> 'q sched \<Rightarrow> 'q sched option" where
  "exit_begin c exit_code st =
     (let curr = current (cpus st c)
      in if t_state (tasks st curr) = Running \<and> \<not> t_is_idle (tasks st curr) \<and> \<not> t_is_init (tasks st curr)
         then Some (set_phase c Exiting
                     (upd_task curr (\<lambda>x. x\<lparr>t_exit_code := exit_code\<rparr>) (set_state curr Exited st)))
         else None)"

definition exit_finish :: "'q scheduler_ops \<Rightarrow> nat \<Rightarrow> nat \<Rightarrow> 'q sched \<Rightarrow> 'q sched" where
  "exit_finish S c j st =
     (let st1 = upd_cpu c (\<lambda>x. x\<lparr>exited_tasks := exited_tasks x @ [current x]\<rparr>) st
      in set_phase c Rescheduling (snd (notify_one S c j (WAIT_FOR_EXIT c) False st1)))"

text \<open>\<open>join\<close> in its last round, and one pass of the garbage collector; \<open>strong_count\<close> says who else
  holds a task.\<close>

definition join_result :: "nat \<Rightarrow> 'q sched \<Rightarrow> i32 option" where
  "join_result t st = (if t_state (tasks st t) = Exited then Some (t_exit_code (tasks st t)) else None)"

fun gc_pass :: "(nat \<Rightarrow> nat) \<Rightarrow> nat \<Rightarrow> nat list \<Rightarrow> nat list" where
  "gc_pass strong_count 0 q = q"
| "gc_pass strong_count (Suc n) q =
     (case q of
        [] \<Rightarrow> gc_pass strong_count n q
      | t # ts \<Rightarrow> gc_pass strong_count n (if strong_count t = 1 then ts else ts @ [t]))"

end
