(* ===== verification/SchedInv.thy ===== *)
theory SchedInv
  imports Sched
begin

text \<open>
  The invariant of the scheduler. It is stated on the part of the state that matters for it, the
  \<open>view\<close>: who runs where, which task is in which run queue, and the three fields of a task that the
  protocol between the CPUs uses. Each operation of \<open>axtask\<close> is an update of the view.
\<close>

record view =
  vs :: "nat \<Rightarrow> TaskState"
  von :: "nat \<Rightarrow> bool"
  vidle :: "nat \<Rightarrow> bool"
  vcur :: "nat \<Rightarrow> nat"
  vph :: "nat \<Rightarrow> phase"
  vwk :: "nat \<Rightarrow> (nat \<times> nat) option"
  vq :: "nat \<Rightarrow> nat multiset"
  vidt :: "nat \<Rightarrow> nat"
  vn :: nat

text \<open>CPU \<open>c\<close> uses the context of task \<open>t\<close>: it runs it, or has not finished switching away from it.\<close>

definition occ :: "view \<Rightarrow> nat \<Rightarrow> nat \<Rightarrow> bool" where
  "occ V c t \<longleftrightarrow> vcur V c = t \<or> vph V c = Switched t"

fun phase_ok :: "TaskState \<Rightarrow> phase \<Rightarrow> bool" where
  "phase_ok s Executing = (s = Running)"
| "phase_ok s (Switched p) = (s = Running)"
| "phase_ok s Exiting = (s = Exited)"
| "phase_ok s Rescheduling = (s \<noteq> Running)"

text \<open>Contexts: a task is on at most one CPU, and its flag says so.\<close>

definition ctx_inv :: "nat \<Rightarrow> view \<Rightarrow> bool" where
  "ctx_inv smp V \<longleftrightarrow>
     (\<forall>c < smp. \<forall>d < smp. \<forall>t. occ V c t \<longrightarrow> occ V d t \<longrightarrow> c = d) \<and>
     (\<forall>c < smp. vph V c \<noteq> Switched (vcur V c)) \<and>
     (\<forall>t. von V t \<longleftrightarrow> (\<exists>c < smp. occ V c t)) \<and>
     (\<forall>c < smp. phase_ok (vs V (vcur V c)) (vph V c)) \<and>
     (\<forall>t. vs V t = Running \<longrightarrow> (\<exists>c < smp. vcur V c = t)) \<and>
     (\<forall>c < smp. \<forall>t. occ V c t \<longrightarrow> t < vn V)"

text \<open>Queues: a ready task is in exactly one run queue, or about to be inserted by one CPU.\<close>

definition queue_inv :: "nat \<Rightarrow> view \<Rightarrow> bool" where
  "queue_inv smp V \<longleftrightarrow>
     (\<forall>c < smp. \<forall>t. t \<in># vq V c \<longrightarrow>
        vs V t = Ready \<and> \<not> vidle V t \<and> count (vq V c) t = 1 \<and> t < vn V \<and> (von V t \<longrightarrow> occ V c t)) \<and>
     (\<forall>c < smp. \<forall>d < smp. \<forall>t. t \<in># vq V c \<longrightarrow> t \<in># vq V d \<longrightarrow> c = d) \<and>
     (\<forall>c < smp. \<forall>t j. vwk V c = Some (t, j) \<longrightarrow>
        j < smp \<and> vs V t = Ready \<and> \<not> vidle V t \<and> t < vn V \<and> (\<forall>d < smp. t \<notin># vq V d) \<and>
        (\<forall>d < smp. \<forall>j'. vwk V d = Some (t, j') \<longrightarrow> d = c)) \<and>
     (\<forall>t < vn V. vs V t = Ready \<longrightarrow> \<not> vidle V t \<longrightarrow>
        (\<exists>c < smp. t \<in># vq V c) \<or> (\<exists>c < smp. \<exists>j. vwk V c = Some (t, j)))"

text \<open>Idle tasks: each CPU has its own, which is always ready to be picked.\<close>

definition idle_inv :: "nat \<Rightarrow> view \<Rightarrow> bool" where
  "idle_inv smp V \<longleftrightarrow>
     (\<forall>t < vn V. vidle V t \<longrightarrow> vs V t \<in> {Running, Ready}) \<and>
     (\<forall>c < smp. vidle V (vidt V c) \<and> vidt V c < vn V \<and> (\<forall>d < smp. occ V d (vidt V c) \<longrightarrow> d = c)) \<and>
     (\<forall>c < smp. \<forall>d < smp. vidt V c = vidt V d \<longrightarrow> c = d)"

definition view_inv :: "nat \<Rightarrow> view \<Rightarrow> bool" where
  "view_inv smp V \<longleftrightarrow> ctx_inv smp V \<and> queue_inv smp V \<and> idle_inv smp V"

section \<open>Updates of the view\<close>

definition v_yield :: "nat \<Rightarrow> view \<Rightarrow> view" where
  "v_yield c V =
     (let t = vcur V c
      in V\<lparr>vs := (vs V)(t := Ready), vph := (vph V)(c := Rescheduling),
           vq := (if vidle V t then vq V else (vq V)(c := add_mset t (vq V c)))\<rparr>)"

definition v_stop :: "nat \<Rightarrow> TaskState \<Rightarrow> phase \<Rightarrow> view \<Rightarrow> view" where
  "v_stop c s p V = V\<lparr>vs := (vs V)(vcur V c := s), vph := (vph V)(c := p)\<rparr>"

definition v_wake :: "nat \<Rightarrow> nat \<Rightarrow> nat \<Rightarrow> view \<Rightarrow> view" where
  "v_wake c j t V = V\<lparr>vs := (vs V)(t := Ready), vwk := (vwk V)(c := Some (t, j))\<rparr>"

definition v_insert :: "nat \<Rightarrow> nat \<Rightarrow> nat \<Rightarrow> view \<Rightarrow> view" where
  "v_insert c j t V = V\<lparr>vwk := (vwk V)(c := None), vq := (vq V)(j := add_mset t (vq V j))\<rparr>"

definition v_switch :: "nat \<Rightarrow> nat \<Rightarrow> view \<Rightarrow> view" where
  "v_switch c t V =
     (let V1 = V\<lparr>vs := (vs V)(t := Running)\<rparr>
      in if vcur V c = t then V1\<lparr>vph := (vph V)(c := Executing)\<rparr>
         else V1\<lparr>von := (von V)(t := True), vcur := (vcur V)(c := t),
                 vph := (vph V)(c := Switched (vcur V c))\<rparr>)"

definition v_clear :: "nat \<Rightarrow> nat \<Rightarrow> view \<Rightarrow> view" where
  "v_clear c p V = V\<lparr>von := (von V)(p := False), vph := (vph V)(c := Executing)\<rparr>"

definition v_spawn :: "nat \<Rightarrow> bool \<Rightarrow> view \<Rightarrow> view" where
  "v_spawn j idle V =
     V\<lparr>vs := (vs V)(vn V := Ready), von := (von V)(vn V := False), vidle := (vidle V)(vn V := idle),
       vq := (vq V)(j := add_mset (vn V) (vq V j)), vn := vn V + 1\<rparr>"

lemma sel_stop [simp]:
  "vs (v_stop c s p V) = (vs V)(vcur V c := s)" "von (v_stop c s p V) = von V"
  "vidle (v_stop c s p V) = vidle V" "vcur (v_stop c s p V) = vcur V"
  "vph (v_stop c s p V) = (vph V)(c := p)" "vwk (v_stop c s p V) = vwk V" "vq (v_stop c s p V) = vq V"
  "vidt (v_stop c s p V) = vidt V" "vn (v_stop c s p V) = vn V"
  by (simp_all add: v_stop_def)

lemma sel_yield [simp]:
  "vs (v_yield c V) = (vs V)(vcur V c := Ready)" "von (v_yield c V) = von V"
  "vidle (v_yield c V) = vidle V" "vcur (v_yield c V) = vcur V"
  "vph (v_yield c V) = (vph V)(c := Rescheduling)" "vwk (v_yield c V) = vwk V"
  "vq (v_yield c V) = (if vidle V (vcur V c) then vq V else (vq V)(c := add_mset (vcur V c) (vq V c)))"
  "vidt (v_yield c V) = vidt V" "vn (v_yield c V) = vn V"
  by (simp_all add: v_yield_def Let_def)

lemma sel_wake [simp]:
  "vs (v_wake c j t V) = (vs V)(t := Ready)" "von (v_wake c j t V) = von V"
  "vidle (v_wake c j t V) = vidle V" "vcur (v_wake c j t V) = vcur V" "vph (v_wake c j t V) = vph V"
  "vwk (v_wake c j t V) = (vwk V)(c := Some (t, j))" "vq (v_wake c j t V) = vq V"
  "vidt (v_wake c j t V) = vidt V" "vn (v_wake c j t V) = vn V"
  by (simp_all add: v_wake_def)

lemma sel_insert [simp]:
  "vs (v_insert c j t V) = vs V" "von (v_insert c j t V) = von V"
  "vidle (v_insert c j t V) = vidle V" "vcur (v_insert c j t V) = vcur V" "vph (v_insert c j t V) = vph V"
  "vwk (v_insert c j t V) = (vwk V)(c := None)" "vq (v_insert c j t V) = (vq V)(j := add_mset t (vq V j))"
  "vidt (v_insert c j t V) = vidt V" "vn (v_insert c j t V) = vn V"
  by (simp_all add: v_insert_def)

lemma sel_clear [simp]:
  "vs (v_clear c p V) = vs V" "von (v_clear c p V) = (von V)(p := False)"
  "vidle (v_clear c p V) = vidle V" "vcur (v_clear c p V) = vcur V"
  "vph (v_clear c p V) = (vph V)(c := Executing)" "vwk (v_clear c p V) = vwk V"
  "vq (v_clear c p V) = vq V" "vidt (v_clear c p V) = vidt V" "vn (v_clear c p V) = vn V"
  by (simp_all add: v_clear_def)

lemma sel_spawn [simp]:
  "vs (v_spawn j i V) = (vs V)(vn V := Ready)" "von (v_spawn j i V) = (von V)(vn V := False)"
  "vidle (v_spawn j i V) = (vidle V)(vn V := i)" "vcur (v_spawn j i V) = vcur V"
  "vph (v_spawn j i V) = vph V" "vwk (v_spawn j i V) = vwk V"
  "vq (v_spawn j i V) = (vq V)(j := add_mset (vn V) (vq V j))"
  "vidt (v_spawn j i V) = vidt V" "vn (v_spawn j i V) = vn V + 1"
  by (simp_all add: v_spawn_def)

lemma occ_same:
  "vph V c = Executing \<or> vph V c = Exiting \<Longrightarrow> \<forall>q. p \<noteq> Switched q \<Longrightarrow> occ (v_stop c s p V) = occ V"
  "vph V c = Executing \<Longrightarrow> occ (v_yield c V) = occ V"
  "occ (v_wake c j t V) = occ V" "occ (v_insert c j t V) = occ V" "occ (v_spawn j i V) = occ V"
  by (auto simp: occ_def fun_eq_iff)

lemma occ_clear: "vph V c = Switched p \<Longrightarrow> occ (v_clear c p V) d t = (occ V d t \<and> \<not> (d = c \<and> t = p \<and> vcur V c \<noteq> p))"
  by (auto simp: occ_def)

lemma ctx_invI:
  assumes "\<And>c d t. c < smp \<Longrightarrow> d < smp \<Longrightarrow> occ V c t \<Longrightarrow> occ V d t \<Longrightarrow> c = d"
    and "\<And>c. c < smp \<Longrightarrow> vph V c \<noteq> Switched (vcur V c)"
    and "\<And>t. von V t \<longleftrightarrow> (\<exists>c < smp. occ V c t)"
    and "\<And>c. c < smp \<Longrightarrow> phase_ok (vs V (vcur V c)) (vph V c)"
    and "\<And>t. vs V t = Running \<Longrightarrow> \<exists>c < smp. vcur V c = t"
    and "\<And>c t. c < smp \<Longrightarrow> occ V c t \<Longrightarrow> t < vn V"
  shows "ctx_inv smp V"
  unfolding ctx_inv_def using assms by blast

lemma ctx_uniq: "ctx_inv smp V \<Longrightarrow> c < smp \<Longrightarrow> d < smp \<Longrightarrow> occ V c t \<Longrightarrow> occ V d t \<Longrightarrow> c = d"
  unfolding ctx_inv_def by blast

lemma ctx_switched: "ctx_inv smp V \<Longrightarrow> c < smp \<Longrightarrow> vph V c \<noteq> Switched (vcur V c)"
  unfolding ctx_inv_def by blast

lemma ctx_on: "ctx_inv smp V \<Longrightarrow> von V t \<longleftrightarrow> (\<exists>c < smp. occ V c t)"
  unfolding ctx_inv_def by (elim conjE) (rule spec)

lemma ctx_phase: "ctx_inv smp V \<Longrightarrow> c < smp \<Longrightarrow> phase_ok (vs V (vcur V c)) (vph V c)"
  unfolding ctx_inv_def by blast

lemma ctx_running: "ctx_inv smp V \<Longrightarrow> vs V t = Running \<Longrightarrow> \<exists>c < smp. vcur V c = t"
  unfolding ctx_inv_def by blast

lemma ctx_bound: "ctx_inv smp V \<Longrightarrow> c < smp \<Longrightarrow> occ V c t \<Longrightarrow> t < vn V"
  unfolding ctx_inv_def by blast

lemma occ_cur [simp]: "occ V c (vcur V c)"
  by (simp add: occ_def)

lemma cur_unique:
  assumes "ctx_inv smp V" "c < smp" "d < smp" "vcur V d = vcur V c"
  shows "d = c"
  using assms unfolding ctx_inv_def occ_def by blast

lemma ctx_stop:
  assumes "ctx_inv smp V" "c < smp" "vph V c = Executing" "\<forall>q. p \<noteq> Switched q" "phase_ok s p" "s \<noteq> Running"
  shows "ctx_inv smp (v_stop c s p V)"
  using assms cur_unique [OF assms(1,2)] unfolding ctx_inv_def occ_same(1) [OF disjI1 [OF assms(3)] assms(4)]
  by (auto split: if_splits)

lemma ctx_yield:
  assumes "ctx_inv smp V" "c < smp" "vph V c = Executing"
  shows "ctx_inv smp (v_yield c V)"
  using assms cur_unique [OF assms(1,2)] unfolding ctx_inv_def occ_same(2) [OF assms(3)]
  by (auto split: if_splits)

lemma ctx_wake:
  assumes "ctx_inv smp V" "vs V t = Blocked"
  shows "ctx_inv smp (v_wake c j t V)"
proof -
  have "phase_ok (vs V (vcur V d)) (vph V d) \<Longrightarrow> vcur V d = t \<Longrightarrow> phase_ok Ready (vph V d)" for d
    using assms(2) by (cases "vph V d") auto
  with assms show ?thesis unfolding ctx_inv_def occ_same(3) by auto
qed

lemma ctx_insert: "ctx_inv smp V \<Longrightarrow> ctx_inv smp (v_insert c j t V)"
  unfolding ctx_inv_def occ_same(4) by simp

lemma ctx_spawn:
  assumes "ctx_inv smp V"
  shows "ctx_inv smp (v_spawn j i V)"
proof -
  have "occ V c t \<longrightarrow> t \<noteq> vn V" "vcur V c \<noteq> vn V" if "c < smp" for c t
    using assms that unfolding ctx_inv_def occ_def by blast+
  with assms show ?thesis unfolding ctx_inv_def occ_same(5) by (auto simp: less_Suc_eq)
qed

lemma ctx_clear:
  assumes "ctx_inv smp V" "c < smp" "vph V c = Switched p"
  shows "ctx_inv smp (v_clear c p V)"
proof -
  have ne: "vcur V c \<noteq> p" using ctx_switched [OF assms(1,2)] assms(3) by auto
  have "occ V c p" using assms(3) by (simp add: occ_def)
  then have only: "d = c" if "d < smp" "occ V d p" for d
    using ctx_uniq [OF assms(1) that(1) assms(2) that(2)] by blast
  have run: "vs V (vcur V c) = Running" using ctx_phase [OF assms(1,2)] assms(3) by simp
  have occ: "occ (v_clear c p V) d t \<longleftrightarrow> occ V d t \<and> t \<noteq> p" if "d < smp" for d t
    using only [OF that] ne unfolding occ_clear [OF assms(3)] by blast
  show ?thesis
  proof (rule ctx_invI)
    show "von (v_clear c p V) t \<longleftrightarrow> (\<exists>d < smp. occ (v_clear c p V) d t)" for t
      using ctx_on [OF assms(1), of t] occ by auto
  qed (use assms occ run in \<open>auto dest: ctx_uniq ctx_bound ctx_running ctx_phase ctx_switched\<close>)
qed

lemma sel_switch [simp]:
  "vs (v_switch c t V) = (vs V)(t := Running)"
  "von (v_switch c t V) = (if vcur V c = t then von V else (von V)(t := True))"
  "vidle (v_switch c t V) = vidle V" "vcur (v_switch c t V) = (vcur V)(c := t)"
  "vph (v_switch c t V) = (vph V)(c := (if vcur V c = t then Executing else Switched (vcur V c)))"
  "vwk (v_switch c t V) = vwk V" "vq (v_switch c t V) = vq V" "vidt (v_switch c t V) = vidt V"
  "vn (v_switch c t V) = vn V"
  by (auto simp: v_switch_def Let_def)

lemma occ_switch:
  "vph V c = Rescheduling \<Longrightarrow>
   occ (v_switch c t V) d x = (if d = c then x = t \<or> x = vcur V c else occ V d x)"
  by (auto simp: occ_def)

lemma ctx_switch:
  assumes "ctx_inv smp V" "c < smp" "vph V c = Rescheduling" "t < vn V" "von V t \<longrightarrow> occ V c t"
  shows "ctx_inv smp (v_switch c t V)"
proof -
  have occ_c: "occ V c x \<longleftrightarrow> x = vcur V c" for x using assms(3) by (auto simp: occ_def)
  have free: "\<not> occ V d t" if "d < smp" "d \<noteq> c" for d
    using ctx_on [OF assms(1), of t] ctx_uniq [OF assms(1) that(1) assms(2), of t] assms(5) that by blast
  have cur_free: "\<not> occ V d (vcur V c)" if "d < smp" "d \<noteq> c" for d
    using ctx_uniq [OF assms(1) that(1) assms(2), of "vcur V c"] that by auto
  note occ = occ_switch [OF assms(3), of t]
  show ?thesis
  proof (rule ctx_invI)
    show "x = y" if "x < smp" "y < smp" "occ (v_switch c t V) x z" "occ (v_switch c t V) y z" for x y z
      using that free cur_free ctx_uniq [OF assms(1)] unfolding occ by (metis (full_types))
    show "von (v_switch c t V) x \<longleftrightarrow> (\<exists>d < smp. occ (v_switch c t V) d x)" for x
    proof (cases "x = t \<or> x = vcur V c")
      case True
      moreover have "von V (vcur V c)" using ctx_on [OF assms(1)] assms(2) occ_cur by blast
      ultimately have "von (v_switch c t V) x" by auto
      moreover have "occ (v_switch c t V) c x" using True unfolding occ by auto
      ultimately show ?thesis using assms(2) by blast
    next
      case False
      then have "occ (v_switch c t V) d x \<longleftrightarrow> occ V d x" for d using occ_c unfolding occ by auto
      with False show ?thesis using ctx_on [OF assms(1), of x] by simp
    qed
    show "phase_ok (vs (v_switch c t V) (vcur (v_switch c t V) d)) (vph (v_switch c t V) d)" if "d < smp" for d
      using ctx_phase [OF assms(1) that] free [OF that] by (auto simp: occ_def)
    show "\<exists>d < smp. vcur (v_switch c t V) d = x" if "vs (v_switch c t V) x = Running" for x
    proof (cases "x = t")
      case False
      with that ctx_running [OF assms(1), of x] ctx_phase [OF assms(1,2)] assms(3) show ?thesis by auto
    qed (use assms(2) in auto)
    show "vph (v_switch c t V) d \<noteq> Switched (vcur (v_switch c t V) d)" if "d < smp" for d
      using ctx_switched [OF assms(1) that] by auto
    show "x < vn (v_switch c t V)" if "d < smp" "occ (v_switch c t V) d x" for d x
      using that assms(4) ctx_bound [OF assms(1) that(1)] ctx_bound [OF assms(1,2) occ_cur] unfolding occ
      by (auto split: if_splits)
  qed
qed

section \<open>Queues and idle tasks\<close>

lemma queue_invI:
  assumes "\<And>c t. c < smp \<Longrightarrow> t \<in># vq V c \<Longrightarrow>
      vs V t = Ready \<and> \<not> vidle V t \<and> count (vq V c) t = 1 \<and> t < vn V \<and> (von V t \<longrightarrow> occ V c t)"
    and "\<And>c d t. c < smp \<Longrightarrow> d < smp \<Longrightarrow> t \<in># vq V c \<Longrightarrow> t \<in># vq V d \<Longrightarrow> c = d"
    and "\<And>c t j. c < smp \<Longrightarrow> vwk V c = Some (t, j) \<Longrightarrow>
      j < smp \<and> vs V t = Ready \<and> \<not> vidle V t \<and> t < vn V \<and> (\<forall>d < smp. t \<notin># vq V d) \<and>
      (\<forall>d < smp. \<forall>j'. vwk V d = Some (t, j') \<longrightarrow> d = c)"
    and "\<And>t. t < vn V \<Longrightarrow> vs V t = Ready \<Longrightarrow> \<not> vidle V t \<Longrightarrow>
      (\<exists>c < smp. t \<in># vq V c) \<or> (\<exists>c < smp. \<exists>j. vwk V c = Some (t, j))"
  shows "queue_inv smp V"
  unfolding queue_inv_def using assms by blast

lemma q_item: "queue_inv smp V \<Longrightarrow> c < smp \<Longrightarrow> t \<in># vq V c \<Longrightarrow>
    vs V t = Ready \<and> \<not> vidle V t \<and> count (vq V c) t = 1 \<and> t < vn V \<and> (von V t \<longrightarrow> occ V c t)"
  unfolding queue_inv_def by blast

lemma q_uniq: "queue_inv smp V \<Longrightarrow> c < smp \<Longrightarrow> d < smp \<Longrightarrow> t \<in># vq V c \<Longrightarrow> t \<in># vq V d \<Longrightarrow> c = d"
  unfolding queue_inv_def by blast

lemma q_wake: "queue_inv smp V \<Longrightarrow> c < smp \<Longrightarrow> vwk V c = Some (t, j) \<Longrightarrow>
    j < smp \<and> vs V t = Ready \<and> \<not> vidle V t \<and> t < vn V \<and> (\<forall>d < smp. t \<notin># vq V d) \<and>
    (\<forall>d < smp. \<forall>j'. vwk V d = Some (t, j') \<longrightarrow> d = c)"
  unfolding queue_inv_def by blast

lemma q_ready: "queue_inv smp V \<Longrightarrow> t < vn V \<Longrightarrow> vs V t = Ready \<Longrightarrow> \<not> vidle V t \<Longrightarrow>
    (\<exists>c < smp. t \<in># vq V c) \<or> (\<exists>c < smp. \<exists>j. vwk V c = Some (t, j))"
  unfolding queue_inv_def by blast

lemma queue_stop:
  assumes "queue_inv smp V" "vs V (vcur V c) = Running" "vph V c = Executing"
    and "\<forall>q. p \<noteq> Switched q" "s \<noteq> Ready"
  shows "queue_inv smp (v_stop c s p V)"
proof (rule queue_invI)
  note occ = occ_same(1) [OF disjI1 [OF assms(3)] assms(4), of s]
  fix d e t j
  show "vs (v_stop c s p V) t = Ready \<and> \<not> vidle (v_stop c s p V) t \<and> count (vq (v_stop c s p V) d) t = 1 \<and>
      t < vn (v_stop c s p V) \<and> (von (v_stop c s p V) t \<longrightarrow> occ (v_stop c s p V) d t)"
    if "d < smp" "t \<in># vq (v_stop c s p V) d"
    using q_item [OF assms(1) that(1), of t] that assms(2) unfolding occ by auto
  show "d = e" if "d < smp" "e < smp" "t \<in># vq (v_stop c s p V) d" "t \<in># vq (v_stop c s p V) e"
    using q_uniq [OF assms(1) that(1,2)] that by simp
  show "j < smp \<and> vs (v_stop c s p V) t = Ready \<and> \<not> vidle (v_stop c s p V) t \<and> t < vn (v_stop c s p V) \<and>
      (\<forall>d < smp. t \<notin># vq (v_stop c s p V) d) \<and>
      (\<forall>e < smp. \<forall>j'. vwk (v_stop c s p V) e = Some (t, j') \<longrightarrow> e = d)"
    if "d < smp" "vwk (v_stop c s p V) d = Some (t, j)"
    using q_wake [OF assms(1) that(1) that(2) [simplified]] assms(2) by (cases "t = vcur V c") simp_all
  show "(\<exists>d < smp. t \<in># vq (v_stop c s p V) d) \<or> (\<exists>d < smp. \<exists>j. vwk (v_stop c s p V) d = Some (t, j))"
    if "t < vn (v_stop c s p V)" "vs (v_stop c s p V) t = Ready" "\<not> vidle (v_stop c s p V) t"
    using q_ready [OF assms(1), of t] that assms(5) by (auto split: if_splits)
qed

lemma queue_phase:
  assumes "vph V c = Exiting \<or> vph V c = Executing" "\<forall>q. p \<noteq> Switched q"
  shows "queue_inv smp (V\<lparr>vph := (vph V)(c := p)\<rparr>) = queue_inv smp V"
proof -
  have "occ (V\<lparr>vph := (vph V)(c := p)\<rparr>) = occ V" using assms by (auto simp: occ_def fun_eq_iff)
  then show ?thesis unfolding queue_inv_def by simp
qed

lemma not_queued:
  assumes "queue_inv smp V" "vs V t \<noteq> Ready" "d < smp"
  shows "t \<notin># vq V d" "vwk V d \<noteq> Some (t, j)"
  using q_item [OF assms(1,3), of t] q_wake [OF assms(1,3), of t j] assms(2) by auto

lemma queue_yield:
  assumes inv: "queue_inv smp V" and c: "c < smp" and run: "vs V (vcur V c) = Running"
    and ph: "vph V c = Executing" and bound: "vcur V c < vn V"
  shows "queue_inv smp (v_yield c V)"
proof (rule queue_invI)
  note occ = occ_same(2) [OF ph]
  let ?t = "vcur V c"
  have nr: "vs V ?t \<noteq> Ready" using run by simp
  note nq = not_queued [OF inv nr]
  fix d e t j
  show "vs (v_yield c V) t = Ready \<and> \<not> vidle (v_yield c V) t \<and> count (vq (v_yield c V) d) t = 1 \<and>
      t < vn (v_yield c V) \<and> (von (v_yield c V) t \<longrightarrow> occ (v_yield c V) d t)"
    if d: "d < smp" "t \<in># vq (v_yield c V) d"
  proof (cases "t = ?t")
    case True
    with d nq(1) [OF d(1)] have "d = c" "\<not> vidle V ?t" by (auto split: if_splits)
    with True nq(1) [OF c] bound show ?thesis unfolding occ by (simp add: not_in_iff)
  next
    case False
    with d have "t \<in># vq V d" by (auto split: if_splits)
    from q_item [OF inv d(1) this] False show ?thesis unfolding occ by auto
  qed
  show "d = e" if "d < smp" "e < smp" "t \<in># vq (v_yield c V) d" "t \<in># vq (v_yield c V) e"
    using that nq(1) q_uniq [OF inv that(1,2), of t] by (auto split: if_splits)
  show "j < smp \<and> vs (v_yield c V) t = Ready \<and> \<not> vidle (v_yield c V) t \<and> t < vn (v_yield c V) \<and>
      (\<forall>d < smp. t \<notin># vq (v_yield c V) d) \<and>
      (\<forall>e < smp. \<forall>j'. vwk (v_yield c V) e = Some (t, j') \<longrightarrow> e = d)"
    if "d < smp" "vwk (v_yield c V) d = Some (t, j)"
  proof -
    from that have w: "vwk V d = Some (t, j)" by simp
    then have "t \<noteq> ?t" using nq(2) [OF that(1)] by auto
    with q_wake [OF inv that(1) w] show ?thesis by simp
  qed
  show "(\<exists>d < smp. t \<in># vq (v_yield c V) d) \<or> (\<exists>d < smp. \<exists>j. vwk (v_yield c V) d = Some (t, j))"
    if "t < vn (v_yield c V)" "vs (v_yield c V) t = Ready" "\<not> vidle (v_yield c V) t"
  proof (cases "t = ?t")
    case True
    with that c show ?thesis by auto
  next
    case False
    with q_ready [OF inv, of t] that show ?thesis by (auto split: if_splits)
  qed
qed

lemma queue_wake:
  assumes inv: "queue_inv smp V" and c: "c < smp" "j < smp" and t: "vs V t = Blocked" "\<not> vidle V t" "t < vn V"
    and free: "vwk V c = None"
  shows "queue_inv smp (v_wake c j t V)"
proof (rule queue_invI)
  note occ = occ_same(3)
  have nr: "vs V t \<noteq> Ready" using t by simp
  note nq = not_queued [OF inv nr]
  fix d e x i
  show "vs (v_wake c j t V) x = Ready \<and> \<not> vidle (v_wake c j t V) x \<and> count (vq (v_wake c j t V) d) x = 1 \<and>
      x < vn (v_wake c j t V) \<and> (von (v_wake c j t V) x \<longrightarrow> occ (v_wake c j t V) d x)"
    if "d < smp" "x \<in># vq (v_wake c j t V) d"
    using q_item [OF inv that(1), of x] that unfolding occ by auto
  show "d = e" if "d < smp" "e < smp" "x \<in># vq (v_wake c j t V) d" "x \<in># vq (v_wake c j t V) e"
    using q_uniq [OF inv that(1,2)] that by simp
  show "i < smp \<and> vs (v_wake c j t V) x = Ready \<and> \<not> vidle (v_wake c j t V) x \<and> x < vn (v_wake c j t V) \<and>
      (\<forall>d < smp. x \<notin># vq (v_wake c j t V) d) \<and>
      (\<forall>e < smp. \<forall>j'. vwk (v_wake c j t V) e = Some (x, j') \<longrightarrow> e = d)"
    if "d < smp" "vwk (v_wake c j t V) d = Some (x, i)"
  proof (cases "d = c")
    case True
    with that have "x = t" "i = j" by auto
    with True c t nq show ?thesis by auto
  next
    case False
    with that have w: "vwk V d = Some (x, i)" by simp
    then have "x \<noteq> t" using nq(2) [OF that(1)] by auto
    with q_wake [OF inv that(1) w] False show ?thesis by simp
  qed
  show "(\<exists>d < smp. x \<in># vq (v_wake c j t V) d) \<or> (\<exists>d < smp. \<exists>j'. vwk (v_wake c j t V) d = Some (x, j'))"
    if "x < vn (v_wake c j t V)" "vs (v_wake c j t V) x = Ready" "\<not> vidle (v_wake c j t V) x"
  proof (cases "x = t")
    case True
    with c show ?thesis by auto
  next
    case False
    with that have "(\<exists>d < smp. x \<in># vq V d) \<or> (\<exists>d < smp. \<exists>j. vwk V d = Some (x, j))"
      using q_ready [OF inv, of x] by simp
    then show ?thesis using free by fastforce
  qed
qed

lemma queue_insert:
  assumes inv: "queue_inv smp V" and c: "c < smp" and w: "vwk V c = Some (t, j)" and off: "\<not> von V t"
  shows "queue_inv smp (v_insert c j t V)"
proof (rule queue_invI)
  note occ = occ_same(4)
  from q_wake [OF inv c w] have j: "j < smp" and t: "vs V t = Ready" "\<not> vidle V t" "t < vn V"
    and nq: "\<And>d. d < smp \<Longrightarrow> t \<notin># vq V d" and nw: "\<And>d j'. d < smp \<Longrightarrow> vwk V d = Some (t, j') \<Longrightarrow> d = c"
    by blast+
  fix d e x i
  show "vs (v_insert c j t V) x = Ready \<and> \<not> vidle (v_insert c j t V) x \<and> count (vq (v_insert c j t V) d) x = 1 \<and>
      x < vn (v_insert c j t V) \<and> (von (v_insert c j t V) x \<longrightarrow> occ (v_insert c j t V) d x)"
    if d: "d < smp" "x \<in># vq (v_insert c j t V) d"
  proof (cases "x = t")
    case True
    with d nq [OF d(1)] have "d = j" by (auto split: if_splits)
    with True nq [OF j] t off show ?thesis unfolding occ by (simp add: not_in_iff)
  next
    case False
    with d have "x \<in># vq V d" by (auto split: if_splits)
    from q_item [OF inv d(1) this] False show ?thesis unfolding occ by auto
  qed
  show "d = e" if "d < smp" "e < smp" "x \<in># vq (v_insert c j t V) d" "x \<in># vq (v_insert c j t V) e"
    using that nq q_uniq [OF inv that(1,2), of x] by (auto split: if_splits)
  show "i < smp \<and> vs (v_insert c j t V) x = Ready \<and> \<not> vidle (v_insert c j t V) x \<and> x < vn (v_insert c j t V) \<and>
      (\<forall>d < smp. x \<notin># vq (v_insert c j t V) d) \<and>
      (\<forall>e < smp. \<forall>j'. vwk (v_insert c j t V) e = Some (x, j') \<longrightarrow> e = d)"
    if "d < smp" "vwk (v_insert c j t V) d = Some (x, i)"
  proof -
    from that have d: "d \<noteq> c" "vwk V d = Some (x, i)" by (auto split: if_splits)
    then have "x \<noteq> t" using nw [OF that(1)] by auto
    with q_wake [OF inv that(1) d(2)] show ?thesis by simp
  qed
  show "(\<exists>d < smp. x \<in># vq (v_insert c j t V) d) \<or> (\<exists>d < smp. \<exists>j'. vwk (v_insert c j t V) d = Some (x, j'))"
    if "x < vn (v_insert c j t V)" "vs (v_insert c j t V) x = Ready" "\<not> vidle (v_insert c j t V) x"
  proof (cases "x = t")
    case True
    with j show ?thesis by auto
  next
    case False
    with that have "(\<exists>d < smp. x \<in># vq V d) \<or> (\<exists>d < smp. \<exists>j. vwk V d = Some (x, j))"
      using q_ready [OF inv, of x] by simp
    then show ?thesis using False w by fastforce
  qed
qed

lemma queue_switch:
  assumes inv: "queue_inv smp V" and c: "c < smp" "vph V c = Rescheduling"
    and pick: "(t \<in># vq V c \<and> q = vq V c - {#t#}) \<or> (vidle V t \<and> q = vq V c)"
  shows "queue_inv smp (v_switch c t (V\<lparr>vq := (vq V)(c := q)\<rparr>))"
proof (rule queue_invI)
  let ?W = "v_switch c t (V\<lparr>vq := (vq V)(c := q)\<rparr>)"
  have sub: "x \<noteq> t \<Longrightarrow> x \<in># vq ?W d \<longleftrightarrow> x \<in># vq V d" "x \<noteq> t \<Longrightarrow> count (vq ?W d) x = count (vq V d) x" for x d
    using pick by (auto simp: in_diff_count)
  have gone: "t \<notin># vq ?W d" if d: "d < smp" for d
  proof (cases "t \<in># vq V c")
    case True
    with pick q_item [OF inv c(1) True] have "q = vq V c - {#t#}" "count (vq V c) t = 1" by auto
    moreover have "d \<noteq> c \<Longrightarrow> t \<notin># vq V d" using q_uniq [OF inv d c(1) _ True] by blast
    ultimately show ?thesis by (cases "d = c") (simp_all add: not_in_iff)
  next
    case False
    with pick have "vidle V t" "q = vq V c" by blast+
    moreover from this have "t \<notin># vq V d" using q_item [OF inv d, of t] by blast
    ultimately show ?thesis using False by simp
  qed
  have nw: "vwk V d \<noteq> Some (t, j)" if "d < smp" for d j
    using q_wake [OF inv that, of t j] pick c(1) by blast
  have occ: "occ V d x \<Longrightarrow> occ ?W d x" for d x using c(2) by (auto simp: occ_def)
  fix d e x i
  show "vs ?W x = Ready \<and> \<not> vidle ?W x \<and> count (vq ?W d) x = 1 \<and> x < vn ?W \<and> (von ?W x \<longrightarrow> occ ?W d x)"
    if d: "d < smp" "x \<in># vq ?W d"
  proof -
    from gone [OF d(1)] d(2) have x: "x \<noteq> t" by auto
    with q_item [OF inv d(1), of x] sub [OF x] d(2)
    have "vs V x = Ready \<and> \<not> vidle V x \<and> count (vq ?W d) x = 1 \<and> x < vn V \<and> (von V x \<longrightarrow> occ V d x)" by simp
    with x occ show ?thesis by auto
  qed
  show "d = e" if "d < smp" "e < smp" "x \<in># vq ?W d" "x \<in># vq ?W e"
  proof -
    from gone [OF that(1)] that(3) have "x \<noteq> t" by auto
    with sub(1) that(3,4) have "x \<in># vq V d" "x \<in># vq V e" by auto
    then show ?thesis by (rule q_uniq [OF inv that(1,2)])
  qed
  show "i < smp \<and> vs ?W x = Ready \<and> \<not> vidle ?W x \<and> x < vn ?W \<and> (\<forall>d < smp. x \<notin># vq ?W d) \<and>
      (\<forall>e < smp. \<forall>j'. vwk ?W e = Some (x, j') \<longrightarrow> e = d)"
    if "d < smp" "vwk ?W d = Some (x, i)"
  proof -
    from that have w: "vwk V d = Some (x, i)" by simp
    with nw [OF that(1)] have "x \<noteq> t" by auto
    with q_wake [OF inv that(1) w] sub(1) show ?thesis by simp
  qed
  show "(\<exists>d < smp. x \<in># vq ?W d) \<or> (\<exists>d < smp. \<exists>j'. vwk ?W d = Some (x, j'))"
    if "x < vn ?W" "vs ?W x = Ready" "\<not> vidle ?W x"
  proof -
    from that have "x \<noteq> t" by auto
    with that q_ready [OF inv, of x] sub(1) show ?thesis by simp
  qed
qed

lemma queue_clear:
  assumes inv: "queue_inv smp V" and p: "vph V c = Switched p"
  shows "queue_inv smp (v_clear c p V)"
proof (rule queue_invI)
  let ?W = "v_clear c p V"
  fix d e x i
  show "vs ?W x = Ready \<and> \<not> vidle ?W x \<and> count (vq ?W d) x = 1 \<and> x < vn ?W \<and> (von ?W x \<longrightarrow> occ ?W d x)"
    if d: "d < smp" "x \<in># vq ?W d"
    using q_item [OF inv d(1), of x] d(2) unfolding occ_clear [OF p] by auto
  show "d = e" if "d < smp" "e < smp" "x \<in># vq ?W d" "x \<in># vq ?W e"
    using q_uniq [OF inv that(1,2)] that by simp
  show "i < smp \<and> vs ?W x = Ready \<and> \<not> vidle ?W x \<and> x < vn ?W \<and> (\<forall>d < smp. x \<notin># vq ?W d) \<and>
      (\<forall>e < smp. \<forall>j'. vwk ?W e = Some (x, j') \<longrightarrow> e = d)"
    if "d < smp" "vwk ?W d = Some (x, i)"
    using q_wake [OF inv that(1), of x i] that(2) by simp
  show "(\<exists>d < smp. x \<in># vq ?W d) \<or> (\<exists>d < smp. \<exists>j'. vwk ?W d = Some (x, j'))"
    if "x < vn ?W" "vs ?W x = Ready" "\<not> vidle ?W x"
    using q_ready [OF inv, of x] that by simp
qed

lemma queue_spawn:
  assumes inv: "queue_inv smp V" and j: "j < smp"
  shows "queue_inv smp (v_spawn j False V)"
proof (rule queue_invI)
  let ?W = "v_spawn j False V" and ?t = "vn V"
  have nq: "?t \<notin># vq V d" if "d < smp" for d using q_item [OF inv that, of ?t] by auto
  have nw: "vwk V d \<noteq> Some (?t, i)" if "d < smp" for d i using q_wake [OF inv that, of ?t i] by auto
  fix d e x i
  show "vs ?W x = Ready \<and> \<not> vidle ?W x \<and> count (vq ?W d) x = 1 \<and> x < vn ?W \<and> (von ?W x \<longrightarrow> occ ?W d x)"
    if d: "d < smp" "x \<in># vq ?W d"
  proof (cases "x = ?t")
    case True
    with d nq [OF d(1)] have "d = j" by (auto split: if_splits)
    with True nq [OF j] show ?thesis by (simp add: not_in_iff)
  next
    case False
    with d have "x \<in># vq V d" by (auto split: if_splits)
    from q_item [OF inv d(1) this] False show ?thesis unfolding occ_same(5) by auto
  qed
  show "d = e" if "d < smp" "e < smp" "x \<in># vq ?W d" "x \<in># vq ?W e"
    using that nq q_uniq [OF inv that(1,2), of x] by (auto split: if_splits)
  show "i < smp \<and> vs ?W x = Ready \<and> \<not> vidle ?W x \<and> x < vn ?W \<and> (\<forall>d < smp. x \<notin># vq ?W d) \<and>
      (\<forall>e < smp. \<forall>j'. vwk ?W e = Some (x, j') \<longrightarrow> e = d)"
    if "d < smp" "vwk ?W d = Some (x, i)"
  proof -
    from that have w: "vwk V d = Some (x, i)" by simp
    with nw [OF that(1)] have "x \<noteq> ?t" by auto
    with q_wake [OF inv that(1) w] show ?thesis by simp
  qed
  show "(\<exists>d < smp. x \<in># vq ?W d) \<or> (\<exists>d < smp. \<exists>j'. vwk ?W d = Some (x, j'))"
    if "x < vn ?W" "vs ?W x = Ready" "\<not> vidle ?W x"
  proof (cases "x = ?t")
    case True
    with j show ?thesis by auto
  next
    case False
    with that q_ready [OF inv, of x] have "(\<exists>d < smp. x \<in># vq V d) \<or> (\<exists>d < smp. \<exists>j. vwk V d = Some (x, j))"
      by simp
    then show ?thesis using False by auto
  qed
qed

lemma idle_invI:
  assumes "\<And>t. t < vn V \<Longrightarrow> vidle V t \<Longrightarrow> vs V t \<in> {Running, Ready}"
    and "\<And>c. c < smp \<Longrightarrow> vidle V (vidt V c) \<and> vidt V c < vn V"
    and "\<And>c d. c < smp \<Longrightarrow> d < smp \<Longrightarrow> occ V d (vidt V c) \<Longrightarrow> d = c"
    and "\<And>c d. c < smp \<Longrightarrow> d < smp \<Longrightarrow> vidt V c = vidt V d \<Longrightarrow> c = d"
  shows "idle_inv smp V"
  unfolding idle_inv_def using assms by blast

lemma idle_own: "idle_inv smp V \<Longrightarrow> c < smp \<Longrightarrow>
    vidle V (vidt V c) \<and> vidt V c < vn V \<and> vs V (vidt V c) \<in> {Running, Ready}"
  unfolding idle_inv_def by blast

lemma idle_state: "idle_inv smp V \<Longrightarrow> t < vn V \<Longrightarrow> vidle V t \<Longrightarrow> vs V t \<in> {Running, Ready}"
  unfolding idle_inv_def by blast

lemma idle_occ: "idle_inv smp V \<Longrightarrow> c < smp \<Longrightarrow> d < smp \<Longrightarrow> occ V d (vidt V c) \<Longrightarrow> d = c"
  unfolding idle_inv_def by blast

lemma idle_inj: "idle_inv smp V \<Longrightarrow> c < smp \<Longrightarrow> d < smp \<Longrightarrow> vidt V c = vidt V d \<Longrightarrow> c = d"
  unfolding idle_inv_def by blast

text \<open>Changing the state of a task that is not idle, or of an idle one to \<open>Ready\<close>, is harmless.\<close>

lemma idle_update:
  assumes inv: "idle_inv smp V" and "vidle W = vidle V" "vidt W = vidt V" "vn W = vn V"
    and "\<And>d x. d < smp \<Longrightarrow> occ W d x \<Longrightarrow> occ V d x \<or> (\<forall>c < smp. x = vidt V c \<longrightarrow> d = c)"
    and "\<And>x. vs W x = vs V x \<or> \<not> vidle V x \<or> vs W x \<in> {Running, Ready}"
  shows "idle_inv smp W"
proof (rule idle_invI)
  show "vs W x \<in> {Running, Ready}" if "x < vn W" "vidle W x" for x
    using idle_state [OF inv, of x] that assms(2,4) assms(6) [of x] by auto
  show "vidle W (vidt W c) \<and> vidt W c < vn W" if "c < smp" for c
    using idle_own [OF inv that] assms(2-4) by simp
  show "d = c" if "c < smp" "d < smp" "occ W d (vidt W c)" for c d
    using idle_occ [OF inv that(1,2)] assms(5) [OF that(2), of "vidt V c"] that(1,3) unfolding assms(3) by blast
  show "c = d" if "c < smp" "d < smp" "vidt W c = vidt W d" for c d
    using idle_inj [OF inv that(1,2)] that(3) assms(3) by simp
qed

lemma idle_spawn:
  assumes inv: "idle_inv smp V"
  shows "idle_inv smp (v_spawn j i V)"
proof (rule idle_invI)
  show "vs (v_spawn j i V) x \<in> {Running, Ready}" if "x < vn (v_spawn j i V)" "vidle (v_spawn j i V) x" for x
    using idle_state [OF inv, of x] that by (cases "x = vn V") auto
  show "vidle (v_spawn j i V) (vidt (v_spawn j i V) c) \<and> vidt (v_spawn j i V) c < vn (v_spawn j i V)"
    if "c < smp" for c
    using idle_own [OF inv that] by auto
  show "d = c" if "c < smp" "d < smp" "occ (v_spawn j i V) d (vidt (v_spawn j i V) c)" for c d
    using idle_occ [OF inv that(1,2)] that(3) by (simp add: occ_same)
  show "c = d" if "c < smp" "d < smp" "vidt (v_spawn j i V) c = vidt (v_spawn j i V) d" for c d
    using idle_inj [OF inv that(1,2)] that(3) by simp
qed

section \<open>The operations on the view\<close>

definition view_of :: "'q scheduler_ops \<Rightarrow> 'q sched \<Rightarrow> view" where
  "view_of S st =
     \<lparr>vs = (\<lambda>t. t_state (tasks st t)), von = (\<lambda>t. t_on_cpu (tasks st t)), vidle = (\<lambda>t. t_is_idle (tasks st t)),
      vcur = (\<lambda>c. current (cpus st c)), vph = (\<lambda>c. rq_phase (cpus st c)), vwk = (\<lambda>c. waking (cpus st c)),
      vq = (\<lambda>c. sc_items S (queue (cpus st c))), vidt = (\<lambda>c. idle_task (cpus st c)), vn = id_counter st\<rparr>"

text \<open>What a queue or a timer refers to exists.\<close>

definition refs_ok :: "'q sched \<Rightarrow> bool" where
  "refs_ok st \<longleftrightarrow> (\<forall>w. \<forall>t \<in> set (wqs st w). t < id_counter st) \<and>
     (\<forall>ev \<in> set (timers st). ev_task ev < id_counter st)"

definition sched_inv :: "'q scheduler_ops \<Rightarrow> nat \<Rightarrow> 'q sched \<Rightarrow> bool" where
  "sched_inv S smp st \<longleftrightarrow> view_inv smp (view_of S st) \<and> refs_ok st"

lemma view_sel [simp]:
  "vs (view_of S st) t = t_state (tasks st t)" "von (view_of S st) t = t_on_cpu (tasks st t)"
  "vidle (view_of S st) t = t_is_idle (tasks st t)" "vcur (view_of S st) c = current (cpus st c)"
  "vph (view_of S st) c = rq_phase (cpus st c)" "vwk (view_of S st) c = waking (cpus st c)"
  "vq (view_of S st) c = sc_items S (queue (cpus st c))" "vidt (view_of S st) c = idle_task (cpus st c)"
  "vn (view_of S st) = id_counter st"
  by (simp_all add: view_of_def)

named_theorems op_defs
lemmas low_level_defs [op_defs] = upd_task_def upd_cpu_def set_state_def set_in_wait_queue_def
  set_on_cpu_def timer_ticket_expired_def set_phase_def put_prev_def transition_state_def

lemma laws_put: "sched_laws S \<Longrightarrow> sc_items S (sc_put_prev_task S t b q) = add_mset t (sc_items S q)"
  by (simp add: sched_laws_def)

lemma laws_add: "sched_laws S \<Longrightarrow> sc_items S (sc_add_task S t q) = add_mset t (sc_items S q)"
  by (simp add: sched_laws_def)

lemma laws_pick:
  assumes "sched_laws S"
  shows "case sc_pick_next_task S q of None \<Rightarrow> sc_items S q = {#}
         | Some (t, q') \<Rightarrow> sc_items S q = add_mset t (sc_items S q')"
  using assms unfolding sched_laws_def by blast

lemma view_yield:
  assumes "sched_laws S" "yield_current S c st = Some st'"
  shows "view_of S st' = v_yield c (view_of S st) \<and> wqs st' = wqs st \<and> timers st' = timers st"
  using assms(2)
  by (auto simp: yield_current_def put_task_with_state_def op_defs Let_def view_of_def v_yield_def fun_eq_iff
      laws_put [OF assms(1)] split: if_splits)

lemma view_block:
  assumes "blocked_resched c w st = Some st'"
  shows "view_of S st' = v_stop c Blocked Rescheduling (view_of S st) \<and>
    wqs st' = (wqs st)(w := wqs st w @ [current (cpus st c)]) \<and> timers st' = timers st \<and>
    \<not> t_is_idle (tasks st (current (cpus st c)))"
  using assms
  by (auto simp: blocked_resched_def op_defs Let_def view_of_def v_stop_def fun_eq_iff split: if_splits)

lemma view_alarm:
  assumes "set_alarm_wakeup deadline t st = Some st'"
  shows "view_of S st' = view_of S st \<and> wqs st' = wqs st \<and> cpus st' = cpus st \<and> id_counter st' = id_counter st \<and>
    timers st' = timers st @ [\<lparr>ev_deadline = deadline, ev_ticket = ticket_counter st, ev_task = t\<rparr>]"
  using assms
  by (auto simp: set_alarm_wakeup_def set_timer_ticket_def op_defs Let_def view_of_def fun_eq_iff
      split: if_splits)

lemma view_exit_begin:
  assumes "exit_begin c code st = Some st'"
  shows "view_of S st' = v_stop c Exited Exiting (view_of S st) \<and> wqs st' = wqs st \<and> timers st' = timers st \<and>
    \<not> t_is_idle (tasks st (current (cpus st c)))"
  using assms
  by (auto simp: exit_begin_def op_defs Let_def view_of_def v_stop_def fun_eq_iff split: if_splits)

lemma view_clear:
  assumes "rq_phase (cpus st c) = Switched p"
  shows "view_of S (clear_prev_task_on_cpu c st) = v_clear c p (view_of S st)"
  using assms
  by (auto simp: clear_prev_task_on_cpu_def op_defs view_of_def v_clear_def fun_eq_iff)

lemma view_unblock:
  "view_of S (unblock_task S c j t b st) =
     (if t_state (tasks st t) \<noteq> Blocked then view_of S st
      else if t_is_idle (tasks st t) then (view_of S st)\<lparr>vs := (vs (view_of S st))(t := Ready)\<rparr>
      else v_wake c j t (view_of S st))"
  by (auto simp: unblock_task_def put_task_with_state_def op_defs Let_def view_of_def v_wake_def fun_eq_iff)

lemma view_switch:
  "view_of S (switch_to c t st) = v_switch c t (view_of S st)"
  by (auto simp: switch_to_def op_defs Let_def view_of_def v_switch_def fun_eq_iff)

lemma view_spawn:
  assumes "sched_laws S" "spawn_task S j name st = Some (t, st')"
  shows "view_of S st' = v_spawn j (name = ''idle'') (view_of S st) \<and> wqs st' = wqs st \<and> timers st' = timers st"
  using assms(2)
  by (auto simp: spawn_task_def add_task_def task_new_def new_common_def op_defs Let_def view_of_def v_spawn_def
      fun_eq_iff laws_add [OF assms(1)] split: if_splits)

section \<open>Every update keeps the invariant\<close>

lemma inv_running:
  assumes "view_inv smp V" "c < smp" "vph V c = Executing"
  shows "vs V (vcur V c) = Running" "vcur V c < vn V"
  using ctx_phase [of smp V c] ctx_bound [of smp V c, OF _ _ occ_cur] assms by (auto simp: view_inv_def)

lemma inv_yield:
  assumes "view_inv smp V" "c < smp" "vph V c = Executing"
  shows "view_inv smp (v_yield c V)"
  unfolding view_inv_def
proof (intro conjI)
  show "ctx_inv smp (v_yield c V)" using assms by (auto simp: view_inv_def intro: ctx_yield)
  show "queue_inv smp (v_yield c V)"
    using assms inv_running [OF assms] by (auto simp: view_inv_def intro: queue_yield)
  show "idle_inv smp (v_yield c V)"
    by (rule idle_update [of smp V]) (use assms in \<open>auto simp: view_inv_def occ_same\<close>)
qed

lemma inv_stop:
  assumes "view_inv smp V" "c < smp" "vph V c = Executing" "\<forall>q. p \<noteq> Switched q" "phase_ok s p"
    and "s \<noteq> Running" "s \<noteq> Ready" "\<not> vidle V (vcur V c)"
  shows "view_inv smp (v_stop c s p V)"
  unfolding view_inv_def
proof (intro conjI)
  show "ctx_inv smp (v_stop c s p V)" using assms by (auto simp: view_inv_def intro: ctx_stop)
  show "queue_inv smp (v_stop c s p V)"
    using assms inv_running [OF assms(1-3)] by (auto simp: view_inv_def intro: queue_stop)
  show "idle_inv smp (v_stop c s p V)"
    by (rule idle_update [of smp V]) (use assms in \<open>auto simp: view_inv_def occ_same\<close>)
qed

lemma inv_wake:
  assumes "view_inv smp V" "c < smp" "j < smp" "vs V t = Blocked" "\<not> vidle V t" "t < vn V" "vwk V c = None"
  shows "view_inv smp (v_wake c j t V)"
  unfolding view_inv_def
proof (intro conjI)
  show "ctx_inv smp (v_wake c j t V)" using assms by (auto simp: view_inv_def intro: ctx_wake)
  show "queue_inv smp (v_wake c j t V)" using assms by (auto simp: view_inv_def intro: queue_wake)
  show "idle_inv smp (v_wake c j t V)"
    by (rule idle_update [of smp V]) (use assms in \<open>auto simp: view_inv_def occ_same\<close>)
qed

lemma inv_insert:
  assumes "view_inv smp V" "c < smp" "vwk V c = Some (t, j)" "\<not> von V t"
  shows "view_inv smp (v_insert c j t V)"
  unfolding view_inv_def
proof (intro conjI)
  show "ctx_inv smp (v_insert c j t V)" using assms by (auto simp: view_inv_def intro: ctx_insert)
  show "queue_inv smp (v_insert c j t V)" using assms by (auto simp: view_inv_def intro: queue_insert)
  show "idle_inv smp (v_insert c j t V)"
    by (rule idle_update [of smp V]) (use assms in \<open>auto simp: view_inv_def occ_same\<close>)
qed

lemma inv_clear:
  assumes "view_inv smp V" "c < smp" "vph V c = Switched p"
  shows "view_inv smp (v_clear c p V)"
  unfolding view_inv_def
proof (intro conjI)
  show "ctx_inv smp (v_clear c p V)" using assms by (auto simp: view_inv_def intro: ctx_clear)
  show "queue_inv smp (v_clear c p V)" using assms by (auto simp: view_inv_def intro: queue_clear)
  show "idle_inv smp (v_clear c p V)"
    by (rule idle_update [of smp V]) (use assms in \<open>auto simp: view_inv_def occ_clear\<close>)
qed

lemma inv_spawn: "view_inv smp V \<Longrightarrow> j < smp \<Longrightarrow> view_inv smp (v_spawn j False V)"
  by (simp add: view_inv_def ctx_spawn queue_spawn idle_spawn)

text \<open>Only the phase of a CPU that leaves \<open>Exiting\<close> changes.\<close>

lemma inv_exit_phase:
  assumes "view_inv smp V" "c < smp" "vph V c = Exiting"
  shows "view_inv smp (V\<lparr>vph := (vph V)(c := Rescheduling)\<rparr>)"
proof -
  let ?W = "V\<lparr>vph := (vph V)(c := Rescheduling)\<rparr>"
  have occ: "occ ?W = occ V" using assms(3) by (auto simp: occ_def fun_eq_iff)
  have ex: "vs V (vcur V c) = Exited" using assms ctx_phase [of smp V c] by (simp add: view_inv_def)
  have "ctx_inv smp ?W" using assms(1) ex unfolding view_inv_def ctx_inv_def occ by simp
  moreover have "queue_inv smp ?W" using assms by (simp add: queue_phase view_inv_def)
  moreover have "idle_inv smp ?W" by (rule idle_update [of smp V]) (use assms occ in \<open>auto simp: view_inv_def\<close>)
  ultimately show ?thesis by (simp add: view_inv_def)
qed

lemma inv_switch:
  assumes V: "view_inv smp V" and c: "c < smp" "vph V c = Rescheduling"
    and pick: "(t \<in># vq V c \<and> q = vq V c - {#t#}) \<or> (t = vidt V c \<and> q = vq V c)"
  shows "vs V t = Ready" "view_inv smp (v_switch c t (V\<lparr>vq := (vq V)(c := q)\<rparr>))"
proof -
  let ?V = "V\<lparr>vq := (vq V)(c := q)\<rparr>"
  from V have inv: "ctx_inv smp V" "queue_inv smp V" "idle_inv smp V" by (simp_all add: view_inv_def)
  have idle: "vs V (vidt V c) = Ready"
  proof -
    have "vs V (vidt V c) \<noteq> Running"
    proof
      assume r: "vs V (vidt V c) = Running"
      from ctx_running [OF inv(1) r] obtain d where d: "d < smp" "vcur V d = vidt V c" by blast
      then have "occ V d (vidt V c)" by (simp add: occ_def)
      with idle_occ [OF inv(3) c(1) d(1)] have "d = c" by blast
      with ctx_phase [OF inv(1) c(1)] c(2) d(2) r show False by simp
    qed
    then show ?thesis using idle_own [OF inv(3) c(1)] by auto
  qed
  show "vs V t = Ready" using pick idle q_item [OF inv(2) c(1), of t] by blast
  have t: "t < vn V" "von V t \<longrightarrow> occ V c t"
  proof -
    show "t < vn V" using pick q_item [OF inv(2) c(1), of t] idle_own [OF inv(3) c(1)] by blast
    show "von V t \<longrightarrow> occ V c t"
      using pick q_item [OF inv(2) c(1), of t] idle_occ [OF inv(3) c(1)] ctx_on [OF inv(1), of t] by metis
  qed
  have occ: "occ ?V = occ V" by (auto simp: occ_def fun_eq_iff)
  have "ctx_inv smp ?V" using inv(1) unfolding ctx_inv_def occ by simp
  then have "ctx_inv smp (v_switch c t ?V)" by (rule ctx_switch) (use c t occ in simp_all)
  moreover have "queue_inv smp (v_switch c t ?V)"
    using inv(2) c pick idle_own [OF inv(3) c(1)] by (intro queue_switch) auto
  moreover have "idle_inv smp (v_switch c t ?V)"
  proof (rule idle_update [OF inv(3)])
    show "occ V d x \<or> (\<forall>e < smp. x = vidt V e \<longrightarrow> d = e)" if "d < smp" "occ (v_switch c t ?V) d x" for d x
    proof (cases "d = c \<and> x = t")
      case True
      then show ?thesis using pick q_item [OF inv(2) c(1), of t] idle_own [OF inv(3)] idle_inj [OF inv(3) c(1)]
        by metis
    next
      case False
      with that c(2) occ_switch [of ?V c t d x] occ show ?thesis by (auto simp: occ_def split: if_splits)
    qed
  qed auto
  ultimately show "view_inv smp (v_switch c t ?V)" by (simp add: view_inv_def)
qed

section \<open>Steps of the machine\<close>

text \<open>
  A machine of \<open>smp\<close> CPUs. In \<open>Executing\<close> a CPU runs arbitrary kernel code of its current task, which
  may call any of the operations; interrupts are enabled, so that timer events fire. \<open>j\<close> is the run
  queue \<open>select_run_queue\<close> chose. A CPU waiting for \<open>on_cpu\<close> does nothing else.
\<close>

inductive sched_step :: "'q scheduler_ops \<Rightarrow> nat \<Rightarrow> 'q sched \<Rightarrow> 'q sched \<Rightarrow> bool" for S smp where
  step_yield: "c < smp \<Longrightarrow> rq_phase (cpus st c) = Executing \<Longrightarrow> waking (cpus st c) = None \<Longrightarrow>
     yield_current S c st = Some st' \<Longrightarrow> sched_step S smp st st'"
| step_block: "c < smp \<Longrightarrow> rq_phase (cpus st c) = Executing \<Longrightarrow> waking (cpus st c) = None \<Longrightarrow>
     blocked_resched c w st = Some st' \<Longrightarrow> sched_step S smp st st'"
| step_sleep: "c < smp \<Longrightarrow> rq_phase (cpus st c) = Executing \<Longrightarrow> waking (cpus st c) = None \<Longrightarrow>
     sleep_until c now deadline st = Some st' \<Longrightarrow> sched_step S smp st st'"
| step_wait_timeout: "c < smp \<Longrightarrow> rq_phase (cpus st c) = Executing \<Longrightarrow> waking (cpus st c) = None \<Longrightarrow>
     wait_timeout_enter c w now dur st = Some st' \<Longrightarrow> sched_step S smp st st'"
| step_cancel: "c < smp \<Longrightarrow> rq_phase (cpus st c) = Executing \<Longrightarrow>
     sched_step S smp st (cancel_events w (current (cpus st c)) b st)"
| step_notify: "c < smp \<Longrightarrow> j < smp \<Longrightarrow> rq_phase (cpus st c) \<in> {Executing, Exiting} \<Longrightarrow>
     waking (cpus st c) = None \<Longrightarrow> notify_one S c j w b st = (r, st') \<Longrightarrow> sched_step S smp st st'"
| step_notify_task: "c < smp \<Longrightarrow> j < smp \<Longrightarrow> rq_phase (cpus st c) = Executing \<Longrightarrow>
     waking (cpus st c) = None \<Longrightarrow> notify_task S c j w b t st = (r, st') \<Longrightarrow> sched_step S smp st st'"
| step_requeue: "requeue cnt w w' st = (n, st') \<Longrightarrow> sched_step S smp st st'"
| step_timer: "c < smp \<Longrightarrow> j < smp \<Longrightarrow> rq_phase (cpus st c) = Executing \<Longrightarrow> waking (cpus st c) = None \<Longrightarrow>
     sched_step S smp st (check_event S c j now ev st)"
| step_finish_wake: "c < smp \<Longrightarrow> sched_step S smp st (finish_wake S c b st)"
| step_exit: "c < smp \<Longrightarrow> rq_phase (cpus st c) = Executing \<Longrightarrow> waking (cpus st c) = None \<Longrightarrow>
     exit_begin c code st = Some st' \<Longrightarrow> sched_step S smp st st'"
| step_exit_finish: "c < smp \<Longrightarrow> j < smp \<Longrightarrow> rq_phase (cpus st c) = Exiting \<Longrightarrow> waking (cpus st c) = None \<Longrightarrow>
     wqs st (WaitForExit (current (cpus st c))) = [] \<Longrightarrow> sched_step S smp st (exit_finish S c j st)"
| step_resched: "c < smp \<Longrightarrow> rq_phase (cpus st c) = Rescheduling \<Longrightarrow> waking (cpus st c) = None \<Longrightarrow>
     resched S c st = Some st' \<Longrightarrow> sched_step S smp st st'"
| step_clear: "c < smp \<Longrightarrow> sched_step S smp st (clear_prev_task_on_cpu c st)"
| step_spawn: "c < smp \<Longrightarrow> j < smp \<Longrightarrow> rq_phase (cpus st c) = Executing \<Longrightarrow> name \<noteq> ''idle'' \<Longrightarrow>
     spawn_task S j name st = Some (t, st') \<Longrightarrow> sched_step S smp st st'"

text \<open>
  The machine after \<open>init\<close> and \<open>init_secondary\<close>: CPU 0 runs the main task 2, with the idle task 1 and
  the garbage collector 3; CPU \<open>c\<close> runs its idle task \<open>2 c + 2\<close>, with the garbage collector \<open>2 c + 3\<close>.
  Identifiers start at 1.
\<close>

definition sched_init :: "'q scheduler_ops \<Rightarrow> nat \<Rightarrow> 'q sched" where
  "sched_init S smp =
     \<lparr>tasks = (\<lambda>t. if t = 0 then new_common\<lparr>t_state := Exited\<rparr>
                   else if t = 1 then task_new ''idle''
                   else if t = 2 then (task_new_init ''main'')\<lparr>t_state := Running\<rparr>
                   else if 4 \<le> t \<and> t < 2 * smp + 2 \<and> even t then (task_new_init ''idle'')\<lparr>t_state := Running\<rparr>
                   else task_new ''gc''),
      cpus = (\<lambda>c. \<lparr>current = 2 * c + 2, rq_phase = Executing, waking = None,
                  queue = sc_add_task S (2 * c + 3) (sc_new S),
                  idle_task = (if c = 0 then 1 else 2 * c + 2), exited_tasks = []\<rparr>),
      wqs = (\<lambda>_. []), timers = [], ticket_counter = 1, id_counter = 2 * smp + 2\<rparr>"

inductive sched_reachable :: "'q scheduler_ops \<Rightarrow> nat \<Rightarrow> 'q sched \<Rightarrow> bool" for S smp where
  reach_init: "sched_reachable S smp (sched_init S smp)"
| reach_step: "sched_reachable S smp st \<Longrightarrow> sched_step S smp st st' \<Longrightarrow> sched_reachable S smp st'"

lemma view_same [simp]:
  "view_of S (st\<lparr>wqs := w\<rparr>) = view_of S st" "view_of S (st\<lparr>timers := x\<rparr>) = view_of S st"
  "view_of S (set_in_wait_queue t b st) = view_of S st" "view_of S (timer_ticket_expired t st) = view_of S st"
  "view_of S (upd_cpu c (\<lambda>x. x\<lparr>exited_tasks := f x\<rparr>) st) = view_of S st"
  by (auto simp: view_of_def op_defs fun_eq_iff)

lemma refs_same [simp]:
  "wqs (set_in_wait_queue t b st) = wqs st" "timers (set_in_wait_queue t b st) = timers st"
  "id_counter (set_in_wait_queue t b st) = id_counter st"
  "wqs (unblock_task S c j t b st) = wqs st" "timers (unblock_task S c j t b st) = timers st"
  "id_counter (unblock_task S c j t b st) = id_counter st"
  "wqs (upd_cpu c f st) = wqs st" "timers (upd_cpu c f st) = timers st"
  "id_counter (upd_cpu c f st) = id_counter st"
  "wqs (timer_ticket_expired t st) = wqs st" "timers (timer_ticket_expired t st) = timers st"
  "id_counter (timer_ticket_expired t st) = id_counter st"
  by (auto simp: op_defs unblock_task_def put_task_with_state_def Let_def)

lemma refs_update:
  assumes "refs_ok st" "id_counter st \<le> id_counter st'"
    and "\<And>w t. t \<in> set (wqs st' w) \<Longrightarrow> (\<exists>w'. t \<in> set (wqs st w')) \<or> t < id_counter st"
    and "\<And>ev. ev \<in> set (timers st') \<Longrightarrow> ev \<in> set (timers st) \<or> ev_task ev < id_counter st"
  shows "refs_ok st'"
  using assms unfolding refs_ok_def by (meson order_less_le_trans)

lemma refs_wq: "refs_ok st \<Longrightarrow> t \<in> set (wqs st w) \<Longrightarrow> t < id_counter st"
  by (auto simp: refs_ok_def)

lemma sched_inv_keep:
  assumes "sched_inv S smp st" "view_of S st' = view_of S st"
    and "\<And>w t. t \<in> set (wqs st' w) \<Longrightarrow> (\<exists>w'. t \<in> set (wqs st w')) \<or> t < id_counter st"
    and "\<And>ev. ev \<in> set (timers st') \<Longrightarrow> ev \<in> set (timers st) \<or> ev_task ev < id_counter st"
  shows "sched_inv S smp st'"
proof -
  have "id_counter st' = id_counter st" using assms(2) view_sel(9) [of S st] view_sel(9) [of S st'] by simp
  then show ?thesis using assms refs_update [of st st'] by (auto simp: sched_inv_def)
qed

lemma keep_wqs:
  assumes "sched_inv S smp st" "\<And>x t. t \<in> set (f x) \<Longrightarrow> \<exists>y. t \<in> set (wqs st y)"
  shows "sched_inv S smp (st\<lparr>wqs := f\<rparr>)"
  by (rule sched_inv_keep [OF assms(1)]) (use assms(2) in simp_all)

lemma keep_wq:
  assumes "sched_inv S smp st" "set ts \<subseteq> set (wqs st w)"
  shows "sched_inv S smp (st\<lparr>wqs := (wqs st)(w := ts)\<rparr>)"
  by (rule keep_wqs [OF assms(1)]) (metis assms(2) fun_upd_apply subsetD)

lemma keep_unblock:
  assumes "sched_inv S smp st" "c < smp" "j < smp" "waking (cpus st c) = None" "t < id_counter st"
  shows "sched_inv S smp (unblock_task S c j t b st)"
proof -
  have v: "view_inv smp (view_of S st)" and r: "refs_ok st" using assms(1) by (simp_all add: sched_inv_def)
  have idle: "\<not> t_is_idle (tasks st t)" if "t_state (tasks st t) = Blocked"
    using idle_state [of smp "view_of S st" t] v that assms(5) by (auto simp: view_inv_def)
  have "view_inv smp (view_of S (unblock_task S c j t b st))"
    using v idle inv_wake [of smp "view_of S st" c j t] assms(2-5) by (simp add: view_unblock)
  moreover have "refs_ok (unblock_task S c j t b st)" by (rule refs_update [OF r]) auto
  ultimately show ?thesis by (simp add: sched_inv_def)
qed

lemma keep_unblock_one:
  assumes "sched_inv S smp st" "c < smp" "j < smp" "waking (cpus st c) = None" "t < id_counter st"
  shows "sched_inv S smp (unblock_one_task S c j t b st)"
  unfolding unblock_one_task_def
proof (rule keep_unblock)
  show "sched_inv S smp (set_in_wait_queue t False st)" by (rule sched_inv_keep [OF assms(1)]) auto
  show "waking (cpus (set_in_wait_queue t False st) c) = None" using assms(4) by (simp add: op_defs)
qed (use assms in auto)

lemma keep_notify_one:
  assumes "sched_inv S smp st" "c < smp" "j < smp" "waking (cpus st c) = None"
    and "notify_one S c j w b st = (r, st')"
  shows "sched_inv S smp st'"
proof (cases "wqs st w")
  case (Cons t ts)
  let ?st = "st\<lparr>wqs := (wqs st)(w := ts)\<rparr>"
  have "sched_inv S smp ?st" by (rule keep_wq [OF assms(1)]) (use Cons in auto)
  moreover have "t < id_counter st" using assms(1) Cons refs_wq [of st t w] by (auto simp: sched_inv_def)
  ultimately show ?thesis
    using assms(2-5) Cons keep_unblock_one [of S smp ?st c j t b] by (auto simp: notify_one_def)
qed (use assms in \<open>auto simp: notify_one_def\<close>)

lemma keep_notify_task:
  assumes "sched_inv S smp st" "c < smp" "j < smp" "waking (cpus st c) = None"
    and "notify_task S c j w b t st = (r, st')"
  shows "sched_inv S smp st'"
proof (cases "t \<in> set (wqs st w)")
  case True
  let ?st = "st\<lparr>wqs := (wqs st)(w := remove1 t (wqs st w))\<rparr>"
  have "sched_inv S smp ?st" by (rule keep_wq [OF assms(1)]) (rule set_remove1_subset)
  moreover have "t < id_counter st" using assms(1) True refs_wq [of st t w] by (auto simp: sched_inv_def)
  ultimately show ?thesis
    using assms(2-5) True keep_unblock_one [of S smp ?st c j t b] by (auto simp: notify_task_def)
qed (use assms in \<open>auto simp: notify_task_def\<close>)

lemma keep_requeue:
  assumes "sched_inv S smp st" "requeue cnt w w' st = (n, st')"
  shows "sched_inv S smp st'"
proof -
  let ?st = "st\<lparr>wqs := (wqs st)(w := drop n (wqs st w))\<rparr>" and ?ts = "take n (wqs st w)"
  have st': "st' = (if ?ts = [] then ?st else ?st\<lparr>wqs := (wqs ?st)(w' := wqs ?st w' @ ?ts)\<rparr>)"
    using assms(2) by (auto simp: requeue_def Let_def)
  have "sched_inv S smp ?st" by (rule keep_wq [OF assms(1)]) (rule set_drop_subset)
  moreover have "sched_inv S smp (st\<lparr>wqs := (wqs ?st)(w' := wqs ?st w' @ ?ts)\<rparr>)"
  proof (rule keep_wqs [OF assms(1)])
    show "\<exists>y. t \<in> set (wqs st y)" if "t \<in> set (((wqs ?st)(w' := wqs ?st w' @ ?ts)) x)" for x t
      using that in_set_takeD [of t n "wqs st w"] in_set_dropD [of t n "wqs st w"] by (auto split: if_splits)
  qed
  ultimately show ?thesis using st' by simp
qed

lemma keep_cancel:
  assumes "sched_inv S smp st"
  shows "sched_inv S smp (cancel_events w t b st)"
  by (rule sched_inv_keep [OF assms]) (auto simp: cancel_events_def Let_def split: if_splits)

lemma keep_timer:
  assumes "sched_inv S smp st" "c < smp" "j < smp" "waking (cpus st c) = None"
  shows "sched_inv S smp (check_event S c j now ev st)"
proof (cases "ev \<in> set (timers st)")
  case True
  let ?st = "st\<lparr>timers := remove1 ev (timers st)\<rparr>"
  have "sched_inv S smp ?st"
    by (rule sched_inv_keep [OF assms(1)]) (use set_remove1_subset [of ev "timers st"] in auto)
  moreover have "ev_task ev < id_counter st" using assms(1) True by (auto simp: sched_inv_def refs_ok_def)
  ultimately show ?thesis
    using assms keep_unblock [of S smp ?st c j "ev_task ev" True] by (auto simp: check_event_def timer_callback_def)
qed (use assms in \<open>auto simp: check_event_def\<close>)

lemma keep_finish_wake:
  assumes "sched_laws S" "sched_inv S smp st" "c < smp"
  shows "sched_inv S smp (finish_wake S c b st)"
proof (cases "\<exists>t j. waking (cpus st c) = Some (t, j) \<and> \<not> t_on_cpu (tasks st t)")
  case True
  then obtain t j where w: "waking (cpus st c) = Some (t, j)" "\<not> t_on_cpu (tasks st t)" by blast
  have "view_of S (finish_wake S c b st) = v_insert c j t (view_of S st)"
    using w by (auto simp: finish_wake_def op_defs view_of_def v_insert_def fun_eq_iff laws_put [OF assms(1)])
  then have "view_inv smp (view_of S (finish_wake S c b st))"
    using inv_insert [of smp "view_of S st" c t j] assms w by (simp add: sched_inv_def)
  moreover have "refs_ok (finish_wake S c b st)"
    using assms(2) w by (auto simp: sched_inv_def finish_wake_def op_defs refs_ok_def)
  ultimately show ?thesis by (simp add: sched_inv_def)
next
  case False
  then have "finish_wake S c b st = st" by (auto simp: finish_wake_def split: option.splits)
  with assms show ?thesis by simp
qed

lemma keep_clear:
  assumes "sched_inv S smp st" "c < smp"
  shows "sched_inv S smp (clear_prev_task_on_cpu c st)"
proof (cases "rq_phase (cpus st c)")
  case (Switched p)
  then have "view_inv smp (view_of S (clear_prev_task_on_cpu c st))"
    using assms inv_clear [of smp "view_of S st" c p] by (simp add: view_clear sched_inv_def)
  moreover have "refs_ok (clear_prev_task_on_cpu c st)"
    using assms Switched by (auto simp: sched_inv_def clear_prev_task_on_cpu_def op_defs refs_ok_def)
  ultimately show ?thesis by (simp add: sched_inv_def)
qed (use assms in \<open>simp_all add: clear_prev_task_on_cpu_def\<close>)

text \<open>A step whose effect on the view is known, and which adds no references but to existing tasks.\<close>

lemma sched_inv_view:
  assumes "sched_inv S smp st" "view_of S st' = V" "view_inv smp V" "id_counter st \<le> vn V"
    and "\<And>w t. t \<in> set (wqs st' w) \<Longrightarrow> (\<exists>w'. t \<in> set (wqs st w')) \<or> t < id_counter st"
    and "\<And>ev. ev \<in> set (timers st') \<Longrightarrow> ev \<in> set (timers st) \<or> ev_task ev < id_counter st"
  shows "sched_inv S smp st'"
  using assms refs_update [of st st'] view_sel(9) [of S st'] by (auto simp: sched_inv_def)

lemma running_bound:
  assumes "sched_inv S smp st" "c < smp" "rq_phase (cpus st c) = Executing"
  shows "current (cpus st c) < id_counter st" "t_state (tasks st (current (cpus st c))) = Running"
  using inv_running [of smp "view_of S st" c] assms by (simp_all add: sched_inv_def)

lemma keep_yield:
  assumes "sched_laws S" "sched_inv S smp st" "c < smp" "rq_phase (cpus st c) = Executing"
    and "yield_current S c st = Some st'"
  shows "sched_inv S smp st'"
  using view_yield [OF assms(1,5)] assms inv_yield [of smp "view_of S st" c]
  by (intro sched_inv_view [OF assms(2), of _ "v_yield c (view_of S st)"]) (auto simp: sched_inv_def)

lemma keep_block:
  assumes "sched_inv S smp st" "c < smp" "rq_phase (cpus st c) = Executing"
    and "blocked_resched c w st = Some st'"
  shows "sched_inv S smp st'"
  using view_block [OF assms(4), of S] assms inv_stop [of smp "view_of S st" c Rescheduling Blocked]
    running_bound [OF assms(1-3)]
  by (intro sched_inv_view [OF assms(1), of _ "v_stop c Blocked Rescheduling (view_of S st)"])
    (auto simp: sched_inv_def split: if_splits)

lemma keep_alarm:
  assumes "sched_inv S smp st" "set_alarm_wakeup deadline t st = Some st'" "t < id_counter st"
  shows "sched_inv S smp st'"
  using view_alarm [OF assms(2), of S] assms(3) by (intro sched_inv_keep [OF assms(1)]) auto

lemma keep_sleep:
  assumes "sched_inv S smp st" "c < smp" "rq_phase (cpus st c) = Executing"
    and "sleep_until c now deadline st = Some st'"
  shows "sched_inv S smp st'"
proof (cases "now < deadline")
  case True
  let ?t = "current (cpus st c)"
  from assms(4) True obtain st1 where st1: "set_alarm_wakeup deadline ?t st = Some st1"
    and st': "st' = set_phase c Rescheduling (set_state ?t Blocked st1)" and "\<not> t_is_idle (tasks st ?t)"
    by (auto simp: sleep_until_def Let_def split: if_splits option.splits)
  note al = view_alarm [OF st1, of S]
  have i1: "sched_inv S smp st1" using keep_alarm [OF assms(1) st1] running_bound [OF assms(1-3)] by simp
  have v: "view_of S st' = v_stop c Blocked Rescheduling (view_of S st1)"
    using al by (auto simp: st' op_defs view_of_def v_stop_def fun_eq_iff)
  have "\<not> vidle (view_of S st1) (vcur (view_of S st1) c)"
    unfolding conjunct1 [OF al] using \<open>\<not> t_is_idle (tasks st ?t)\<close> by simp
  then have "view_inv smp (v_stop c Blocked Rescheduling (view_of S st1))"
    using i1 al assms(2,3) by (intro inv_stop) (auto simp: sched_inv_def)
  then show ?thesis by (intro sched_inv_view [OF i1 v]) (auto simp: st' op_defs)
qed (use assms in \<open>auto simp: sleep_until_def Let_def split: if_splits\<close>)

lemma keep_wait_timeout:
  assumes "sched_inv S smp st" "c < smp" "rq_phase (cpus st c) = Executing"
    and "wait_timeout_enter c w now dur st = Some st'"
  shows "sched_inv S smp st'"
proof -
  from assms(4) obtain st1 where st1: "set_alarm_wakeup (now + dur) (current (cpus st c)) st = Some st1"
    and b: "blocked_resched c w st1 = Some st'"
    by (auto simp: wait_timeout_enter_def split: option.splits)
  have "sched_inv S smp st1" using keep_alarm [OF assms(1) st1] running_bound [OF assms(1-3)] by simp
  then show ?thesis using keep_block [OF _ assms(2) _ b] view_alarm [OF st1, of S] assms(3) by simp
qed

lemma keep_exit_begin:
  assumes "sched_inv S smp st" "c < smp" "rq_phase (cpus st c) = Executing" "exit_begin c code st = Some st'"
  shows "sched_inv S smp st'"
  using view_exit_begin [OF assms(4), of S] assms inv_stop [of smp "view_of S st" c Exiting Exited]
  by (intro sched_inv_view [OF assms(1), of _ "v_stop c Exited Exiting (view_of S st)"]) (auto simp: sched_inv_def)

lemma notify_one_phase: "notify_one S c j w b st = (r, st') \<Longrightarrow> rq_phase (cpus st' c) = rq_phase (cpus st c)"
  by (auto simp: notify_one_def unblock_one_task_def unblock_task_def put_task_with_state_def op_defs Let_def
      split: list.splits if_splits)

lemma keep_exit_finish:
  assumes "sched_inv S smp st" "c < smp" "j < smp" "rq_phase (cpus st c) = Exiting" "waking (cpus st c) = None"
  shows "sched_inv S smp (exit_finish S c j st)"
proof -
  let ?st = "upd_cpu c (\<lambda>x. x\<lparr>exited_tasks := exited_tasks x @ [current x]\<rparr>) st"
  obtain r st2 where n: "notify_one S c j (WAIT_FOR_EXIT c) False ?st = (r, st2)" by fastforce
  have i1: "sched_inv S smp ?st" by (rule sched_inv_keep [OF assms(1)]) auto
  then have i2: "sched_inv S smp st2"
    using keep_notify_one [OF i1 assms(2,3) _ n] assms(5) by (simp add: op_defs)
  have ph: "rq_phase (cpus st2 c) = Exiting" using notify_one_phase [OF n] assms(4) by (simp add: op_defs)
  have e: "exit_finish S c j st = set_phase c Rescheduling st2" using n by (simp add: exit_finish_def Let_def)
  have v: "view_of S (exit_finish S c j st) = (view_of S st2)\<lparr>vph := (vph (view_of S st2))(c := Rescheduling)\<rparr>"
    by (auto simp: e view_of_def op_defs fun_eq_iff)
  show ?thesis
    by (rule sched_inv_view [OF i2 v])
      (use inv_exit_phase [of smp "view_of S st2" c] i2 ph assms(2) in \<open>auto simp: sched_inv_def e op_defs\<close>)
qed

text \<open>\<open>resched\<close> always finds a ready task.\<close>

lemma resched_ok:
  assumes "sched_laws S" "sched_inv S smp st" "c < smp" "rq_phase (cpus st c) = Rescheduling"
  shows "\<exists>st'. resched S c st = Some st' \<and> sched_inv S smp st'"
proof -
  define p where "p = (case sc_pick_next_task S (queue (cpus st c)) of
      Some (t, q) \<Rightarrow> (t, upd_cpu c (\<lambda>x. x\<lparr>queue := q\<rparr>) st) | None \<Rightarrow> (idle_task (cpus st c), st))"
  obtain t st1 where p1: "p = (t, st1)" by fastforce
  let ?V = "view_of S st" and ?q = "sc_items S (queue (cpus st1 c))"
  have v1: "view_of S st1 = ?V\<lparr>vq := (vq ?V)(c := ?q)\<rparr>" and ts: "tasks st1 = tasks st"
    and refs: "wqs st1 = wqs st" "timers st1 = timers st"
    using p1 by (auto simp: p_def op_defs view_of_def fun_eq_iff split: option.splits)
  have pick: "(t \<in># vq ?V c \<and> ?q = vq ?V c - {#t#}) \<or> (t = vidt ?V c \<and> ?q = vq ?V c)"
    using p1 laws_pick [OF assms(1), of "queue (cpus st c)"] by (auto simp: p_def op_defs split: option.splits)
  note sw = inv_switch [of smp ?V c t ?q, OF _ assms(3) _ pick]
  have vi: "view_inv smp ?V" using assms(2) by (simp add: sched_inv_def)
  have r: "resched S c st = Some (switch_to c t st1)"
    using sw(1) vi assms(4) p1 by (simp add: resched_def p_def ts)
  have "view_of S (switch_to c t st1) = v_switch c t (?V\<lparr>vq := (vq ?V)(c := ?q)\<rparr>)" by (simp add: view_switch v1)
  then have "sched_inv S smp (switch_to c t st1)"
    by (rule sched_inv_view [OF assms(2)])
      (use sw(2) vi assms(4) refs in \<open>auto simp: v_switch_def Let_def switch_to_def op_defs split: if_splits\<close>)
  with r show ?thesis by blast
qed

lemma keep_spawn:
  assumes "sched_laws S" "sched_inv S smp st" "j < smp" "name \<noteq> ''idle''"
    and "spawn_task S j name st = Some (t, st')"
  shows "sched_inv S smp st'"
  using view_spawn [OF assms(1,5)] assms inv_spawn [of smp "view_of S st" j]
  by (intro sched_inv_view [OF assms(2), of _ "v_spawn j False (view_of S st)"]) (auto simp: sched_inv_def)

lemmas keep_ops = keep_yield keep_block keep_sleep keep_wait_timeout keep_cancel keep_notify_one keep_notify_task
  keep_requeue keep_timer keep_finish_wake keep_exit_begin keep_exit_finish keep_clear keep_spawn

lemma step_keeps:
  assumes "sched_step S smp st st'" "sched_laws S" "sched_inv S smp st"
  shows "sched_inv S smp st'"
  using assms
proof (induction rule: sched_step.induct)
  case (step_resched c st st')
  then show ?case using resched_ok [of S smp st c] by auto
qed (auto intro: keep_ops)

section \<open>The initial state\<close>

lemma laws_new: "sched_laws S \<Longrightarrow> sc_items S (sc_new S) = {#}"
  by (simp add: sched_laws_def)

lemma init_sel:
  assumes "sched_laws S"
  shows "vcur (view_of S (sched_init S smp)) c = 2 * c + 2" "vph (view_of S (sched_init S smp)) c = Executing"
    "vwk (view_of S (sched_init S smp)) c = None" "vq (view_of S (sched_init S smp)) c = {#2 * c + 3#}"
    "vidt (view_of S (sched_init S smp)) c = (if c = 0 then 1 else 2 * c + 2)"
    "vn (view_of S (sched_init S smp)) = 2 * smp + 2"
    "vs (view_of S (sched_init S smp)) t =
       (if t = 0 then Exited else if t = 2 \<or> (4 \<le> t \<and> t < 2 * smp + 2 \<and> even t) then Running else Ready)"
    "von (view_of S (sched_init S smp)) t \<longleftrightarrow> t = 2 \<or> (4 \<le> t \<and> t < 2 * smp + 2 \<and> even t)"
    "vidle (view_of S (sched_init S smp)) t \<longleftrightarrow> t = 1 \<or> (4 \<le> t \<and> t < 2 * smp + 2 \<and> even t)"
  using laws_new [OF assms] laws_add [OF assms]
  by (auto simp: sched_init_def task_new_def task_new_init_def new_common_def Let_def view_of_def)

lemma init_occ: "sched_laws S \<Longrightarrow> occ (view_of S (sched_init S smp)) c t \<longleftrightarrow> t = 2 * c + 2"
  by (auto simp: occ_def init_sel simp del: view_sel)

lemma init_cpu:
  assumes "0 < smp"
  shows "(t::nat) = 2 \<or> (4 \<le> t \<and> t < 2 * smp + 2 \<and> even t) \<longleftrightarrow> (\<exists>c < smp. t = 2 * c + 2)"
proof
  assume "t = 2 \<or> (4 \<le> t \<and> t < 2 * smp + 2 \<and> even t)"
  then have "(t - 2) div 2 < smp \<and> t = 2 * ((t - 2) div 2) + 2" using assms by auto
  then show "\<exists>c < smp. t = 2 * c + 2" by blast
qed auto

lemma init_inv:
  assumes "sched_laws S" "0 < smp"
  shows "sched_inv S smp (sched_init S smp)"
proof -
  let ?V = "view_of S (sched_init S smp)"
  note sel = init_sel [OF assms(1)] init_occ [OF assms(1)]
  have "ctx_inv smp ?V" unfolding ctx_inv_def sel init_cpu [OF assms(2)] by auto
  moreover have "queue_inv smp ?V"
    unfolding queue_inv_def sel
    apply (intro conjI)
    subgoal by auto
    subgoal by auto
    subgoal by simp
    subgoal
      apply (intro allI impI)
      subgoal for t
        apply (intro disjI1 exI [of _ "(t - 3) div 2"])
        apply (auto split: if_splits)
        done
      done
    done
  moreover have "idle_inv smp ?V"
    unfolding idle_inv_def sel by (auto split: if_splits)
  moreover have "refs_ok (sched_init S smp)" by (simp add: refs_ok_def sched_init_def)
  ultimately show ?thesis by (simp add: sched_inv_def view_inv_def)
qed

lemma sched_reachable_inv:
  assumes "sched_reachable S smp st" "sched_laws S" "0 < smp"
  shows "sched_inv S smp st"
  using assms by induction (auto intro: init_inv step_keeps)

section \<open>A queue to run with\<close>

text \<open>A first-in first-out policy, the one the kernel is built with, has the laws.\<close>

definition fifo_ops :: "nat list scheduler_ops" where
  "fifo_ops =
     \<lparr>sc_new = [], sc_add_task = (\<lambda>t q. q @ [t]), sc_put_prev_task = (\<lambda>t _ q. q @ [t]),
      sc_pick_next_task = (\<lambda>q. case q of [] \<Rightarrow> None | t # ts \<Rightarrow> Some (t, ts)), sc_items = mset\<rparr>"

lemma fifo_laws: "sched_laws fifo_ops"
  by (auto simp: sched_laws_def fifo_ops_def split: list.splits)

lemma init_reachable_fifo: "sched_reachable fifo_ops 2 (sched_init fifo_ops 2)"
  by (rule reach_init)

section \<open>Properties\<close>

definition uses_context :: "'q sched \<Rightarrow> nat \<Rightarrow> nat \<Rightarrow> bool" where
  "uses_context st c t \<longleftrightarrow> current (cpus st c) = t \<or> rq_phase (cpus st c) = Switched t"

lemma occ_uses: "occ (view_of S st) c t = uses_context st c t"
  by (simp add: occ_def uses_context_def)

text \<open>
  C1: No two CPUs ever use the context of the same task, whatever the CPUs do in whatever order: run it,
  or are still switching away from it. The flag \<open>on_cpu\<close> by which a waking CPU decides whether it may
  hand the task on is exact, and a task marked as running is the current task of a CPU.\<close>

theorem one_cpu_per_task:
  assumes "sched_laws S" "0 < smp" "sched_reachable S smp st"
  shows "(\<forall>c < smp. \<forall>d < smp. \<forall>t. uses_context st c t \<longrightarrow> uses_context st d t \<longrightarrow> c = d) \<and>
    (\<forall>t. t_on_cpu (tasks st t) \<longleftrightarrow> (\<exists>c < smp. uses_context st c t)) \<and>
    (\<forall>t. t_state (tasks st t) = Running \<longrightarrow> (\<exists>c < smp. current (cpus st c) = t))"
proof -
  have "ctx_inv smp (view_of S st)"
    using sched_reachable_inv [OF assms(3,1,2)] by (simp add: sched_inv_def view_inv_def)
  then show ?thesis unfolding ctx_inv_def occ_uses by simp
qed

theorem one_cpu_per_task_witness:
  "\<exists>st. sched_reachable fifo_ops 2 st \<and> uses_context st 1 4 \<and> \<not> uses_context st 0 4 \<and> t_on_cpu (tasks st 4)"
proof -
  let ?st = "sched_init fifo_ops 2"
  note p = one_cpu_per_task [OF fifo_laws zero_less_numeral init_reachable_fifo]
  have u: "uses_context ?st 1 4" by (simp add: uses_context_def sched_init_def)
  then have "\<not> uses_context ?st 0 4" using p by (metis one_less_numeral_iff semiring_norm(76) zero_less_numeral zero_neq_one)
  moreover have "t_on_cpu (tasks ?st 4)" using p u by (metis one_less_numeral_iff semiring_norm(76))
  ultimately show ?thesis using u init_reachable_fifo by blast
qed





lemma select_loop_reaches:
  assumes "cpumask (unat (counter + of_nat n) mod smp)" "0 < smp"
  shows "\<exists>i k. select_index_loop smp cpumask counter = Some (i, k) \<and> i < smp \<and> cpumask i"
  using assms
proof (induction n arbitrary: counter)
  case (Suc n)
  from Suc.prems have "cpumask (unat ((counter + 1) + of_nat n) mod smp)" by (simp add: algebra_simps)
  from Suc.IH [OF this Suc.prems(2)] show ?case
    using Suc.prems(2) by (subst select_index_loop.simps) (auto simp: Let_def)
qed (subst select_index_loop.simps, simp add: Let_def)

text \<open>
  The loop that selects a run queue ends whenever the affinity mask allows some CPU, wherever the
  shared counter stands and although it wraps around; it returns an allowed CPU. With an empty mask the
  assertion before the loop fails.\<close>

theorem select_run_queue_index_terminates:
  fixes counter :: usize
  assumes "0 < smp" "smp \<le> 2 ^ 64"
  shows "(case select_run_queue_index smp cpumask counter of
      None \<Rightarrow> \<forall>i < smp. \<not> cpumask i
    | Some (i, k) \<Rightarrow> i < smp \<and> cpumask i)"
proof (cases "\<exists>i < smp. cpumask i")
  case True
  then obtain i where i: "i < smp" "cpumask i" by blast
  let ?n = "unat (of_nat i - counter)"
  have "unat (counter + of_nat ?n) = unat (of_nat i :: usize)" by simp
  also have "\<dots> = i" using i assms(2) by (simp add: unat_of_nat take_bit_nat_eq_self_iff)
  finally have "cpumask (unat (counter + of_nat ?n) mod smp)" using i by simp
  from select_loop_reaches [of cpumask counter ?n smp, OF this assms(1)] show ?thesis
    using True by (auto simp: select_run_queue_index_def)
qed (auto simp: select_run_queue_index_def)

theorem select_run_queue_index_terminates_witness:
  "\<exists>k. select_run_queue_index 3 (\<lambda>i. i = 1) (- 1) = Some (1, k)"
  using select_run_queue_index_terminates [of 3 "\<lambda>i. i = 1" "- 1"]
  by (cases "select_run_queue_index 3 (\<lambda>i. i = 1) (- 1)") (auto dest: spec [of _ 1])

text \<open>
  A task that happens to be called \<open>idle\<close> is taken for an idle task: once it runs, blocking and
  exiting fail the scheduler's assertions, and yielding leaves it in no run queue.\<close>

theorem task_called_idle:
  assumes "spawn_task S j ''idle'' st = Some (t, st1)"
    and "current (cpus st2 c) = t" "tasks st2 t = (tasks st1 t)\<lparr>t_state := Running\<rparr>"
  shows "blocked_resched c w st2 = None \<and> exit_begin c code st2 = None \<and>
    (\<exists>st3. yield_current S c st2 = Some st3 \<and> t_state (tasks st3 t) = Ready \<and>
      (\<forall>d. queue (cpus st3 d) = queue (cpus st2 d)))"
proof -
  have "t_is_idle (tasks st1 t)"
    using assms(1) by (auto simp: spawn_task_def add_task_def task_new_def op_defs Let_def split: if_splits)
  then show ?thesis
    using assms(2,3)
    by (auto simp: blocked_resched_def exit_begin_def yield_current_def put_task_with_state_def op_defs Let_def)
qed

theorem task_called_idle_witness:
  "\<exists>st1 (st2 :: nat list sched). spawn_task fifo_ops 0 ''idle'' (sched_init fifo_ops 1) = Some (4, st1) \<and>
     current (cpus st2 0) = 4 \<and> blocked_resched 0 (WaitQueue 0) st2 = None"
proof -
  let ?i = "sched_init fifo_ops 1"
  define st1 where "st1 = snd (the (spawn_task fifo_ops 0 ''idle'' ?i))"
  have sp: "spawn_task fifo_ops 0 ''idle'' ?i = Some (4, st1)"
    by (simp add: st1_def spawn_task_def add_task_def sched_init_def task_new_def new_common_def Let_def)
  let ?st2 = "upd_cpu 0 (\<lambda>x. x\<lparr>current := 4\<rparr>) (set_state 4 Running st1)"
  have "blocked_resched 0 (WaitQueue 0) ?st2 = None"
    by (rule conjunct1 [OF task_called_idle [OF sp]]) (simp_all add: op_defs)
  moreover have "current (cpus ?st2 0) = 4" by (simp add: op_defs)
  ultimately show ?thesis using sp by blast
qed

end
