(* ===== verification/Mutex.thy ===== *)
theory Mutex
  imports Prelude
begin

text \<open>
  The sleeping mutex of \<open>axsync/src/mutex.rs\<close>, with any number of tasks on any number of CPUs. A step
  of the model is one atomic access of the code: a compare-exchange or swap of \<open>owner_id\<close>, taking the
  lock of the wait queue, or one access under that lock. \<open>m_pc\<close> says what a task does next:

  \<^item> \<open>Out\<close>: it is outside \<open>lock\<close> and \<open>unlock\<close>;
  \<^item> \<open>Try\<close>: the compare-exchange of \<open>lock\<close>;
  \<^item> \<open>Chk\<close>, \<open>Cond\<close>, \<open>Enq\<close>, \<open>Wait\<close>: a round of \<open>wait_until\<close>, which takes the wait queue's lock, reads
    \<open>is_locked\<close> under it, and queues the task and blocks it, giving the lock back;
  \<^item> \<open>Unl\<close>: it has stored 0 and calls \<open>notify_one\<close> next;
  \<^item> \<open>Panic_pc\<close>: an assertion of the code has failed.

  A notified task goes back to the head of the loop of \<open>wait_until\<close>. \<open>guards\<close> counts the guards that a task
  has: \<open>lock_api\<close> hands one out for every \<open>lock\<close> or \<open>try_lock\<close> that succeeds, and \<open>unlock\<close> is the drop of one.
\<close>

datatype pc = Out | Try | Chk | Cond | Enq | Wait | Unl | Panic_pc

record RawMutex =
  wq :: "nat list"
  wq_lock :: "nat option"
  owner_id :: nat
  m_pc :: "nat \<Rightarrow> pc"
  guards :: "nat \<Rightarrow> nat"

definition RawMutex_new :: RawMutex where
  "RawMutex_new = \<lparr>wq = [], wq_lock = None, owner_id = 0, m_pc = (\<lambda>_. Out), guards = (\<lambda>_. 0)\<rparr>"

definition goto :: "nat \<Rightarrow> pc \<Rightarrow> RawMutex \<Rightarrow> RawMutex" where
  "goto t p m = m\<lparr>m_pc := (m_pc m)(t := p)\<rparr>"

definition is_locked :: "RawMutex \<Rightarrow> bool" where
  "is_locked m \<longleftrightarrow> owner_id m \<noteq> 0"

text \<open>The store of the successful compare-exchange; the caller gets a guard.\<close>

definition acquire :: "nat \<Rightarrow> RawMutex \<Rightarrow> RawMutex" where
  "acquire t m = m\<lparr>owner_id := t, guards := (guards m)(t := guards m t + 1)\<rparr>"

text \<open>One round of \<open>lock\<close>; \<open>weak\<close> says that the weak compare-exchange fails spuriously.\<close>

definition lock_try :: "bool \<Rightarrow> nat \<Rightarrow> RawMutex \<Rightarrow> RawMutex" where
  "lock_try weak current_id m =
     (if owner_id m = 0 \<and> \<not> weak then goto current_id Out (acquire current_id m)
      else if owner_id m = current_id then goto current_id Panic_pc m
      else goto current_id Chk m)"

definition wait_lock :: "nat \<Rightarrow> RawMutex \<Rightarrow> RawMutex" where
  "wait_lock t m = goto t Cond (m\<lparr>wq_lock := Some t\<rparr>)"

definition wait_check :: "nat \<Rightarrow> RawMutex \<Rightarrow> RawMutex" where
  "wait_check t m = (if is_locked m then goto t Enq m else goto t Try (m\<lparr>wq_lock := None\<rparr>))"

definition wait_enqueue :: "nat \<Rightarrow> RawMutex \<Rightarrow> RawMutex" where
  "wait_enqueue t m = goto t Wait (m\<lparr>wq := wq m @ [t], wq_lock := None\<rparr>)"

definition try_lock :: "nat \<Rightarrow> RawMutex \<Rightarrow> bool \<times> RawMutex" where
  "try_lock current_id m = (if owner_id m = 0 then (True, acquire current_id m) else (False, m))"

definition unlock_swap :: "nat \<Rightarrow> RawMutex \<Rightarrow> RawMutex" where
  "unlock_swap current_id m =
     (let m1 = m\<lparr>owner_id := 0, guards := (guards m)(current_id := guards m current_id - 1)\<rparr>
      in if owner_id m = current_id then goto current_id Unl m1 else goto current_id Panic_pc m1)"

definition unlock_notify :: "nat \<Rightarrow> RawMutex \<Rightarrow> RawMutex" where
  "unlock_notify t m =
     (case wq m of [] \<Rightarrow> goto t Out m | x # xs \<Rightarrow> goto t Out (goto x Chk (m\<lparr>wq := xs\<rparr>)))"

text \<open>A guard may be sent to another task (\<open>GuardMarker = GuardSend\<close>).\<close>

definition send_guard :: "nat \<Rightarrow> nat \<Rightarrow> RawMutex \<Rightarrow> RawMutex" where
  "send_guard t u m =
     (let g = (guards m)(t := guards m t - 1) in m\<lparr>guards := g(u := g u + 1)\<rparr>)"

text \<open>
  What tasks do: a task that is outside may call \<open>lock\<close> and \<open>try_lock\<close>, also when it has a guard, drop a guard it has, whoever
  took the lock, and send it. In a \<open>proper\<close> step no task locks while it has a guard, and guards stay with
  the task that locked. A task whose assertion has failed does nothing more.
\<close>

inductive mutex_step :: "bool \<Rightarrow> RawMutex \<Rightarrow> RawMutex \<Rightarrow> bool" for proper where
  start_lock: "m_pc m t = Out \<Longrightarrow> 0 < t \<Longrightarrow> proper \<longrightarrow> guards m t = 0 \<Longrightarrow> mutex_step proper m (goto t Try m)"
| do_try: "m_pc m t = Try \<Longrightarrow> mutex_step proper m (lock_try weak t m)"
| do_lock: "m_pc m t = Chk \<Longrightarrow> wq_lock m = None \<Longrightarrow> mutex_step proper m (wait_lock t m)"
| do_check: "m_pc m t = Cond \<Longrightarrow> mutex_step proper m (wait_check t m)"
| do_enqueue: "m_pc m t = Enq \<Longrightarrow> mutex_step proper m (wait_enqueue t m)"
| do_try_lock: "m_pc m t = Out \<Longrightarrow> 0 < t \<Longrightarrow> mutex_step proper m (snd (try_lock t m))"
| do_unlock: "m_pc m t = Out \<Longrightarrow> 0 < guards m t \<Longrightarrow> mutex_step proper m (unlock_swap t m)"
| do_notify: "m_pc m t = Unl \<Longrightarrow> wq_lock m = None \<Longrightarrow> mutex_step proper m (unlock_notify t m)"
| do_send: "\<not> proper \<Longrightarrow> m_pc m t = Out \<Longrightarrow> m_pc m u = Out \<Longrightarrow> 0 < guards m t \<Longrightarrow> 0 < u \<Longrightarrow>
     mutex_step proper m (send_guard t u m)"

inductive mutex_reachable :: "bool \<Rightarrow> RawMutex \<Rightarrow> bool" for proper where
  "mutex_reachable proper RawMutex_new"
| "mutex_reachable proper m \<Longrightarrow> mutex_step proper m m' \<Longrightarrow> mutex_reachable proper m'"

inductive_cases mutex_stepE: "mutex_step proper m m'"

section \<open>The invariant\<close>

text \<open>There is one guard while the mutex is locked, and none otherwise.\<close>

definition guard_inv :: "RawMutex \<Rightarrow> bool" where
  "guard_inv m \<longleftrightarrow>
     (if owner_id m = 0 then guards m = (\<lambda>_. 0) else \<exists>u > 0. guards m = (\<lambda>_. 0)(u := 1)) \<and>
     (\<forall>t. m_pc m t \<noteq> Out \<longrightarrow> 0 < t)"

text \<open>In proper runs the task that locked has the guard and is not inside \<open>lock\<close>.\<close>

definition owner_inv :: "RawMutex \<Rightarrow> bool" where
  "owner_inv m \<longleftrightarrow> (\<forall>t. 0 < guards m t \<longrightarrow> owner_id m = t \<and> m_pc m t = Out) \<and> (\<forall>t. m_pc m t \<noteq> Panic_pc)"

definition lock_inv :: "RawMutex \<Rightarrow> bool" where
  "lock_inv m \<longleftrightarrow> (\<forall>t. wq_lock m = Some t \<longleftrightarrow> m_pc m t \<in> {Cond, Enq})"

definition mq_inv :: "RawMutex \<Rightarrow> bool" where
  "mq_inv m \<longleftrightarrow> distinct (wq m) \<and> (\<forall>t. t \<in> set (wq m) \<longleftrightarrow> m_pc m t = Wait)"

text \<open>Who waits, or has made up its mind to wait, is waited for.\<close>

definition wake_inv :: "RawMutex \<Rightarrow> bool" where
  "wake_inv m \<longleftrightarrow> (\<exists>t. m_pc m t \<in> {Wait, Enq}) \<longrightarrow>
     is_locked m \<or> (\<exists>t. m_pc m t \<in> {Unl, Chk, Cond, Try})"

lemmas mutex_defs = goto_def is_locked_def acquire_def lock_try_def wait_lock_def wait_check_def wait_enqueue_def
  try_lock_def unlock_swap_def unlock_notify_def send_guard_def Let_def

lemma queue_head:
  assumes "mq_inv m" "wq m = x # xs"
  shows "m_pc m x = Wait" "x \<notin> set xs" "distinct xs" "t \<in> set xs \<longleftrightarrow> m_pc m t = Wait \<and> t \<noteq> x"
  using assms by (auto simp: mq_inv_def)

lemma queue_step:
  assumes "mutex_step p m m'" "mq_inv m"
  shows "mq_inv m'"
  using assms
proof cases
  case (do_notify t)
  show ?thesis
  proof (cases "wq m")
    case (Cons x xs)
    with do_notify show ?thesis
      using queue_head [OF assms(2) Cons] by (auto simp: mutex_defs mq_inv_def)
  qed (use do_notify assms(2) in \<open>auto simp: mutex_defs mq_inv_def\<close>)
qed (auto simp: mutex_defs mq_inv_def split: if_splits)

lemma guard_sel [simp]:
  "guards (goto t p m) = guards m" "owner_id (goto t p m) = owner_id m" "m_pc (goto t p m) = (m_pc m)(t := p)"
  "guards (acquire t m) = (guards m)(t := guards m t + 1)" "owner_id (acquire t m) = t" "m_pc (acquire t m) = m_pc m"
  by (simp_all add: goto_def acquire_def)

lemma guard_free: "guard_inv m \<Longrightarrow> owner_id m = 0 \<Longrightarrow> guards m = (\<lambda>_. 0)"
  by (simp add: guard_inv_def)

lemma guard_pos: "guard_inv m \<Longrightarrow> m_pc m t \<noteq> Out \<Longrightarrow> 0 < t"
  by (simp add: guard_inv_def)

lemma guard_one:
  assumes "guard_inv m" "0 < guards m t"
  shows "owner_id m \<noteq> 0" "guards m = (\<lambda>_. 0)(t := 1)" "0 < t"
  using assms by (auto simp: guard_inv_def split: if_splits)

lemma guard_goto: "guard_inv m \<Longrightarrow> 0 < t \<or> p = Out \<Longrightarrow> guard_inv (goto t p m)"
  unfolding guard_inv_def guard_sel by auto

lemma guard_acquire: "guard_inv m \<Longrightarrow> owner_id m = 0 \<Longrightarrow> 0 < t \<Longrightarrow> guard_inv (acquire t m)"
  unfolding guard_inv_def guard_sel by auto

lemma guard_same [simp]:
  "guard_inv (m\<lparr>wq := q\<rparr>) = guard_inv m" "guard_inv (m\<lparr>wq_lock := l\<rparr>) = guard_inv m"
  by (simp_all add: guard_inv_def)

lemma guard_step:
  assumes "mutex_step p m m'" "guard_inv m" "mq_inv m"
  shows "guard_inv m'"
  using assms(1)
proof cases
  case (do_try t weak)
  then have t: "0 < t" using guard_pos [OF assms(2)] by simp
  with do_try show ?thesis
    using guard_acquire [OF assms(2) _ t] by (auto simp: lock_try_def intro!: guard_goto assms(2))
next
  case (do_unlock t)
  note g = guard_one [OF assms(2) do_unlock(3)]
  have "guard_inv (m\<lparr>owner_id := 0, guards := (guards m)(t := guards m t - 1)\<rparr>)"
    using assms(2) g by (auto simp: guard_inv_def)
  with do_unlock g(3) show ?thesis by (auto simp: unlock_swap_def Let_def intro: guard_goto)
next
  case (do_send t u)
  note g = guard_one [OF assms(2) do_send(5)]
  have "guards m' = (\<lambda>_. 0)(u := 1)" "owner_id m' = owner_id m" "m_pc m' = m_pc m"
    using do_send g(2) by (auto simp: send_guard_def Let_def)
  then show ?thesis using assms(2) g(1) do_send(6) by (auto simp: guard_inv_def)
next
  case (do_notify t)
  show ?thesis
  proof (cases "wq m")
    case (Cons x xs)
    then have "0 < x" using queue_head(1) [OF assms(3) Cons] guard_pos [OF assms(2)] by simp
    with do_notify Cons show ?thesis by (auto simp: unlock_notify_def intro!: guard_goto assms(2))
  qed (use do_notify assms(2) in \<open>auto simp: unlock_notify_def intro: guard_goto\<close>)
qed (use assms(2) guard_pos [OF assms(2)] in \<open>auto simp: wait_lock_def wait_check_def wait_enqueue_def try_lock_def
      intro!: guard_goto guard_acquire split: if_splits\<close>)

lemma owner_step:
  assumes "mutex_step True m m'" "owner_inv m" "guard_inv m" "mq_inv m"
  shows "owner_inv m'"
  using assms(1)
proof cases
  case (do_try t weak)
  have "owner_id m \<noteq> t"
  proof
    assume o: "owner_id m = t"
    with do_try have "owner_id m \<noteq> 0" using guard_pos [OF assms(3), of t] by simp
    then obtain u where "0 < guards m u" using assms(3) by (auto simp: guard_inv_def)
    then show False using assms(2) o do_try(2) by (auto simp: owner_inv_def)
  qed
  then have "m' = (if owner_id m = 0 \<and> \<not> weak then goto t Out (acquire t m) else goto t Chk m)"
    using do_try(1) by (simp add: lock_try_def)
  moreover have "owner_inv (goto t Out (acquire t m))" if "owner_id m = 0"
    using assms(2) guard_free [OF assms(3) that] by (simp add: owner_inv_def)
  moreover have "guards m t = 0" using assms(2) do_try(2) by (auto simp: owner_inv_def)
  then have "owner_inv (goto t Chk m)" using assms(2) by (auto simp: owner_inv_def)
  ultimately show ?thesis by simp
next
  case (do_unlock t)
  have "owner_id m = t" using assms(2) do_unlock(3) unfolding owner_inv_def by blast
  then have "m' = goto t Unl (m\<lparr>owner_id := 0, guards := (\<lambda>_. 0)\<rparr>)"
    using do_unlock(1) guard_one(2) [OF assms(3) do_unlock(3)] by (simp add: unlock_swap_def fun_upd_idem)
  then show ?thesis using assms(2) by (simp add: owner_inv_def)
next
  case (do_notify t)
  show ?thesis
  proof (cases "wq m")
    case (Cons x xs)
    then have "m_pc m x = Wait" by (rule queue_head(1) [OF assms(4)])
    then have "guards m x = 0" "guards m t = 0" using assms(2) do_notify(2) by (auto simp: owner_inv_def)
    with do_notify Cons show ?thesis using assms(2) by (simp add: unlock_notify_def owner_inv_def goto_def)
  qed (use do_notify assms(2) in \<open>simp add: unlock_notify_def owner_inv_def\<close>)
next
  case (do_try_lock t)
  have "owner_inv (acquire t m)" if "owner_id m = 0"
    using assms(2) guard_free [OF assms(3) that] do_try_lock(2) by (simp add: owner_inv_def)
  then show ?thesis using assms(2) do_try_lock(1) by (simp add: try_lock_def)
qed (use assms(2) in \<open>auto simp: wait_lock_def wait_check_def wait_enqueue_def owner_inv_def goto_def\<close>)

lemma lock_unique:
  "lock_inv m \<Longrightarrow> m_pc m t = Cond \<or> m_pc m t = Enq \<Longrightarrow> m_pc m u = Cond \<or> m_pc m u = Enq \<Longrightarrow> u = t"
  unfolding lock_inv_def by (metis insert_iff option.inject)

lemma lock_step:
  assumes "mutex_step p m m'" "lock_inv m" "mq_inv m"
  shows "lock_inv m'"
  using assms(1)
proof cases
  case (do_notify t)
  show ?thesis
  proof (cases "wq m")
    case (Cons x xs)
    with do_notify show ?thesis
      using assms(2) queue_head [OF assms(3) Cons] unfolding mutex_defs lock_inv_def by auto
  qed (use do_notify assms(2) in \<open>auto simp: mutex_defs lock_inv_def\<close>)
next
  case (do_check t)
  with assms(2) lock_unique [OF assms(2), of t] show ?thesis by (auto simp: mutex_defs lock_inv_def)
next
  case (do_enqueue t)
  with assms(2) lock_unique [OF assms(2), of t] show ?thesis by (auto simp: mutex_defs lock_inv_def)
qed (use assms(2) in \<open>auto simp: mutex_defs lock_inv_def split: if_splits\<close>)

lemma wake_step:
  assumes "mutex_step True m m'" "wake_inv m" "lock_inv m" "mq_inv m" "guard_inv m" "owner_inv m"
  shows "wake_inv m'"
  using assms(1)
proof cases
  case (do_notify t)
  have none: "m_pc m u \<noteq> Enq" for u using assms(3) do_notify(3) by (auto simp: lock_inv_def)
  show ?thesis
  proof (cases "wq m")
    case (Cons x xs)
    then have "x \<noteq> t" using queue_head(1) [OF assms(4) Cons] do_notify(2) by auto
    then have "m_pc m' x = Chk" using do_notify(1) Cons by (simp add: mutex_defs)
    then show ?thesis by (auto simp: wake_inv_def)
  next
    case Nil
    then have "m_pc m u \<noteq> Wait" for u using assms(4) by (simp add: mq_inv_def)
    with none do_notify Nil show ?thesis by (auto simp: mutex_defs wake_inv_def)
  qed
next
  case (do_try t weak)
  have "m_pc m' t \<noteq> Panic_pc" using owner_step [OF assms(1,6,5,4)] by (simp add: owner_inv_def)
  with do_try have "is_locked m' \<or> m_pc m' t = Chk"
    using guard_pos [OF assms(5), of t] by (auto simp: mutex_defs split: if_splits)
  then show ?thesis by (auto simp: wake_inv_def)
next
  case (do_enqueue t)
  have "\<exists>t. m_pc m t \<in> {Wait, Enq}" using do_enqueue by blast
  with assms(2) consider "is_locked m" | u where "m_pc m u \<in> {Unl, Chk, Cond, Try}"
    unfolding wake_inv_def by blast
  then show ?thesis
  proof cases
    case 1
    with do_enqueue show ?thesis by (simp add: mutex_defs wake_inv_def)
  next
    case 2
    then have "m_pc m' u \<in> {Unl, Chk, Cond, Try}" using do_enqueue by (auto simp: mutex_defs)
    then show ?thesis unfolding wake_inv_def by blast
  qed
next
  case (do_unlock t)
  then have "m_pc m' t = Unl" using assms(6) by (auto simp: mutex_defs owner_inv_def)
  then show ?thesis by (auto simp: wake_inv_def)
next
  case (do_check t)
  then have "is_locked m' \<or> m_pc m' t = Try" by (auto simp: mutex_defs)
  then show ?thesis by (auto simp: wake_inv_def)
next
  case (do_try_lock t)
  then have "is_locked m' \<or> m' = m" by (auto simp: mutex_defs)
  with assms(2) show ?thesis by (auto simp: wake_inv_def)
next
  case (start_lock t)
  then have "m_pc m' t = Try" by (simp add: mutex_defs)
  then show ?thesis by (auto simp: wake_inv_def)
next
  case (do_lock t)
  then have "m_pc m' t = Cond" by (simp add: mutex_defs)
  then show ?thesis by (auto simp: wake_inv_def)
qed simp

definition mutex_inv :: "bool \<Rightarrow> RawMutex \<Rightarrow> bool" where
  "mutex_inv proper m \<longleftrightarrow> guard_inv m \<and> lock_inv m \<and> mq_inv m \<and> (proper \<longrightarrow> owner_inv m \<and> wake_inv m)"

lemma mutex_reachable_inv: "mutex_reachable proper m \<Longrightarrow> mutex_inv proper m"
proof (induction rule: mutex_reachable.induct)
  case 1
  show ?case
    by (auto simp: mutex_inv_def guard_inv_def owner_inv_def lock_inv_def mq_inv_def wake_inv_def RawMutex_new_def)
next
  case (2 m m')
  then show ?case
    using guard_step [OF 2(2)] lock_step [OF 2(2)] queue_step [OF 2(2)] owner_step [of m m'] wake_step [of m m']
    unfolding mutex_inv_def by auto
qed

section \<open>Properties\<close>

text \<open>
  C3: Mutual exclusion: whatever tasks do in whatever order, also when they lock again while they have the guard, send it to
  each other or drop one that they did not take, at most one task has a guard, and one only, and the mutex
  is locked exactly while there is one. As long as no task locks while it has the guard and guards are dropped by the tasks that
  took them, \<open>owner_id\<close> names the task with the guard and no assertion of \<open>lock\<close> and \<open>unlock\<close> fails.\<close>

theorem mutual_exclusion:
  assumes "mutex_reachable proper m"
  shows "(\<forall>t u. 0 < guards m t \<longrightarrow> 0 < guards m u \<longrightarrow> t = u \<and> guards m t = 1) \<and>
    (is_locked m \<longleftrightarrow> (\<exists>t. 0 < guards m t)) \<and>
    (proper \<longrightarrow> (\<forall>t. 0 < guards m t \<longleftrightarrow> 0 < t \<and> owner_id m = t) \<and> (\<forall>t. m_pc m t \<noteq> Panic_pc))"
proof -
  have inv: "guard_inv m" "proper \<longrightarrow> owner_inv m" using mutex_reachable_inv [OF assms] by (simp_all add: mutex_inv_def)
  have one: "t = u \<and> guards m t = 1" if "0 < guards m t" "0 < guards m u" for t u
    using guard_one(2) [OF inv(1) that(1)] that by (auto split: if_splits)
  have locked: "is_locked m \<longleftrightarrow> (\<exists>t. 0 < guards m t)"
    using inv(1) by (auto simp: guard_inv_def is_locked_def split: if_splits)
  have "0 < guards m t \<longleftrightarrow> 0 < t \<and> owner_id m = t" if proper for t
    using inv(2) that locked guard_one(3) [OF inv(1), of t] by (auto simp: owner_inv_def is_locked_def)
  then show ?thesis using one locked inv(2) by (auto simp: owner_inv_def)
qed

text \<open>Task 7 locks and sends the guard to task 8, which drops it: the assertion of \<open>unlock\<close> fails.\<close>

theorem mutual_exclusion_witness:
  "\<exists>m. mutex_reachable False m \<and> 0 < guards m 8 \<and> owner_id m = 7 \<and> guards m 7 = 0 \<and> m_pc (unlock_swap 8 m) 8 = Panic_pc"
proof -
  let ?m = "snd (try_lock 7 RawMutex_new)"
  have 1: "mutex_reachable False ?m"
    by (rule mutex_reachable.intros(2) [OF mutex_reachable.intros(1)], rule do_try_lock)
      (simp_all add: RawMutex_new_def)
  have 2: "mutex_reachable False (send_guard 7 8 ?m)"
    by (rule mutex_reachable.intros(2) [OF 1], rule do_send) (simp_all add: RawMutex_new_def mutex_defs)
  define m where "m = send_guard 7 8 ?m"
  have g: "0 < guards m 8" "owner_id m = 7" by (simp_all add: m_def RawMutex_new_def mutex_defs)
  have "\<not> 0 < guards m 7"
  proof
    assume "0 < guards m 7"
    then have "(8 :: nat) = 7" using conjunct1 [OF mutual_exclusion [OF 2], folded m_def] g(1) by blast
    then show False by simp
  qed
  then show ?thesis using 2 g by (intro exI [of _ m]) (simp add: unlock_swap_def m_def)
qed

text \<open>
  C7: No wakeup is lost in a proper run: while a task sleeps in the wait queue of the mutex, or has decided to, some task has
  the mutex and is not waiting itself (it will call \<open>notify_one\<close>), or some task has yet to notify or to retry.\<close>

theorem mutex_no_lost_wakeup:
  assumes "mutex_reachable True m" "m_pc m t = Wait \<or> m_pc m t = Enq"
  shows "(\<exists>u. 0 < guards m u \<and> owner_id m = u \<and> m_pc m u = Out) \<or> (\<exists>u. m_pc m u \<in> {Unl, Chk, Cond, Try})"
proof -
  have inv: "mutex_inv True m" by (rule mutex_reachable_inv [OF assms(1)])
  then have "is_locked m \<or> (\<exists>u. m_pc m u \<in> {Unl, Chk, Cond, Try})"
    using assms(2) unfolding mutex_inv_def wake_inv_def by blast
  moreover have "\<exists>u. 0 < guards m u" if "is_locked m"
    using that inv by (auto simp: is_locked_def mutex_inv_def guard_inv_def)
  ultimately show ?thesis using inv by (auto simp: mutex_inv_def owner_inv_def)
qed

lemma contended_reachable:
  "mutex_reachable True (wait_check 8 (wait_lock 8 (lock_try False 8 (goto 8 Try (snd (try_lock 7 RawMutex_new))))))"
proof -
  let ?m = "snd (try_lock 7 RawMutex_new)"
  note step = mutex_reachable.intros(2)
  have 1: "mutex_reachable True ?m"
    by (rule step [OF mutex_reachable.intros(1)], rule do_try_lock) (simp_all add: RawMutex_new_def)
  have 2: "mutex_reachable True (goto 8 Try ?m)"
    by (rule step [OF 1], rule start_lock) (simp_all add: RawMutex_new_def mutex_defs)
  have 3: "mutex_reachable True (lock_try False 8 (goto 8 Try ?m))"
    by (rule step [OF 2], rule do_try) (simp_all add: RawMutex_new_def mutex_defs)
  have 4: "mutex_reachable True (wait_lock 8 (lock_try False 8 (goto 8 Try ?m)))"
    by (rule step [OF 3], rule do_lock) (simp_all add: RawMutex_new_def mutex_defs)
  show ?thesis
    by (rule step [OF 4], rule do_check) (simp_all add: RawMutex_new_def mutex_defs)
qed

theorem mutex_no_lost_wakeup_witness:
  "\<exists>m. mutex_reachable True m \<and> m_pc m 8 = Enq \<and>
     ((\<exists>u. 0 < guards m u \<and> owner_id m = u) \<or> (\<exists>u. m_pc m u \<in> {Unl, Chk, Cond, Try}))"
proof -
  let ?m = "wait_check 8 (wait_lock 8 (lock_try False 8 (goto 8 Try (snd (try_lock 7 RawMutex_new)))))"
  have e: "m_pc ?m 8 = Enq" by (simp add: RawMutex_new_def mutex_defs)
  from mutex_no_lost_wakeup [OF contended_reachable disjI2 [OF e]] show ?thesis
    using contended_reachable e by blast
qed

text \<open>
  \<open>unlock\<close> wakes the task that has waited longest, and no other: the rest of the queue keeps
  sleeping, in order.\<close>

theorem unlock_wakes_one:
  assumes "mutex_reachable True m" "m_pc m t = Unl" "wq m = x # xs"
  shows "m_pc (unlock_notify t m) x = Chk \<and> wq (unlock_notify t m) = xs \<and>
    (\<forall>y. m_pc (unlock_notify t m) y = Wait \<longleftrightarrow> y \<in> set xs)"
proof -
  have q: "mq_inv m" using mutex_reachable_inv [OF assms(1)] by (simp add: mutex_inv_def)
  have "x \<noteq> t" using queue_head(1) [OF q assms(3)] assms(2) by auto
  then show ?thesis using queue_head [OF q assms(3)] assms(2,3) by (auto simp: mutex_defs)
qed

theorem unlock_wakes_one_witness:
  "\<exists>m. mutex_reachable True m \<and> wq m = [8] \<and> m_pc (unlock_notify 7 m) 8 = Chk"
proof -
  let ?m = "wait_check 8 (wait_lock 8 (lock_try False 8 (goto 8 Try (snd (try_lock 7 RawMutex_new)))))"
  have 1: "mutex_reachable True (wait_enqueue 8 ?m)"
    by (rule mutex_reachable.intros(2) [OF contended_reachable], rule do_enqueue)
      (simp add: RawMutex_new_def mutex_defs)
  have 2: "mutex_reachable True (unlock_swap 7 (wait_enqueue 8 ?m))"
    by (rule mutex_reachable.intros(2) [OF 1], rule do_unlock) (simp_all add: RawMutex_new_def mutex_defs)
  have q: "wq (unlock_swap 7 (wait_enqueue 8 ?m)) = [8]" "m_pc (unlock_swap 7 (wait_enqueue 8 ?m)) 7 = Unl"
    by (simp_all add: RawMutex_new_def mutex_defs)
  show ?thesis using unlock_wakes_one [OF 2 q(2,1)] 2 q(1) by blast
qed

end
