(* ===== verification/Vfs.thy ===== *)
theory Vfs
  imports Prelude "HOL-Library.Sublist"
begin

text \<open>
  The file system layer of \<open>axfs\<close>: the root directory with its mount points (\<open>root.rs\<close>) and opened
  files and directories with their permissions and cursors (\<open>fops.rs\<close>).

  The file systems themselves are trait objects of the \<open>axfs_vfs\<close> crate (ext4, FAT, ramfs, devfs):
  their operations are the parameter \<open>vfs_ops\<close>, on a state \<open>'w\<close> of theirs, with nodes \<open>'n\<close> and file
  systems \<open>'f\<close>. A node is one of theirs or the root directory, which dispatches to them.
\<close>

section \<open>Nodes and file systems\<close>

datatype VfsNodeType = FtFile | FtDir

record FileAttr =
  attr_is_dir :: bool
  owner_readable :: bool
  owner_writable :: bool
  owner_executable :: bool
  attr_size :: u64

record DirEntry =
  d_name :: "u8 list"
  d_is_dir :: bool
  d_is_file :: bool

datatype 'n vnode = RootDir | Ext 'n

record ('n, 'f, 'w) vfs_ops =
  fs_root_dir :: "'f \<Rightarrow> 'n"
  fs_mount :: "'f \<Rightarrow> string \<Rightarrow> 'n \<Rightarrow> ('w, AxError, unit) io"
  fs_umount :: "'f \<Rightarrow> 'w \<Rightarrow> 'w"
  vn_get_attr :: "'n \<Rightarrow> 'w \<Rightarrow> FileAttr AxResult"
  vn_lookup :: "'n \<Rightarrow> string \<Rightarrow> 'w \<Rightarrow> 'n AxResult"
  vn_create :: "'n \<Rightarrow> string \<Rightarrow> VfsNodeType \<Rightarrow> ('w, AxError, unit) io"
  vn_remove :: "'n \<Rightarrow> string \<Rightarrow> ('w, AxError, unit) io"
  vn_rename :: "'n \<Rightarrow> string \<Rightarrow> string \<Rightarrow> ('w, AxError, unit) io"
  vn_open :: "'n \<Rightarrow> ('w, AxError, unit) io"
  vn_release :: "'n \<Rightarrow> ('w, AxError, unit) io"
  vn_truncate :: "'n \<Rightarrow> u64 \<Rightarrow> ('w, AxError, unit) io"
  vn_fsync :: "'n \<Rightarrow> ('w, AxError, unit) io"
  vn_read_at :: "'n \<Rightarrow> u64 \<Rightarrow> nat \<Rightarrow> 'w \<Rightarrow> u8 list AxResult"
  vn_write_at :: "'n \<Rightarrow> u64 \<Rightarrow> u8 list \<Rightarrow> ('w, AxError, nat) io"
  vn_read_dir :: "'n \<Rightarrow> nat \<Rightarrow> nat \<Rightarrow> 'w \<Rightarrow> DirEntry list AxResult"
  canonicalize :: "string \<Rightarrow> string"

record 'f MountPoint =
  mp_path :: string
  mp_fs :: 'f

record ('n, 'f, 'w) fsys =
  world :: 'w
  main_fs :: 'f
  mounts :: "'f MountPoint list"
  CURRENT_DIR :: "'n vnode"
  CURRENT_DIR_PATH :: string

text \<open>An operation of a file system, as one of the whole state.\<close>

definition on_world :: "('w, AxError, 'a) io \<Rightarrow> (('n, 'f, 'w) fsys, AxError, 'a) io" where
  "on_world m st = (let (r, w) = m (world st) in (r, st\<lparr>world := w\<rparr>))"

section \<open>The root directory\<close>

definition trim_matches :: "char \<Rightarrow> string \<Rightarrow> string" where
  "trim_matches c s = rev (dropWhile (\<lambda>x. x = c) (rev (dropWhile (\<lambda>x. x = c) s)))"

fun strip_prefix :: "string \<Rightarrow> string \<Rightarrow> string option" where
  "strip_prefix [] s = Some s"
| "strip_prefix (c # cs) [] = None"
| "strip_prefix (c # cs) (d # ds) = (if c = d then strip_prefix cs ds else None)"

definition starts_with :: "string \<Rightarrow> string \<Rightarrow> bool" where
  "starts_with s p \<longleftrightarrow> take (length p) s = p"

definition ends_with :: "string \<Rightarrow> string \<Rightarrow> bool" where
  "ends_with s p \<longleftrightarrow> starts_with (rev s) (rev p)"

text \<open>The loop over the mount points, from index \<open>i\<close> on, with the best match so far.\<close>

fun best_mount :: "string \<Rightarrow> nat \<Rightarrow> nat \<Rightarrow> nat \<Rightarrow> 'f MountPoint list \<Rightarrow> nat \<times> nat" where
  "best_mount path i idx max_len [] = (idx, max_len)"
| "best_mount path i idx max_len (mp # mps) =
     (if starts_with path (tl (mp_path mp)) \<and> length (mp_path mp) - 1 > max_len
      then best_mount path (Suc i) i (length (mp_path mp) - 1) mps
      else best_mount path (Suc i) idx max_len mps)"

lemma strip_prefix_length: "strip_prefix p s = Some r \<Longrightarrow> length s = length p + length r"
  by (induction p s rule: strip_prefix.induct) (auto split: if_splits)

lemma length_trim_matches: "length (trim_matches c s) \<le> length s"
  unfolding trim_matches_def length_rev
  by (metis length_dropWhile_le length_rev order_trans)

text \<open>Which file system a path belongs to, and the rest of the path there.\<close>

function lookup_mounted_fs :: "'f \<Rightarrow> 'f MountPoint list \<Rightarrow> string \<Rightarrow> 'f \<times> string" where
  "lookup_mounted_fs main ms path0 =
     (let path = trim_matches (CHR ''/'') path0
      in case strip_prefix ''./'' path of
           Some rest \<Rightarrow> lookup_mounted_fs main ms rest
         | None \<Rightarrow>
             (let (idx, max_len) = best_mount path 0 0 0 ms
              in if max_len = 0 then (main, path) else (mp_fs (ms ! idx), drop max_len path)))"
  by auto
termination
proof (relation "measure (\<lambda>(_, _, p). length p)")
  fix main :: 'f and ms path0 path rest
  assume "path = trim_matches (CHR ''/'') path0" "strip_prefix ''./'' path = Some rest"
  then show "((main, ms, rest), main, ms, path0) \<in> measure (\<lambda>(_, _, p). length p)"
    using length_trim_matches [of "CHR ''/''" path0] by (auto dest!: strip_prefix_length)
qed simp

declare lookup_mounted_fs.simps [simp del]

text \<open>The operations of \<open>RootDirectory\<close>.\<close>

definition root_contains :: "('n, 'f, 'w) fsys \<Rightarrow> string \<Rightarrow> bool" where
  "root_contains st path \<longleftrightarrow> (\<exists>mp \<in> set (mounts st). mp_path mp = path)"

definition root_mount ::
  "('n, 'f, 'w) vfs_ops \<Rightarrow> string \<Rightarrow> 'f \<Rightarrow> (('n, 'f, 'w) fsys, AxError, unit) io" where
  "root_mount V path fs st =
     (if path = ''/'' then (Err InvalidInput, st)
      else if \<not> starts_with path ''/'' then (Err InvalidInput, st)
      else if root_contains st path then (Err InvalidInput, st)
      else bindS (on_world (vn_create V (fs_root_dir V (main_fs st)) path FtDir)) (\<lambda>_.
           bindS (getS (\<lambda>s. vn_lookup V (fs_root_dir V (main_fs s)) path (world s))) (\<lambda>n.
           bindS (on_world (fs_mount V fs path n)) (\<lambda>_ s.
             (Ok (), s\<lparr>mounts := mounts s @ [\<lparr>mp_path = path, mp_fs = fs\<rparr>]\<rparr>)))) st)"

text \<open>Dropping the mount points unmounts their file systems.\<close>

definition root_umount :: "('n, 'f, 'w) vfs_ops \<Rightarrow> string \<Rightarrow> ('n, 'f, 'w) fsys \<Rightarrow> ('n, 'f, 'w) fsys" where
  "root_umount V path st =
     st\<lparr>mounts := filter (\<lambda>mp. mp_path mp \<noteq> path) (mounts st),
        world := fold (\<lambda>mp. fs_umount V (mp_fs mp)) (filter (\<lambda>mp. mp_path mp = path) (mounts st)) (world st)\<rparr>"

definition root_get_attr :: "('n, 'f, 'w) vfs_ops \<Rightarrow> ('n, 'f, 'w) fsys \<Rightarrow> FileAttr AxResult" where
  "root_get_attr V st = vn_get_attr V (fs_root_dir V (main_fs st)) (world st)"

definition root_lookup :: "('n, 'f, 'w) vfs_ops \<Rightarrow> string \<Rightarrow> ('n, 'f, 'w) fsys \<Rightarrow> 'n AxResult" where
  "root_lookup V path st =
     (let (fs, rest_path) = lookup_mounted_fs (main_fs st) (mounts st) path
      in vn_lookup V (fs_root_dir V fs) rest_path (world st))"

definition root_create ::
  "('n, 'f, 'w) vfs_ops \<Rightarrow> string \<Rightarrow> VfsNodeType \<Rightarrow> (('n, 'f, 'w) fsys, AxError, unit) io" where
  "root_create V path ty st =
     (let (fs, rest_path) = lookup_mounted_fs (main_fs st) (mounts st) path
      in if rest_path = [] then (Ok (), st)
         else on_world (vn_create V (fs_root_dir V fs) rest_path ty) st)"

definition root_remove :: "('n, 'f, 'w) vfs_ops \<Rightarrow> string \<Rightarrow> (('n, 'f, 'w) fsys, AxError, unit) io" where
  "root_remove V path st =
     (let (fs, rest_path) = lookup_mounted_fs (main_fs st) (mounts st) path
      in if rest_path = [] then (Err PermissionDenied, st)
         else on_world (vn_remove V (fs_root_dir V fs) rest_path) st)"

definition root_rename :: "('n, 'f, 'w) vfs_ops \<Rightarrow> string \<Rightarrow> string \<Rightarrow> (('n, 'f, 'w) fsys, AxError, unit) io" where
  "root_rename V src_path dst_path st =
     (let (fs, rest_path) = lookup_mounted_fs (main_fs st) (mounts st) src_path
      in if rest_path = [] then (Err PermissionDenied, st)
         else on_world (vn_rename V (fs_root_dir V fs) rest_path dst_path) st)"

text \<open>Calls through a node reference.\<close>

fun get_attr :: "('n, 'f, 'w) vfs_ops \<Rightarrow> 'n vnode \<Rightarrow> ('n, 'f, 'w) fsys \<Rightarrow> FileAttr AxResult" where
  "get_attr V RootDir st = root_get_attr V st"
| "get_attr V (Ext n) st = vn_get_attr V n (world st)"

fun node_lookup :: "('n, 'f, 'w) vfs_ops \<Rightarrow> 'n vnode \<Rightarrow> string \<Rightarrow> ('n, 'f, 'w) fsys \<Rightarrow> 'n AxResult" where
  "node_lookup V RootDir path st = root_lookup V path st"
| "node_lookup V (Ext n) path st = vn_lookup V n path (world st)"

fun node_create ::
  "('n, 'f, 'w) vfs_ops \<Rightarrow> 'n vnode \<Rightarrow> string \<Rightarrow> VfsNodeType \<Rightarrow> (('n, 'f, 'w) fsys, AxError, unit) io" where
  "node_create V RootDir path ty st = root_create V path ty st"
| "node_create V (Ext n) path ty st = on_world (vn_create V n path ty) st"

fun node_remove :: "('n, 'f, 'w) vfs_ops \<Rightarrow> 'n vnode \<Rightarrow> string \<Rightarrow> (('n, 'f, 'w) fsys, AxError, unit) io" where
  "node_remove V RootDir path st = root_remove V path st"
| "node_remove V (Ext n) path st = on_world (vn_remove V n path) st"

fun node_rename ::
  "('n, 'f, 'w) vfs_ops \<Rightarrow> 'n vnode \<Rightarrow> string \<Rightarrow> string \<Rightarrow> (('n, 'f, 'w) fsys, AxError, unit) io" where
  "node_rename V RootDir src dst st = root_rename V src dst st"
| "node_rename V (Ext n) src dst st = on_world (vn_rename V n src dst) st"

section \<open>Paths\<close>

definition parent_node_of :: "'n vnode option \<Rightarrow> string \<Rightarrow> ('n, 'f, 'w) fsys \<Rightarrow> 'n vnode" where
  "parent_node_of dir path st =
     (if starts_with path ''/'' then RootDir else case dir of Some d \<Rightarrow> d | None \<Rightarrow> CURRENT_DIR st)"

definition absolute_path :: "('n, 'f, 'w) vfs_ops \<Rightarrow> string \<Rightarrow> ('n, 'f, 'w) fsys \<Rightarrow> string" where
  "absolute_path V path st =
     (if starts_with path ''/'' then canonicalize V path
      else canonicalize V (CURRENT_DIR_PATH st @ path))"

definition lookup ::
  "('n, 'f, 'w) vfs_ops \<Rightarrow> 'n vnode option \<Rightarrow> string \<Rightarrow> ('n, 'f, 'w) fsys \<Rightarrow> 'n AxResult" where
  "lookup V dir path st =
     (if path = [] then Err NotFound
      else bindR (node_lookup V (parent_node_of dir path st) path st) (\<lambda>node.
           if ends_with path ''/''
           then bindR (vn_get_attr V node (world st)) (\<lambda>attr.
                if attr_is_dir attr then Ok node else Err NotADirectory)
           else Ok node))"

definition create_file ::
  "('n, 'f, 'w) vfs_ops \<Rightarrow> 'n vnode option \<Rightarrow> string \<Rightarrow> (('n, 'f, 'w) fsys, AxError, 'n) io" where
  "create_file V dir path st =
     (if path = [] then (Err NotFound, st)
      else if ends_with path ''/'' then (Err NotADirectory, st)
      else let parent = parent_node_of dir path st
           in bindS (node_create V parent path FtFile) (\<lambda>_. getS (node_lookup V parent path)) st)"

definition create_dir ::
  "('n, 'f, 'w) vfs_ops \<Rightarrow> 'n vnode option \<Rightarrow> string \<Rightarrow> (('n, 'f, 'w) fsys, AxError, unit) io" where
  "create_dir V dir path st =
     (case lookup V dir path st of
        Ok _ \<Rightarrow> (Err AlreadyExists, st)
      | Err e \<Rightarrow> if e = NotFound then node_create V (parent_node_of dir path st) path FtDir st else (Err e, st)
      | Panic \<Rightarrow> (Panic, st))"

definition remove_file ::
  "('n, 'f, 'w) vfs_ops \<Rightarrow> 'n vnode option \<Rightarrow> string \<Rightarrow> (('n, 'f, 'w) fsys, AxError, unit) io" where
  "remove_file V dir path =
     bindS (getS (lookup V dir path)) (\<lambda>node.
     bindS (getS (\<lambda>s. vn_get_attr V node (world s))) (\<lambda>attr st.
       if attr_is_dir attr then (Err IsADirectory, st)
       else if \<not> owner_writable attr then (Err PermissionDenied, st)
       else node_remove V (parent_node_of dir path st) path st))"

definition remove_dir ::
  "('n, 'f, 'w) vfs_ops \<Rightarrow> 'n vnode option \<Rightarrow> string \<Rightarrow> (('n, 'f, 'w) fsys, AxError, unit) io" where
  "remove_dir V dir path st =
     (let path_check = trim_matches (CHR ''/'') path
      in if path = [] then (Err NotFound, st)
         else if path_check = [] then (Err DirectoryNotEmpty, st)
         else if path_check = ''.'' \<or> path_check = ''..'' \<or>
                 ends_with path_check ''/.'' \<or> ends_with path_check ''/..''
              then (Err InvalidInput, st)
         else if root_contains st (absolute_path V path st) then (Err PermissionDenied, st)
         else bindS (getS (lookup V dir path)) (\<lambda>node.
              bindS (getS (\<lambda>s. vn_get_attr V node (world s))) (\<lambda>attr s.
                if \<not> attr_is_dir attr then (Err NotADirectory, s)
                else if \<not> owner_writable attr then (Err PermissionDenied, s)
                else node_remove V (parent_node_of dir path s) path s)) st)"

definition set_current_dir :: "('n, 'f, 'w) vfs_ops \<Rightarrow> string \<Rightarrow> (('n, 'f, 'w) fsys, AxError, unit) io" where
  "set_current_dir V path st =
     (let p = absolute_path V path st; abs_path = (if ends_with p ''/'' then p else p @ ''/'')
      in if abs_path = ''/'' then (Ok (), st\<lparr>CURRENT_DIR := RootDir, CURRENT_DIR_PATH := ''/''\<rparr>)
         else bindS (getS (lookup V None abs_path)) (\<lambda>node.
              bindS (getS (\<lambda>s. vn_get_attr V node (world s))) (\<lambda>attr s.
                if \<not> attr_is_dir attr then (Err NotADirectory, s)
                else if \<not> owner_executable attr then (Err PermissionDenied, s)
                else (Ok (), s\<lparr>CURRENT_DIR := Ext node, CURRENT_DIR_PATH := abs_path\<rparr>))) st)"

definition rename :: "('n, 'f, 'w) vfs_ops \<Rightarrow> string \<Rightarrow> string \<Rightarrow> (('n, 'f, 'w) fsys, AxError, unit) io" where
  "rename V old new =
     bindS (\<lambda>st. if is_ok (node_lookup V (parent_node_of None new st) new st)
                 then remove_file V None new st else (Ok (), st)) (\<lambda>_ st.
       node_rename V (parent_node_of None old st) old new st)"

section \<open>Opened files\<close>

datatype cap = READ | WRITE | EXECUTE

record OpenOptions =
  o_read :: bool
  o_write :: bool
  o_execute :: bool
  o_append :: bool
  o_truncate :: bool
  o_create :: bool
  o_create_new :: bool
  o_directory :: bool

definition OpenOptions_new :: OpenOptions where
  "OpenOptions_new = \<lparr>o_read = False, o_write = False, o_execute = False, o_append = False,
     o_truncate = False, o_create = False, o_create_new = False, o_directory = False\<rparr>"

definition is_valid :: "OpenOptions \<Rightarrow> bool" where
  "is_valid opts =
     (if \<not> o_read opts \<and> \<not> o_write opts \<and> \<not> o_append opts \<and> \<not> o_directory opts then False
      else case (o_write opts, o_append opts) of
             (True, False) \<Rightarrow> True
           | (False, False) \<Rightarrow> \<not> (o_truncate opts \<or> o_create opts \<or> o_create_new opts)
           | (_, True) \<Rightarrow> \<not> (o_truncate opts \<and> \<not> o_create_new opts))"

definition opts_to_cap :: "OpenOptions \<Rightarrow> cap set" where
  "opts_to_cap opts =
     (if o_read opts then {READ} else {}) \<union> (if o_write opts \<or> o_append opts then {WRITE} else {}) \<union>
     (if o_execute opts then {EXECUTE} else {})"

definition perm_to_cap :: "FileAttr \<Rightarrow> cap set" where
  "perm_to_cap perm =
     (if owner_readable perm then {READ} else {}) \<union> (if owner_writable perm then {WRITE} else {}) \<union>
     (if owner_executable perm then {EXECUTE} else {})"

record 'n File =
  f_node :: 'n
  f_cap :: "cap set"
  is_append :: bool
  f_offset :: u64

definition access_node :: "cap set \<Rightarrow> 'n File \<Rightarrow> 'n AxResult" where
  "access_node c f = (if c \<subseteq> f_cap f then Ok (f_node f) else Err PermissionDenied)"

definition open_at ::
  "('n, 'f, 'w) vfs_ops \<Rightarrow> 'n vnode option \<Rightarrow> string \<Rightarrow> OpenOptions \<Rightarrow> (('n, 'f, 'w) fsys, AxError, 'n File) io" where
  "open_at V dir path opts st =
     (if \<not> is_valid opts then (Err InvalidInput, st)
      else bindS (\<lambda>s. if o_create opts \<or> o_create_new opts
                      then case lookup V dir path s of
                             Ok node \<Rightarrow> if o_create_new opts then (Err AlreadyExists, s) else (Ok node, s)
                           | Err e \<Rightarrow> if e = NotFound then create_file V dir path s else (Err e, s)
                           | Panic \<Rightarrow> (Panic, s)
                      else (lookup V dir path s, s)) (\<lambda>node.
           bindS (getS (\<lambda>s. vn_get_attr V node (world s))) (\<lambda>attr s.
             if attr_is_dir attr then (Err IsADirectory, s)
             else if \<not> opts_to_cap opts \<subseteq> perm_to_cap attr then (Err PermissionDenied, s)
             else bindS (on_world (vn_open V node)) (\<lambda>_.
                  bindS (\<lambda>s. if o_truncate opts then on_world (vn_truncate V node 0) s else (Ok (), s)) (\<lambda>_.
                    okS \<lparr>f_node = node, f_cap = opts_to_cap opts, is_append = o_append opts,
                         f_offset = 0\<rparr>)) s)) st)"

definition file_truncate :: "('n, 'f, 'w) vfs_ops \<Rightarrow> 'n File \<Rightarrow> u64 \<Rightarrow> (('n, 'f, 'w) fsys, AxError, unit) io" where
  "file_truncate V f sz st =
     (case access_node {WRITE} f of
        Ok node \<Rightarrow> on_world (vn_truncate V node sz) st
      | Err e \<Rightarrow> (Err e, st)
      | Panic \<Rightarrow> (Panic, st))"

definition file_get_attr :: "('n, 'f, 'w) vfs_ops \<Rightarrow> 'n File \<Rightarrow> ('n, 'f, 'w) fsys \<Rightarrow> FileAttr AxResult" where
  "file_get_attr V f st = bindR (access_node {} f) (\<lambda>node. vn_get_attr V node (world st))"

text \<open>Reads return the bytes and the file with its cursor moved; \<open>len\<close> is the size of the buffer.\<close>

definition file_read ::
  "('n, 'f, 'w) vfs_ops \<Rightarrow> 'n File \<Rightarrow> nat \<Rightarrow> ('n, 'f, 'w) fsys \<Rightarrow> (u8 list \<times> 'n File) AxResult" where
  "file_read V f len st =
     bindR (access_node {READ} f) (\<lambda>node.
     bindR (vn_read_at V node (f_offset f) len (world st)) (\<lambda>bytes.
       Ok (bytes, f\<lparr>f_offset := f_offset f + of_nat (length bytes)\<rparr>)))"

definition file_read_at ::
  "('n, 'f, 'w) vfs_ops \<Rightarrow> 'n File \<Rightarrow> u64 \<Rightarrow> nat \<Rightarrow> ('n, 'f, 'w) fsys \<Rightarrow> u8 list AxResult" where
  "file_read_at V f offset len st =
     bindR (access_node {READ} f) (\<lambda>node. vn_read_at V node offset len (world st))"

definition file_write ::
  "('n, 'f, 'w) vfs_ops \<Rightarrow> 'n File \<Rightarrow> u8 list \<Rightarrow> (('n, 'f, 'w) fsys, AxError, nat \<times> 'n File) io" where
  "file_write V f buf =
     bindS (\<lambda>s. if is_append f then (bindR (file_get_attr V f s) (\<lambda>a. Ok (attr_size a)), s)
                else (Ok (f_offset f), s)) (\<lambda>offset.
     bindS (getS (\<lambda>_. access_node {WRITE} f)) (\<lambda>node.
     bindS (on_world (vn_write_at V node offset buf)) (\<lambda>write_len.
       okS (write_len, f\<lparr>f_offset := offset + of_nat write_len\<rparr>))))"

definition file_write_at ::
  "('n, 'f, 'w) vfs_ops \<Rightarrow> 'n File \<Rightarrow> u64 \<Rightarrow> u8 list \<Rightarrow> (('n, 'f, 'w) fsys, AxError, nat) io" where
  "file_write_at V f offset buf =
     bindS (getS (\<lambda>_. access_node {WRITE} f)) (\<lambda>node. on_world (vn_write_at V node offset buf))"

definition file_flush :: "('n, 'f, 'w) vfs_ops \<Rightarrow> 'n File \<Rightarrow> (('n, 'f, 'w) fsys, AxError, unit) io" where
  "file_flush V f = bindS (getS (\<lambda>_. access_node {WRITE} f)) (\<lambda>node. on_world (vn_fsync V node))"

datatype SeekFrom = Start u64 | Current i64 | End i64

definition file_seek ::
  "('n, 'f, 'w) vfs_ops \<Rightarrow> 'n File \<Rightarrow> SeekFrom \<Rightarrow> ('n, 'f, 'w) fsys \<Rightarrow> (u64 \<times> 'n File) AxResult" where
  "file_seek V f pos st =
     bindR (file_get_attr V f st) (\<lambda>attr.
     bindR (ok_or InvalidInput (case pos of
              Start p \<Rightarrow> Some p
            | Current off \<Rightarrow> checked_add_signed (f_offset f) off
            | End off \<Rightarrow> checked_add_signed (attr_size attr) off)) (\<lambda>new_offset.
       Ok (new_offset, f\<lparr>f_offset := new_offset\<rparr>)))"

definition file_drop :: "('n, 'f, 'w) vfs_ops \<Rightarrow> 'n File \<Rightarrow> ('n, 'f, 'w) fsys \<Rightarrow> ('n, 'f, 'w) fsys" where
  "file_drop V f st = snd (on_world (vn_release V (f_node f)) st)"

section \<open>Opened directories\<close>

record 'n Directory =
  d_node :: 'n
  d_cap :: "cap set"
  entry_idx :: nat

definition dir_access_node :: "cap set \<Rightarrow> 'n Directory \<Rightarrow> 'n AxResult" where
  "dir_access_node c d = (if c \<subseteq> d_cap d then Ok (d_node d) else Err PermissionDenied)"

definition open_dir_at_node ::
  "('n, 'f, 'w) vfs_ops \<Rightarrow> 'n vnode option \<Rightarrow> string \<Rightarrow> OpenOptions \<Rightarrow>
   (('n, 'f, 'w) fsys, AxError, 'n Directory) io" where
  "open_dir_at_node V dir path opts st =
     (if \<not> o_read opts then (Err InvalidInput, st)
      else if o_create opts \<or> o_create_new opts \<or> o_write opts \<or> o_append opts \<or> o_truncate opts
      then (Err InvalidInput, st)
      else bindS (getS (lookup V dir path)) (\<lambda>node.
           bindS (getS (\<lambda>s. vn_get_attr V node (world s))) (\<lambda>attr s.
             if \<not> attr_is_dir attr then (Err NotADirectory, s)
             else if \<not> opts_to_cap opts \<subseteq> perm_to_cap attr then (Err PermissionDenied, s)
             else bindS (on_world (vn_open V node)) (\<lambda>_.
                  okS \<lparr>d_node = node, d_cap = perm_to_cap attr, entry_idx = 0\<rparr>) s)) st)"

definition access_at :: "string \<Rightarrow> 'n Directory \<Rightarrow> 'n vnode option AxResult" where
  "access_at path d =
     (if starts_with path ''/'' then Ok None
      else bindR (dir_access_node {EXECUTE} d) (\<lambda>n. Ok (Some (Ext n))))"

definition open_dir_at ::
  "('n, 'f, 'w) vfs_ops \<Rightarrow> 'n Directory \<Rightarrow> string \<Rightarrow> OpenOptions \<Rightarrow>
   (('n, 'f, 'w) fsys, AxError, 'n Directory) io" where
  "open_dir_at V d path opts =
     bindS (getS (\<lambda>_. access_at path d)) (\<lambda>dir. open_dir_at_node V dir path opts)"

definition open_file_at ::
  "('n, 'f, 'w) vfs_ops \<Rightarrow> 'n Directory \<Rightarrow> string \<Rightarrow> OpenOptions \<Rightarrow> (('n, 'f, 'w) fsys, AxError, 'n File) io" where
  "open_file_at V d path opts = bindS (getS (\<lambda>_. access_at path d)) (\<lambda>dir. open_at V dir path opts)"

definition dir_create_file ::
  "('n, 'f, 'w) vfs_ops \<Rightarrow> 'n Directory \<Rightarrow> string \<Rightarrow> (('n, 'f, 'w) fsys, AxError, 'n) io" where
  "dir_create_file V d path = bindS (getS (\<lambda>_. access_at path d)) (\<lambda>dir. create_file V dir path)"

definition dir_create_dir ::
  "('n, 'f, 'w) vfs_ops \<Rightarrow> 'n Directory \<Rightarrow> string \<Rightarrow> (('n, 'f, 'w) fsys, AxError, unit) io" where
  "dir_create_dir V d path = bindS (getS (\<lambda>_. access_at path d)) (\<lambda>dir. create_dir V dir path)"

definition dir_remove_file ::
  "('n, 'f, 'w) vfs_ops \<Rightarrow> 'n Directory \<Rightarrow> string \<Rightarrow> (('n, 'f, 'w) fsys, AxError, unit) io" where
  "dir_remove_file V d path = bindS (getS (\<lambda>_. access_at path d)) (\<lambda>dir. remove_file V dir path)"

definition dir_remove_dir ::
  "('n, 'f, 'w) vfs_ops \<Rightarrow> 'n Directory \<Rightarrow> string \<Rightarrow> (('n, 'f, 'w) fsys, AxError, unit) io" where
  "dir_remove_dir V d path = bindS (getS (\<lambda>_. access_at path d)) (\<lambda>dir. remove_dir V dir path)"

definition read_dir ::
  "('n, 'f, 'w) vfs_ops \<Rightarrow> 'n Directory \<Rightarrow> nat \<Rightarrow> ('n, 'f, 'w) fsys \<Rightarrow> (DirEntry list \<times> 'n Directory) AxResult" where
  "read_dir V d n st =
     bindR (dir_access_node {READ} d) (\<lambda>node.
     bindR (vn_read_dir V node (entry_idx d) n (world st)) (\<lambda>ents.
       Ok (ents, d\<lparr>entry_idx := entry_idx d + length ents\<rparr>)))"

section \<open>A file system in memory\<close>

text \<open>
  A concrete flat file system: it shows that what is assumed of file systems below can hold. A node is
  a file system with a path; the state maps nodes to their contents.
\<close>

definition splice :: "u8 list \<Rightarrow> nat \<Rightarrow> u8 list \<Rightarrow> u8 list" where
  "splice c off b = take off c @ replicate (off - length c) 0 @ b @ drop (off + length b) c"

type_synonym mem_node = "nat \<times> string"
type_synonym mem_world = "mem_node \<Rightarrow> (bool \<times> u8 list) option"

definition mem_attr :: "mem_node \<Rightarrow> mem_world \<Rightarrow> FileAttr AxResult" where
  "mem_attr n w =
     (let attr = (\<lambda>d c. \<lparr>attr_is_dir = d, owner_readable = True, owner_writable = True, owner_executable = True,
                        attr_size = of_nat (length c)\<rparr>)
      in case w n of Some (d, c) \<Rightarrow> Ok (attr d c) | None \<Rightarrow> if snd n = [] then Ok (attr True []) else Err NotFound)"

definition mem_ops :: "(mem_node, nat, mem_world) vfs_ops" where
  "mem_ops =
     \<lparr>fs_root_dir = (\<lambda>f. (f, [])), fs_mount = (\<lambda>_ _ _. okS ()), fs_umount = (\<lambda>_ w. w),
      vn_get_attr = mem_attr,
      vn_lookup = (\<lambda>n p w. case w (fst n, p) of
          None \<Rightarrow> if p = [] then Ok (fst n, p) else Err NotFound | Some _ \<Rightarrow> Ok (fst n, p)),
      vn_create = (\<lambda>n p ty w. (Ok (), w((fst n, p) \<mapsto> (ty = FtDir, [])))),
      vn_remove = (\<lambda>n p w. case w (fst n, p) of
          None \<Rightarrow> (Err NotFound, w) | Some _ \<Rightarrow> (Ok (), w((fst n, p) := None))),
      vn_rename = (\<lambda>n p q w. case w (fst n, p) of
          None \<Rightarrow> (Err NotFound, w)
        | Some x \<Rightarrow> (Ok (), w((fst n, p) := None, (fst n, trim_matches (CHR ''/'') q) \<mapsto> x))),
      vn_open = (\<lambda>_. okS ()), vn_release = (\<lambda>_. okS ()),
      vn_truncate = (\<lambda>n k w. case w n of
          None \<Rightarrow> (Err NotFound, w) | Some (d, c) \<Rightarrow> (Ok (), w(n \<mapsto> (d, take (unat k) c)))),
      vn_fsync = (\<lambda>_. okS ()),
      vn_read_at = (\<lambda>n off len w. case w n of
          None \<Rightarrow> Err NotFound | Some (d, c) \<Rightarrow> Ok (take len (drop (unat off) c))),
      vn_write_at = (\<lambda>n off b w. case w n of
          None \<Rightarrow> (Err NotFound, w) | Some (d, c) \<Rightarrow> (Ok (length b), w(n \<mapsto> (d, splice c (unat off) b)))),
      vn_read_dir = (\<lambda>_ _ _ _. Ok []), canonicalize = id\<rparr>"

definition mem_fsys :: "mem_world \<Rightarrow> (mem_node, nat, mem_world) fsys" where
  "mem_fsys w = \<lparr>world = w, main_fs = 0, mounts = [], CURRENT_DIR = RootDir, CURRENT_DIR_PATH = ''/''\<rparr>"

text \<open>The entries a file system reports for a node: what it is assumed to do for \<open>read_dir\<close>.\<close>

definition lists :: "('n, 'f, 'w) vfs_ops \<Rightarrow> 'n \<Rightarrow> 'w \<Rightarrow> DirEntry list \<Rightarrow> bool" where
  "lists V n w L \<longleftrightarrow> (\<forall>i k. vn_read_dir V n i k w = Ok (take k (drop i L)))"

text \<open>The file system in memory with one listing for its directories.\<close>

definition list_ops :: "DirEntry list \<Rightarrow> (mem_node, nat, mem_world) vfs_ops" where
  "list_ops L = mem_ops\<lparr>vn_read_dir := (\<lambda>_ i k _. Ok (take k (drop i L)))\<rparr>"

section \<open>Mount points\<close>

text \<open>The path that the root directory matches: without slashes at the ends and leading \<open>./\<close>.\<close>

function norm_path :: "string \<Rightarrow> string" where
  "norm_path p =
     (case strip_prefix ''./'' (trim_matches (CHR ''/'') p) of
        Some rest \<Rightarrow> norm_path rest | None \<Rightarrow> trim_matches (CHR ''/'') p)"
  by auto
termination
proof (relation "measure length")
  fix p rest
  assume "strip_prefix ''./'' (trim_matches (CHR ''/'') p) = Some rest"
  then show "(rest, p) \<in> measure length"
    using length_trim_matches [of "CHR ''/''" p] by (auto dest!: strip_prefix_length)
qed simp

declare norm_path.simps [simp del]

lemma lookup_norm:
  "lookup_mounted_fs main ms path =
     (let (idx, max_len) = best_mount (norm_path path) 0 0 0 ms
      in if max_len = 0 then (main, norm_path path) else (mp_fs (ms ! idx), drop max_len (norm_path path)))"
proof (induction path rule: norm_path.induct)
  case (1 p)
  show ?case
  proof (cases "strip_prefix ''./'' (trim_matches (CHR ''/'') p)")
    case None
    then have "norm_path p = trim_matches (CHR ''/'') p" by (subst norm_path.simps) simp
    with None show ?thesis by (subst lookup_mounted_fs.simps) (simp add: Let_def split: prod.split)
  next
    case (Some rest)
    then have "norm_path p = norm_path rest" by (subst norm_path.simps) simp
    moreover have "lookup_mounted_fs main ms p = lookup_mounted_fs main ms rest"
      using Some by (subst lookup_mounted_fs.simps) (simp add: Let_def)
    ultimately show ?thesis using 1 [OF Some] by (simp split: prod.split)
  qed
qed

definition mount_matches :: "string \<Rightarrow> 'f MountPoint \<Rightarrow> bool" where
  "mount_matches path mp \<longleftrightarrow> starts_with path (tl (mp_path mp)) \<and> 1 < length (mp_path mp)"

lemma best_mount_spec:
  "best_mount path i idx ml ms = (idx', ml') \<Longrightarrow>
     (idx' = idx \<and> ml' = ml \<or>
      (\<exists>k < length ms. idx' = i + k \<and> ml' = length (mp_path (ms ! k)) - 1 \<and> ml < ml' \<and>
         starts_with path (tl (mp_path (ms ! k))))) \<and>
     ml \<le> ml' \<and> (\<forall>mp \<in> set ms. starts_with path (tl (mp_path mp)) \<longrightarrow> length (mp_path mp) - 1 \<le> ml')"
proof (induction path i idx ml ms rule: best_mount.induct)
  case (2 path i idx ml mp mps)
  show ?case
  proof (cases "starts_with path (tl (mp_path mp)) \<and> length (mp_path mp) - 1 > ml")
    case True
    from 2(3) True have eq: "best_mount path (Suc i) i (length (mp_path mp) - 1) mps = (idx', ml')"
      by (auto split: if_splits)
    from 2(1) [OF True eq] have IH: "(idx' = i \<and> ml' = length (mp_path mp) - 1 \<or>
        (\<exists>k < length mps. idx' = Suc i + k \<and> ml' = length (mp_path (mps ! k)) - 1 \<and>
          length (mp_path mp) - 1 < ml' \<and> starts_with path (tl (mp_path (mps ! k))))) \<and>
        length (mp_path mp) - 1 \<le> ml' \<and>
        (\<forall>mp \<in> set mps. starts_with path (tl (mp_path mp)) \<longrightarrow> length (mp_path mp) - 1 \<le> ml')" by simp
    then consider "idx' = i" "ml' = length (mp_path mp) - 1"
      | k where "k < length mps" "idx' = Suc i + k" "ml' = length (mp_path (mps ! k)) - 1"
          "starts_with path (tl (mp_path (mps ! k)))" by blast
    then show ?thesis
    proof cases
      case 1
      then show ?thesis using IH True by (intro conjI disjI2 exI [of _ 0]) auto
    next
      case (2 k)
      then show ?thesis using IH True by (intro conjI disjI2 exI [of _ "Suc k"]) auto
    qed
  next
    case False
    from 2(3) False have eq: "best_mount path (Suc i) idx ml mps = (idx', ml')" by (auto split: if_splits)
    from 2(2) [OF False eq] have IH: "(idx' = idx \<and> ml' = ml \<or>
        (\<exists>k < length mps. idx' = Suc i + k \<and> ml' = length (mp_path (mps ! k)) - 1 \<and>
          ml < ml' \<and> starts_with path (tl (mp_path (mps ! k))))) \<and> ml \<le> ml' \<and>
        (\<forall>mp \<in> set mps. starts_with path (tl (mp_path mp)) \<longrightarrow> length (mp_path mp) - 1 \<le> ml')" by simp
    then consider "idx' = idx" "ml' = ml"
      | k where "k < length mps" "idx' = Suc i + k" "ml' = length (mp_path (mps ! k)) - 1" "ml < ml'"
          "starts_with path (tl (mp_path (mps ! k)))" by blast
    then show ?thesis
    proof cases
      case 1
      then show ?thesis using IH False by auto
    next
      case (2 k)
      then show ?thesis using IH False by (intro conjI disjI2 exI [of _ "Suc k"]) auto
    qed
  qed
qed auto

lemma starts_with_split: "starts_with s p \<Longrightarrow> s = p @ drop (length p) s"
  unfolding starts_with_def by (metis append_take_drop_id)

text \<open>
  C27: A path is served by the file system with the longest mount path that the path begins with, and
  by the main file system when there is none; the file system is given what is left of the path.\<close>

theorem lookup_longest_mount:
  assumes "lookup_mounted_fs main ms path = (fs, rest)"
  shows "(\<exists>mp \<in> set ms. fs = mp_fs mp \<and> mount_matches (norm_path path) mp \<and>
      norm_path path = tl (mp_path mp) @ rest \<and>
      (\<forall>mq \<in> set ms. mount_matches (norm_path path) mq \<longrightarrow> length (mp_path mq) \<le> length (mp_path mp))) \<or>
    (fs = main \<and> rest = norm_path path \<and> (\<forall>mq \<in> set ms. \<not> mount_matches (norm_path path) mq))"
proof -
  obtain idx ml where b: "best_mount (norm_path path) 0 0 0 ms = (idx, ml)" by fastforce
  note spec = best_mount_spec [OF b]
  show ?thesis
  proof (cases "ml = 0")
    case True
    then have "\<not> mount_matches (norm_path path) mq" if "mq \<in> set ms" for mq
      using spec that by (auto simp: mount_matches_def)
    then show ?thesis using assms b True by (simp add: lookup_norm)
  next
    case False
    with spec have i: "idx < length ms" "ml = length (mp_path (ms ! idx)) - 1"
      "starts_with (norm_path path) (tl (mp_path (ms ! idx)))" by auto
    let ?mp = "ms ! idx"
    have "fs = mp_fs ?mp" "rest = drop ml (norm_path path)" using assms b False by (simp_all add: lookup_norm)
    moreover have "norm_path path = tl (mp_path ?mp) @ drop ml (norm_path path)"
      using starts_with_split [OF i(3)] i(2) by simp
    moreover have "length (mp_path mq) \<le> length (mp_path ?mp)"
      if "mq \<in> set ms" "mount_matches (norm_path path) mq" for mq
      using spec that i(2) False by (fastforce simp: mount_matches_def)
    ultimately show ?thesis
      using i False by (intro disjI1 bexI [of _ ?mp]) (auto simp: mount_matches_def)
  qed
qed

theorem lookup_longest_mount_witness:
  "\<exists>mp. mp_fs mp = (1::nat) \<and> mount_matches (norm_path ''/tmp/x'') mp \<and>
     lookup_mounted_fs (0::nat) [\<lparr>mp_path = ''/tmp'', mp_fs = 1\<rparr>] ''/tmp/x'' = (1, ''/x'')"
proof -
  let ?ms = "[\<lparr>mp_path = ''/tmp'', mp_fs = 1::nat\<rparr>]"
  have e: "lookup_mounted_fs 0 ?ms ''/tmp/x'' = (1, ''/x'')"
    by (simp add: lookup_mounted_fs.simps trim_matches_def starts_with_def)
  from lookup_longest_mount [OF e] obtain mp where "mp \<in> set ?ms" "mount_matches (norm_path ''/tmp/x'') mp"
    by auto
  with e show ?thesis by (intro exI [of _ mp]) simp
qed

text \<open>
  The match ignores the boundaries of path components: a file of the main file system whose name
  begins with the name of a mount point is looked up in the mounted file system.\<close>

theorem mount_ignores_component_boundary:
  "lookup_mounted_fs main [\<lparr>mp_path = ''/tmp'', mp_fs = fs\<rparr>] ''/tmpfile'' = (fs, ''file'')"
  by (simp add: lookup_mounted_fs.simps trim_matches_def starts_with_def)

definition mounts_ok :: "('n, 'f, 'w) fsys \<Rightarrow> bool" where
  "mounts_ok st \<longleftrightarrow> distinct (map mp_path (mounts st)) \<and>
     (\<forall>mp \<in> set (mounts st). starts_with (mp_path mp) ''/'' \<and> 1 < length (mp_path mp))"

lemma on_world_same [simp]:
  "mounts (snd (on_world m st)) = mounts st" "main_fs (snd (on_world m st)) = main_fs st"
  "CURRENT_DIR (snd (on_world m st)) = CURRENT_DIR st"
  "CURRENT_DIR_PATH (snd (on_world m st)) = CURRENT_DIR_PATH st"
  by (simp_all add: on_world_def split: prod.splits)

lemma on_worldD:
  assumes "on_world m st = (r, st')"
  shows "mounts st' = mounts st" "main_fs st' = main_fs st" "CURRENT_DIR st' = CURRENT_DIR st"
    "CURRENT_DIR_PATH st' = CURRENT_DIR_PATH st"
  using on_world_same [of m st] assms by simp_all

lemma root_mount_mounts:
  assumes "root_mount V path fs st = (r, st')"
  shows "(r = Ok () \<and> mounts st' = mounts st @ [\<lparr>mp_path = path, mp_fs = fs\<rparr>] \<and> path \<noteq> ''/'' \<and>
      starts_with path ''/'' \<and> \<not> root_contains st path) \<or> (r \<noteq> Ok () \<and> mounts st' = mounts st)"
  using assms
  by (auto simp: root_mount_def bindS_def on_world_def Let_def split: if_splits prod.splits result.splits)

lemma starts_with_slash: "starts_with p ''/'' \<Longrightarrow> p \<noteq> ''/'' \<Longrightarrow> 1 < length p"
  unfolding starts_with_def by (cases p; cases "tl p") auto



section \<open>Files\<close>

text \<open>What is relied on of a file system that keeps contents: reads and writes at an offset.\<close>

definition content_laws :: "('n, 'f, 'w) vfs_ops \<Rightarrow> ('n \<Rightarrow> 'w \<Rightarrow> u8 list option) \<Rightarrow> bool" where
  "content_laws V content \<longleftrightarrow>
     (\<forall>n w c off len. content n w = Some c \<longrightarrow> vn_read_at V n off len w = Ok (take len (drop (unat off) c))) \<and>
     (\<forall>n w c. content n w = Some c \<longrightarrow>
        (\<exists>a. vn_get_attr V n w = Ok a \<and> attr_size a = of_nat (length c))) \<and>
     (\<forall>n w c off b k w'. content n w = Some c \<longrightarrow> vn_write_at V n off b w = (Ok k, w') \<longrightarrow>
        k \<le> length b \<and> content n w' = Some (splice c (unat off) (take k b)) \<and>
        (\<forall>m. m \<noteq> n \<longrightarrow> content m w' = content m w))"

lemma content_read:
  "content_laws V content \<Longrightarrow> content n w = Some c \<Longrightarrow> vn_read_at V n off len w = Ok (take len (drop (unat off) c))"
  unfolding content_laws_def by blast

lemma content_attr:
  assumes "content_laws V content" "content n w = Some c"
  obtains a where "vn_get_attr V n w = Ok a" "attr_size a = of_nat (length c)"
  using assms unfolding content_laws_def by blast

lemma content_write:
  assumes "content_laws V content" "content n w = Some c" "vn_write_at V n off b w = (Ok k, w')"
  shows "k \<le> length b" "content n w' = Some (splice c (unat off) (take k b))"
    "m \<noteq> n \<Longrightarrow> content m w' = content m w"
proof -
  from assms have "k \<le> length b \<and> content n w' = Some (splice c (unat off) (take k b)) \<and>
      (\<forall>m. m \<noteq> n \<longrightarrow> content m w' = content m w)"
    unfolding content_laws_def by blast
  then show "k \<le> length b" "content n w' = Some (splice c (unat off) (take k b))"
    "m \<noteq> n \<Longrightarrow> content m w' = content m w" by simp_all
qed

lemma take_splice:
  "k = length b \<Longrightarrow> take k (drop off (splice c off b)) = b"
  by (simp add: splice_def)

lemma file_write_offset:
  assumes "content_laws V content" "content (f_node f) (world st) = Some c"
    and "file_write V f buf st = (Ok (k, f'), st')"
  shows "\<exists>off. off = (if is_append f then of_nat (length c) else f_offset f) \<and>
    f' = f\<lparr>f_offset := off + of_nat k\<rparr> \<and> k \<le> length buf \<and> WRITE \<in> f_cap f \<and>
    content (f_node f) (world st') = Some (splice c (unat off) (take k buf)) \<and>
    (\<forall>m. m \<noteq> f_node f \<longrightarrow> content m (world st') = content m (world st))"
proof -
  let ?off = "if is_append f then of_nat (length c) else f_offset f :: u64"
  obtain a where a: "vn_get_attr V (f_node f) (world st) = Ok a" "attr_size a = of_nat (length c)"
    by (rule content_attr [OF assms(1,2)])
  from assms(3) have w: "WRITE \<in> f_cap f" "f' = f\<lparr>f_offset := ?off + of_nat k\<rparr>"
    "on_world (vn_write_at V (f_node f) ?off buf) st = (Ok k, st')"
    using a by (auto simp: file_write_def ok_iff access_node_def file_get_attr_def okS_def split: if_splits)
  then have "vn_write_at V (f_node f) ?off buf (world st) = (Ok k, world st')"
    by (auto simp: on_world_def Let_def split: prod.splits)
  note cw = content_write [OF assms(1,2) this]
  show ?thesis by (rule exI [of _ ?off]) (use cw w(1,2) in simp)
qed


definition mem_content :: "mem_node \<Rightarrow> mem_world \<Rightarrow> u8 list option" where
  "mem_content n w = map_option snd (w n)"

lemma mem_content_laws: "content_laws mem_ops mem_content"
  by (auto simp: content_laws_def mem_ops_def mem_content_def mem_attr_def Let_def split: option.splits)


lemma open_at_cap: "open_at V dir path opts st = (Ok f, st') \<Longrightarrow> f_cap f = opts_to_cap opts"
  by (auto simp: open_at_def ok_iff okS_def split: if_splits)

text \<open>
  C30: A file that was opened without write access cannot be changed through the handle, and one that was
  opened without read access cannot be read: every such operation fails with \<open>PermissionDenied\<close> (or
  with the error of the file system when it cannot tell the size of a file in append mode), and leaves
  the file systems as they are.\<close>

theorem open_file_permissions:
  assumes "open_at V dir path opts st = (Ok f, st')"
  shows "(\<not> o_write opts \<longrightarrow> \<not> o_append opts \<longrightarrow>
      file_truncate V f sz s = (Err PermissionDenied, s) \<and> file_write_at V f off buf s = (Err PermissionDenied, s) \<and>
      file_flush V f s = (Err PermissionDenied, s) \<and>
      (\<exists>e. file_write V f buf s = (e, s) \<and> (\<forall>x. e \<noteq> Ok x) \<and> (\<not> is_append f \<longrightarrow> e = Err PermissionDenied))) \<and>
    (\<not> o_read opts \<longrightarrow> file_read V f len s = Err PermissionDenied \<and> file_read_at V f off len s = Err PermissionDenied)"
proof -
  have w: "WRITE \<notin> f_cap f" if "\<not> o_write opts" "\<not> o_append opts"
    using that open_at_cap [OF assms] by (auto simp: opts_to_cap_def)
  have r: "READ \<notin> f_cap f" if "\<not> o_read opts"
    using that open_at_cap [OF assms] by (auto simp: opts_to_cap_def)
  show ?thesis
    using w r
    by (auto simp: file_truncate_def file_write_at_def file_flush_def file_write_def file_read_def
        file_read_at_def access_node_def bindS_def split: result.splits)
qed

theorem open_file_permissions_witness:
  "\<exists>f st'. open_at mem_ops None ''/a'' (OpenOptions_new\<lparr>o_read := True\<rparr>)
       (mem_fsys [(0, ''a'') \<mapsto> (False, [1])]) = (Ok f, st') \<and>
     file_truncate mem_ops f 0 st' = (Err PermissionDenied, st')"
proof -
  let ?o = "OpenOptions_new\<lparr>o_read := True\<rparr>" and ?st = "mem_fsys [(0, ''a'') \<mapsto> (False, [1])]"
  define f where "f = \<lparr>f_node = (0::nat, ''a''), f_cap = opts_to_cap ?o, is_append = False, f_offset = 0\<rparr>"
  have "lookup mem_ops None ''/a'' ?st = Ok (0, ''a'')"
    by (simp add: lookup_def parent_node_of_def starts_with_def ends_with_def root_lookup_def
        lookup_mounted_fs.simps trim_matches_def mem_fsys_def mem_ops_def)
  then have "open_at mem_ops None ''/a'' ?o ?st = (Ok f, ?st)"
    by (simp add: open_at_def is_valid_def OpenOptions_new_def mem_fsys_def mem_ops_def mem_attr_def bindS_def
        on_world_def f_def opts_to_cap_def perm_to_cap_def)
  with open_file_permissions [OF this] show ?thesis by (auto simp: OpenOptions_new_def)
qed

text \<open>
  The current directory is always an absolute path that ends in a slash, which is what makes
  appending a relative path to it meaningful; a failed \<open>set_current_dir\<close> changes nothing. The file
  systems are left alone either way.\<close>

theorem set_current_dir_keeps_path:
  assumes "\<forall>p. starts_with p ''/'' \<longrightarrow> starts_with (canonicalize V p) ''/''"
    and "starts_with (CURRENT_DIR_PATH st) ''/''" "ends_with (CURRENT_DIR_PATH st) ''/''"
    and "set_current_dir V path st = (r, st')"
  shows "starts_with (CURRENT_DIR_PATH st') ''/'' \<and> ends_with (CURRENT_DIR_PATH st') ''/'' \<and>
    world st' = world st \<and> mounts st' = mounts st \<and> (r \<noteq> Ok () \<longrightarrow> st' = st)"
proof -
  have app: "starts_with (x @ y) ''/''" if "starts_with x ''/''" for x y
    using that by (cases x) (auto simp: starts_with_def)
  have "starts_with (absolute_path V path st) ''/''"
    using assms(1) assms(2) app [of "CURRENT_DIR_PATH st" path] by (auto simp: absolute_path_def)
  moreover have "ends_with (x @ ''/'') ''/''" for x by (simp add: ends_with_def starts_with_def)
  moreover have "ends_with ''/'' ''/''" "starts_with ''/'' ''/''" by (simp_all add: ends_with_def starts_with_def)
  ultimately show ?thesis
    using assms(2-4) app
    by (auto simp: set_current_dir_def Let_def bindS_def split: if_splits result.splits)
qed

theorem set_current_dir_keeps_path_witness:
  "starts_with (CURRENT_DIR_PATH (snd (set_current_dir mem_ops ''d''
     (mem_fsys [(0, ''d'') \<mapsto> (True, [])])))) ''/''"
proof -
  let ?st = "mem_fsys [(0, ''d'') \<mapsto> (True, [])]"
  obtain r st' where e: "set_current_dir mem_ops ''d'' ?st = (r, st')" by fastforce
  have "starts_with (CURRENT_DIR_PATH st') ''/''"
    using set_current_dir_keeps_path [OF _ _ _ e]
    by (auto simp: mem_ops_def mem_fsys_def starts_with_def ends_with_def)
  with e show ?thesis by simp
qed

text \<open>
  Renaming a file to itself deletes it: the destination exists, so it is removed first, and the
  rename then fails because the source is gone.\<close>

theorem rename_to_itself_deletes:
  "rename mem_ops ''/a'' ''/a'' (mem_fsys [(0, ''a'') \<mapsto> (False, [1, 2, 3])]) =
     (Err NotFound, mem_fsys Map.empty)"
proof -
  let ?st = "mem_fsys [(0, ''a'') \<mapsto> (False, [1, 2, 3])]"
  have l: "lookup_mounted_fs 0 [] ''/a'' = (0::nat, ''a'')" by (simp add: lookup_mounted_fs.simps trim_matches_def)
  have p: "parent_node_of None ''/a'' st = RootDir" for st :: "(mem_node, nat, mem_world) fsys"
    by (simp add: parent_node_of_def starts_with_def)
  have "remove_file mem_ops None ''/a'' ?st = (Ok (), mem_fsys Map.empty)"
    using l p
    by (simp add: remove_file_def lookup_def ends_with_def starts_with_def root_lookup_def root_remove_def
        mem_fsys_def mem_ops_def mem_attr_def bindS_def on_world_def)
  then show ?thesis
    using l p by (simp add: rename_def bindS_def root_lookup_def root_rename_def mem_fsys_def mem_ops_def on_world_def)
qed

end
