(* ===== verification/Paths.thy ===== *)
theory Paths
  imports Vfs
begin

text \<open>
  Canonical paths, hard links and mounted devices: \<open>path.rs\<close>, \<open>imp/fs/mount.rs\<close>, and the system calls
  of \<open>imp/fs/ctl.rs\<close> on paths. Paths are ASCII strings.

  \<open>path_env\<close> is what these functions take from elsewhere: the path of an open file or directory by its
  descriptor, the conversion of errors that \<open>axerrno\<close> provides, and constants of the system call
  interface.
\<close>

section \<open>Strings\<close>

definition is_space :: "char \<Rightarrow> bool" where
  "is_space c \<longleftrightarrow> of_char c \<in> {9, 10, 11, 12, 13, 32 :: nat}"

definition trim :: "string \<Rightarrow> string" where
  "trim s = rev (dropWhile is_space (rev (dropWhile is_space s)))"

definition rfind :: "char \<Rightarrow> string \<Rightarrow> nat option" where
  "rfind c s = (let r = dropWhile (\<lambda>x. x \<noteq> c) (rev s) in if r = [] then None else Some (length r - 1))"

fun split_on :: "char \<Rightarrow> string \<Rightarrow> string list" where
  "split_on c [] = [[]]"
| "split_on c (x # xs) =
     (if x = c then [] # split_on c xs
      else case split_on c xs of [] \<Rightarrow> [[x]] | y # ys \<Rightarrow> (x # y) # ys)"

section \<open>State\<close>

record ('n, 'f, 'w) pst =
  fs :: "('n, 'f, 'w) fsys"
  links :: "string \<Rightarrow> string option"
  ref_counts :: "string \<Rightarrow> nat option"
  MOUNTED :: "(string \<times> string) list"

record path_env =
  AT_FDCWD :: i32
  AT_REMOVEDIR :: u32
  ax_to_linux :: "AxError \<Rightarrow> LinuxError"
  fd_file_path :: "i32 \<Rightarrow> string LinuxResult"
  fd_dir_path :: "i32 \<Rightarrow> string LinuxResult"

definition on_fs ::
  "(('n, 'f, 'w) fsys, AxError, 'a) io \<Rightarrow> (('n, 'f, 'w) pst, AxError, 'a) io" where
  "on_fs m st = (let (r, s) = m (fs st) in (r, st\<lparr>fs := s\<rparr>))"

definition real_path :: "('n, 'f, 'w) pst \<Rightarrow> string \<Rightarrow> string" where
  "real_path st path = (case links st path of Some d \<Rightarrow> d | None \<Rightarrow> path)"

section \<open>Canonical paths\<close>

definition FilePath_new :: "('n, 'f, 'w) vfs_ops \<Rightarrow> string \<Rightarrow> ('n, 'f, 'w) pst \<Rightarrow> string AxResult" where
  "FilePath_new V path st =
     (let p = trim (absolute_path V path (fs st));
          new_path = (if ends_with path ''/'' \<and> \<not> ends_with p ''/'' then p @ ''/'' else p)
      in if starts_with new_path ''/'' then Ok (real_path st new_path) else Panic)"

definition is_root :: "string \<Rightarrow> bool" where
  "is_root p \<longleftrightarrow> p = ''/''"

definition path_is_dir :: "string \<Rightarrow> bool" where
  "path_is_dir p \<longleftrightarrow> ends_with p ''/''"

definition path_is_file :: "string \<Rightarrow> bool" where
  "path_is_file p \<longleftrightarrow> \<not> path_is_dir p"

definition parent :: "string \<Rightarrow> string AxResult" where
  "parent p =
     (if is_root p then Ok ''/''
      else let path = (if ends_with p ''/'' then butlast p else p)
           in bindR (ok_or NotFound (rfind (CHR ''/'') path)) (\<lambda>pos. Ok (take (pos + 1) path)))"

definition path_name :: "string \<Rightarrow> string AxResult" where
  "path_name p =
     (if is_root p then Ok ''/''
      else let path = (if ends_with p ''/'' then butlast p else p)
           in bindR (ok_or NotFound (rfind (CHR ''/'') path)) (\<lambda>start_pos.
              let end_pos = (if ends_with path ''/'' then length path - 1 else length path)
              in if end_pos < start_pos + 1 then Panic
                 else Ok (take (end_pos - (start_pos + 1)) (drop (start_pos + 1) path))))"

definition path_exists :: "('n, 'f, 'w) vfs_ops \<Rightarrow> string \<Rightarrow> ('n, 'f, 'w) pst \<Rightarrow> bool" where
  "path_exists V p st \<longleftrightarrow> is_ok (lookup V None p (fs st))"

definition path_join :: "('n, 'f, 'w) vfs_ops \<Rightarrow> string \<Rightarrow> string \<Rightarrow> ('n, 'f, 'w) pst \<Rightarrow> string AxResult" where
  "path_join V self path st =
     FilePath_new V ((if ends_with self ''/'' then self else self @ ''/'') @ path) st"

definition path_components :: "string \<Rightarrow> string list" where
  "path_components p = split_on (CHR ''/'') (trim_matches (CHR ''/'') p)"

definition handle_file_path ::
  "('n, 'f, 'w) vfs_ops \<Rightarrow> path_env \<Rightarrow> i32 \<Rightarrow> string \<Rightarrow> ('n, 'f, 'w) pst \<Rightarrow> string LinuxResult" where
  "handle_file_path V E dirfd path st =
     (if starts_with path ''/'' then map_err (ax_to_linux E) (FilePath_new V path st)
      else if path = [] then
        bindR (fd_file_path E dirfd) (\<lambda>p. map_err (ax_to_linux E) (FilePath_new V p st))
      else bindR (if dirfd = AT_FDCWD E then map_err (ax_to_linux E) (FilePath_new V [] st)
                  else bindR (fd_dir_path E dirfd) (\<lambda>p. map_err (ax_to_linux E) (FilePath_new V p st)))
             (\<lambda>base. map_err (ax_to_linux E) (path_join V base path st)))"

section \<open>Hard links\<close>

datatype LinkError = LinkExists | InvalidPath | LinkNotFound | NotFile

fun link_err :: "LinkError \<Rightarrow> AxError" where
  "link_err LinkExists = AlreadyExists"
| "link_err InvalidPath = InvalidInput"
| "link_err LinkNotFound = NotFound"
| "link_err NotFile = InvalidInput"

definition decrease_ref_count :: "('n, 'f, 'w) vfs_ops \<Rightarrow> string \<Rightarrow> ('n, 'f, 'w) pst \<Rightarrow> unit option \<times> ('n, 'f, 'w) pst" where
  "decrease_ref_count V path st =
     (case ref_counts st path of
        Some cnt \<Rightarrow>
          if cnt - 1 = 0
          then let (r, st1) = on_fs (remove_file V None path) (st\<lparr>ref_counts := (ref_counts st)(path := None)\<rparr>)
               in (if is_ok r then Some () else None, st1)
          else (Some (), st\<lparr>ref_counts := (ref_counts st)(path \<mapsto> cnt - 1)\<rparr>)
      | None \<Rightarrow> (None, st))"

definition atomic_link_update :: "('n, 'f, 'w) vfs_ops \<Rightarrow> string \<Rightarrow> string \<Rightarrow> ('n, 'f, 'w) pst \<Rightarrow> ('n, 'f, 'w) pst" where
  "atomic_link_update V src dst st =
     (let insert = (\<lambda>s. s\<lparr>links := (links s)(src \<mapsto> dst),
                          ref_counts := (ref_counts s)(dst \<mapsto> (case ref_counts s dst of Some n \<Rightarrow> n | None \<Rightarrow> 0) + 1)\<rparr>)
      in case links st src of
           Some old_dst \<Rightarrow> if old_dst = dst then st else insert (snd (decrease_ref_count V old_dst st))
         | None \<Rightarrow> insert st)"

definition atomic_link_remove ::
  "('n, 'f, 'w) vfs_ops \<Rightarrow> string \<Rightarrow> ('n, 'f, 'w) pst \<Rightarrow> string option \<times> ('n, 'f, 'w) pst" where
  "atomic_link_remove V src st =
     (case links st src of
        Some dst \<Rightarrow> (Some dst, snd (decrease_ref_count V dst (st\<lparr>links := (links st)(src := None)\<rparr>)))
      | None \<Rightarrow> (None, st))"

definition create_link :: "('n, 'f, 'w) vfs_ops \<Rightarrow> string \<Rightarrow> string \<Rightarrow> (('n, 'f, 'w) pst, LinkError, unit) io" where
  "create_link V src dst st =
     (if \<not> path_exists V dst st then (Err LinkNotFound, st)
      else if \<not> path_is_dir dst then (Err NotFile, st)
      else (Ok (), atomic_link_update V src dst st))"

definition remove_link :: "('n, 'f, 'w) vfs_ops \<Rightarrow> string \<Rightarrow> ('n, 'f, 'w) pst \<Rightarrow> string option \<times> ('n, 'f, 'w) pst" where
  "remove_link V src st =
     (case atomic_link_remove V src st of
        (Some d, st1) \<Rightarrow> (Some d, st1)
      | (None, st1) \<Rightarrow> let (r, st2) = on_fs (remove_file V None src) st1
                       in (if is_ok r then Some src else None, st2))"

definition link_count :: "('n, 'f, 'w) vfs_ops \<Rightarrow> string \<Rightarrow> ('n, 'f, 'w) pst \<Rightarrow> nat" where
  "link_count V path st =
     (case ref_counts st path of Some n \<Rightarrow> n | None \<Rightarrow> if path_exists V path st then 1 else 0)"

section \<open>System calls\<close>

text \<open>The path arguments are what reading them from user memory returned.\<close>

definition liftS :: "path_env \<Rightarrow> ('s, AxError, 'a) io \<Rightarrow> ('s, LinuxError, 'a) io" where
  "liftS E m st = (let (r, s) = m st in (map_err (ax_to_linux E) r, s))"

definition sys_chdir ::
  "('n, 'f, 'w) vfs_ops \<Rightarrow> path_env \<Rightarrow> string LinuxResult \<Rightarrow> (('n, 'f, 'w) pst, LinuxError, int) io" where
  "sys_chdir V E path =
     bindS (getS (\<lambda>_. path)) (\<lambda>p. bindS (liftS E (on_fs (set_current_dir V p))) (\<lambda>_. okS 0))"

definition sys_mkdirat ::
  "('n, 'f, 'w) vfs_ops \<Rightarrow> path_env \<Rightarrow> i32 \<Rightarrow> string LinuxResult \<Rightarrow> (('n, 'f, 'w) pst, LinuxError, int) io" where
  "sys_mkdirat V E dirfd path =
     bindS (getS (\<lambda>_. path)) (\<lambda>p.
     bindS (getS (handle_file_path V E dirfd p)) (\<lambda>q.
     bindS (liftS E (on_fs (create_dir V None q))) (\<lambda>_. okS 0)))"

definition sys_linkat ::
  "('n, 'f, 'w) vfs_ops \<Rightarrow> path_env \<Rightarrow> i32 \<Rightarrow> string LinuxResult \<Rightarrow> i32 \<Rightarrow> string LinuxResult \<Rightarrow>
   (('n, 'f, 'w) pst, LinuxError, int) io" where
  "sys_linkat V E old_dirfd old_path new_dirfd new_path =
     bindS (getS (\<lambda>_. old_path)) (\<lambda>op.
     bindS (getS (\<lambda>_. new_path)) (\<lambda>np.
     bindS (getS (handle_file_path V E old_dirfd op)) (\<lambda>old.
     bindS (getS (handle_file_path V E new_dirfd np)) (\<lambda>new.
     bindS (\<lambda>st. let (r, s) = create_link V new old st in (map_err (\<lambda>e. ax_to_linux E (link_err e)) r, s))
       (\<lambda>_. okS 0)))))"

definition sys_unlinkat ::
  "('n, 'f, 'w) vfs_ops \<Rightarrow> path_env \<Rightarrow> i32 \<Rightarrow> string LinuxResult \<Rightarrow> u32 \<Rightarrow>
   (('n, 'f, 'w) pst, LinuxError, int) io" where
  "sys_unlinkat V E dirfd path flags =
     bindS (getS (\<lambda>_. path)) (\<lambda>p.
     bindS (getS (handle_file_path V E dirfd p)) (\<lambda>q.
       if flags = AT_REMOVEDIR E then bindS (liftS E (on_fs (remove_dir V None q))) (\<lambda>_. okS 0)
       else bindS (liftS E (getS (\<lambda>s. bindR (lookup V None q (fs s)) (\<lambda>n. vn_get_attr V n (world (fs s)))))) (\<lambda>metadata.
            if attr_is_dir metadata then errS EISDIR
            else (\<lambda>s. let (r, s') = remove_link V q s in (bindR (ok_or ENOENT r) (\<lambda>_. Ok 0), s')))))"

text \<open>\<open>getcwd\<close> returns the bytes it stores into the user's buffer of the given size.\<close>

definition sys_getcwd :: "bool \<Rightarrow> nat \<Rightarrow> ('n, 'f, 'w) pst \<Rightarrow> u8 list LinuxResult" where
  "sys_getcwd is_null sz st =
     (if is_null then Ok []
      else let cwd = CURRENT_DIR_PATH (fs st)
           in if CHR 0x00 \<in> set cwd then Err EINVAL
              else if length cwd + 1 \<le> sz then Ok (map of_char cwd @ [0]) else Err ERANGE)"

section \<open>Mounted devices\<close>

definition check_mounted :: "string \<Rightarrow> ('n, 'f, 'w) pst \<Rightarrow> bool" where
  "check_mounted path st \<longleftrightarrow> (\<exists>m \<in> set (MOUNTED st). starts_with path (snd m))"

definition mount_fat_fs ::
  "('n, 'f, 'w) vfs_ops \<Rightarrow> string \<Rightarrow> string \<Rightarrow> ('n, 'f, 'w) pst \<Rightarrow> bool \<times> ('n, 'f, 'w) pst" where
  "mount_fat_fs V device_path mount_path st =
     (if path_exists V mount_path st then (True, st\<lparr>MOUNTED := MOUNTED st @ [(device_path, mount_path)]\<rparr>)
      else (False, st))"

definition umount_fat_fs :: "string \<Rightarrow> ('n, 'f, 'w) pst \<Rightarrow> bool \<times> ('n, 'f, 'w) pst" where
  "umount_fat_fs mount_path st =
     (let mounted = filter (\<lambda>m. snd m \<noteq> mount_path) (MOUNTED st)
      in (length (MOUNTED st) > length mounted, st\<lparr>MOUNTED := mounted\<rparr>))"

definition sys_mount ::
  "('n, 'f, 'w) vfs_ops \<Rightarrow> path_env \<Rightarrow> string LinuxResult \<Rightarrow> string LinuxResult \<Rightarrow> string LinuxResult \<Rightarrow>
   (('n, 'f, 'w) pst, LinuxError, int) io" where
  "sys_mount V E source target fs_type =
     bindS (getS (\<lambda>_. source)) (\<lambda>so.
     bindS (getS (\<lambda>_. target)) (\<lambda>ta.
     bindS (getS (\<lambda>_. fs_type)) (\<lambda>ty.
     bindS (getS (handle_file_path V E (AT_FDCWD E) so)) (\<lambda>device_path.
     bindS (getS (handle_file_path V E (AT_FDCWD E) ta)) (\<lambda>mount_path st.
       if ty \<noteq> ''vfat'' then (Err EPERM, st)
       else if \<not> path_exists V mount_path st then (Err EPERM, st)
       else if check_mounted mount_path st then (Err EPERM, st)
       else let (ok, st1) = mount_fat_fs V device_path mount_path st
            in if ok then (Ok 0, st1) else (Err EPERM, st1))))))"

definition sys_umount2 ::
  "('n, 'f, 'w) vfs_ops \<Rightarrow> path_env \<Rightarrow> string LinuxResult \<Rightarrow> i32 \<Rightarrow> (('n, 'f, 'w) pst, LinuxError, int) io" where
  "sys_umount2 V E target flags =
     bindS (getS (\<lambda>_. target)) (\<lambda>ta.
     bindS (getS (handle_file_path V E (AT_FDCWD E) ta)) (\<lambda>mount_path st.
       if flags \<noteq> 0 then (Err EPERM, st)
       else if \<not> path_exists V mount_path st then (Err EPERM, st)
       else let (ok, st1) = umount_fat_fs mount_path st
            in if ok then (Ok 0, st1) else (Err EPERM, st1)))"

section \<open>Properties of paths\<close>

lemma rfind_append: "c \<notin> set b \<Longrightarrow> rfind c (a @ c # b) = Some (length a)"
proof -
  assume "c \<notin> set b"
  then have "dropWhile (\<lambda>x. x \<noteq> c) (rev b @ c # rev a) = c # rev a"
    by (subst dropWhile_append2) auto
  then show ?thesis by (simp add: rfind_def Let_def)
qed

lemma rfind_split:
  assumes "c \<in> set s"
  obtains a b where "s = a @ c # b" "c \<notin> set b" "rfind c s = Some (length a)"
proof -
  from split_list_last [OF assms] obtain a b where "s = a @ c # b" "c \<notin> set b" by blast
  with rfind_append [of c b a] show ?thesis using that by blast
qed

lemma ends_with_butlast: "ends_with p [c] \<longleftrightarrow> (p \<noteq> [] \<and> p = butlast p @ [c])"
proof (cases p rule: rev_cases)
  case (snoc ys y)
  then show ?thesis by (auto simp: ends_with_def starts_with_def)
qed (simp add: ends_with_def starts_with_def)

text \<open>
  \<open>parent\<close> and \<open>name\<close> take a path apart without loss: for an absolute path other than the root
  that has no empty last component, the parent (which ends in a slash), the name and the trailing slash
  of a directory put together are the path, and the name is a single component.\<close>

theorem path_parent_name:
  assumes "starts_with p ''/''" "p \<noteq> ''/''" "\<not> ends_with p ''//''"
  shows "\<exists>d n. parent p = Ok d \<and> path_name p = Ok n \<and>
    p = d @ n @ (if path_is_dir p then ''/'' else []) \<and> ends_with d ''/'' \<and> CHR ''/'' \<notin> set n \<and> n \<noteq> []"
proof -
  let ?q = "if ends_with p ''/'' then butlast p else p"
  have p: "p = ?q @ (if path_is_dir p then ''/'' else [])"
    using ends_with_butlast [of p "CHR ''/''"] by (auto simp: path_is_dir_def)
  have hd: "p \<noteq> []" "hd p = CHR ''/''" using assms(1) by (cases p; simp add: starts_with_def)+
  then have "?q \<noteq> [] \<and> hd ?q = CHR ''/''"
    using assms(2) ends_with_butlast [of p "CHR ''/''"] by (cases p) auto
  then have "CHR ''/'' \<in> set ?q" by (metis hd_in_set)
  then obtain a b where ab: "?q = a @ CHR ''/'' # b" "CHR ''/'' \<notin> set b"
    and r: "rfind (CHR ''/'') ?q = Some (length a)" by (rule rfind_split)
  have b: "b \<noteq> []"
  proof
    assume "b = []"
    with ab p have q: "?q = a @ ''/''" by simp
    show False
    proof (cases "ends_with p ''/''")
      case True
      with q p have "p = a @ ''//''" by (simp add: path_is_dir_def)
      with assms(3) show False by (simp add: ends_with_def starts_with_def)
    next
      case False
      with q show False by (simp add: ends_with_def starts_with_def)
    qed
  qed
  have nq: "\<not> ends_with ?q ''/''"
    using ab b by (cases b rule: rev_cases) (auto simp: ends_with_def starts_with_def)
  have "parent p = Ok (a @ ''/'')" using assms(2) r ab(1) by (simp add: parent_def is_root_def Let_def)
  moreover have "path_name p = Ok b"
    using assms(2) r ab(1) nq by (simp add: path_name_def is_root_def Let_def)
  moreover have "p = (a @ ''/'') @ b @ (if path_is_dir p then ''/'' else [])" using p ab(1) by simp
  moreover have "ends_with (a @ ''/'') ''/''" by (simp add: ends_with_def starts_with_def)
  ultimately show ?thesis using ab(2) b by blast
qed

theorem path_parent_name_witness:
  "\<exists>d n. parent ''/usr/lib/'' = Ok d \<and> path_name ''/usr/lib/'' = Ok n \<and> ''/usr/lib/'' = d @ n @ ''/''"
  using path_parent_name [of "''/usr/lib/''"] by (auto simp: starts_with_def ends_with_def path_is_dir_def)

section \<open>Properties of links\<close>

definition links_to :: "(string \<Rightarrow> string option) \<Rightarrow> string \<Rightarrow> string set" where
  "links_to L d = {x. L x = Some d}"

text \<open>The counts say how many links lead to a path; \<open>k d\<close> are counted in excess.\<close>

definition link_num :: "(string \<Rightarrow> nat) \<Rightarrow> (string \<Rightarrow> string option) \<Rightarrow> string \<Rightarrow> nat" where
  "link_num k L d = card (links_to L d) + k d"

definition pos_count :: "nat \<Rightarrow> nat option" where
  "pos_count n = (if n = 0 then None else Some n)"

definition counts_ok :: "(string \<Rightarrow> nat) \<Rightarrow> (string \<Rightarrow> string option) \<Rightarrow> (string \<Rightarrow> nat option) \<Rightarrow> bool" where
  "counts_ok k L R \<longleftrightarrow> finite (dom L) \<and>
     (\<forall>d. R d = pos_count (link_num k L d))"

abbreviation links_inv :: "('n, 'f, 'w) pst \<Rightarrow> bool" where
  "links_inv st \<equiv> counts_ok (\<lambda>_. 0) (links st) (ref_counts st)"

lemma finite_links_to: "finite (dom L) \<Longrightarrow> finite (links_to L d)"
  by (rule finite_subset [of _ "dom L"]) (auto simp: links_to_def)

lemma links_to_remove: "links_to (L(x := None)) d = links_to L d - {x}"
  by (auto simp: links_to_def)

lemma links_to_add: "L x = None \<Longrightarrow> links_to (L(x \<mapsto> e)) d = (if d = e then insert x (links_to L d) else links_to L d)"
  by (auto simp: links_to_def)

lemma not_links_to: "L x = None \<Longrightarrow> x \<notin> links_to L d"
  by (simp add: links_to_def)

text \<open>Taking a link out leaves one too many counted; \<open>decrease_ref_count\<close> corrects that.\<close>

lemma counts_take:
  assumes "counts_ok k L R" "L x = Some d"
  shows "counts_ok (k(d := k d + 1)) (L(x := None)) R"
proof -
  have fin: "finite (dom L)" using assms(1) by (simp add: counts_ok_def)
  have "x \<in> links_to L d" using assms(2) by (simp add: links_to_def)
  then have "card (links_to L d) = card (links_to L d - {x}) + 1"
    using finite_links_to [OF fin, of d] by (metis Suc_eq_plus1 card_Suc_Diff1)
  moreover have "links_to L e - {x} = links_to L e" if "e \<noteq> d" for e
    using assms(2) that by (auto simp: links_to_def)
  ultimately have "link_num (k(d := k d + 1)) (L(x := None)) = link_num k L"
    by (auto simp: link_num_def links_to_remove fun_eq_iff)
  then show ?thesis using assms(1) fin by (simp add: counts_ok_def)
qed

lemma decrease_sel [simp]:
  "links (snd (decrease_ref_count V d st)) = links st" "MOUNTED (snd (decrease_ref_count V d st)) = MOUNTED st"
  by (auto simp: decrease_ref_count_def on_fs_def Let_def split: option.splits prod.splits)

lemma counts_decrease:
  assumes "counts_ok k (links st) (ref_counts st)" "k d = Suc m"
  shows "counts_ok (k(d := m)) (links st) (ref_counts (snd (decrease_ref_count V d st)))"
proof -
  have d: "ref_counts st d = Some (Suc (card (links_to (links st) d) + m))"
    using assms by (simp add: counts_ok_def link_num_def pos_count_def)
  have "ref_counts (snd (decrease_ref_count V d st)) =
      (ref_counts st)(d := pos_count (card (links_to (links st) d) + m))"
    using d by (auto simp: decrease_ref_count_def on_fs_def Let_def pos_count_def split: prod.splits)
  then show ?thesis using assms(1) by (simp add: counts_ok_def link_num_def)
qed

lemma counts_insert:
  assumes "counts_ok (\<lambda>_. 0) L R" "L x = None"
  shows "counts_ok (\<lambda>_. 0) (L(x \<mapsto> d)) (R(d \<mapsto> (case R d of Some n \<Rightarrow> n | None \<Rightarrow> 0) + 1))"
proof -
  have fin: "finite (links_to L d)" using assms(1) finite_links_to by (auto simp: counts_ok_def)
  have "card (insert x (links_to L d)) = card (links_to L d) + 1"
    using card_insert_disjoint [OF fin not_links_to [of L x d, OF assms(2)]] by simp
  then have n: "link_num (\<lambda>_. 0) (L(x \<mapsto> d)) = (link_num (\<lambda>_. 0) L)(d := link_num (\<lambda>_. 0) L d + 1)"
    using assms(2) by (auto simp: link_num_def links_to_add fun_eq_iff)
  have "(case R d of Some n \<Rightarrow> n | None \<Rightarrow> 0) = link_num (\<lambda>_. 0) L d"
    using assms(1) by (simp add: counts_ok_def pos_count_def)
  then show ?thesis using assms(1) unfolding counts_ok_def n by (simp add: pos_count_def)
qed

lemma link_remove_inv:
  assumes "links_inv st" "links st src = Some d"
  shows "links_inv (snd (decrease_ref_count V d (st\<lparr>links := (links st)(src := None)\<rparr>)))"
proof -
  let ?st = "st\<lparr>links := (links st)(src := None)\<rparr>"
  have "counts_ok ((\<lambda>_. 0)(d := 0 + 1)) (links ?st) (ref_counts ?st)"
    using counts_take [OF assms] by simp
  from counts_decrease [OF this, of d 0 V] show ?thesis by (simp add: fun_upd_idem)
qed

text \<open>The update removes the old target's count before it moves the link, which comes to the same.\<close>

lemma link_update_inv:
  assumes "links_inv st"
  shows "links_inv (atomic_link_update V src dst st)"
proof (cases "links st src")
  case None
  with counts_insert [OF assms, of src dst] show ?thesis by (simp add: atomic_link_update_def Let_def)
next
  case (Some old)
  let ?d = "\<lambda>s. snd (decrease_ref_count V old s)" and ?L = "(links st)(src := None)"
  have R: "ref_counts (?d (st\<lparr>links := ?L\<rparr>)) = ref_counts (?d st)"
    by (auto simp: decrease_ref_count_def on_fs_def Let_def split: option.splits prod.splits)
  have "counts_ok (\<lambda>_. 0) ?L (ref_counts (?d st))"
    using link_remove_inv [OF assms Some, of V] R by simp
  from counts_insert [OF this, of src dst] show ?thesis
    using Some assms by (simp add: atomic_link_update_def Let_def)
qed

text \<open>
  C31: The table of hard links and the reference counts never disagree: whatever links are created,
  redirected and removed, the count kept for a path is the number of links that lead to it, and there
  is no count for a path without links. So the decrement never underflows.\<close>

theorem link_counts_exact:
  assumes "links_inv st"
  shows "links_inv (snd (create_link V src dst st)) \<and> links_inv (snd (remove_link V src st))"
proof
  show "links_inv (snd (create_link V src dst st))"
    using assms link_update_inv [OF assms] by (simp add: create_link_def)
  show "links_inv (snd (remove_link V src st))"
    using assms link_remove_inv [OF assms, of src _ V]
    by (auto simp: remove_link_def atomic_link_remove_def on_fs_def Let_def split: option.splits prod.splits)
qed

definition mem_pst :: "mem_world \<Rightarrow> (mem_node, nat, mem_world) pst" where
  "mem_pst w = \<lparr>fs = mem_fsys w, links = Map.empty, ref_counts = Map.empty, MOUNTED = []\<rparr>"

theorem link_counts_exact_witness:
  "links_inv (mem_pst Map.empty) \<and> links_inv (snd (create_link mem_ops ''/l'' ''/'' (mem_pst Map.empty))) \<and>
   links (snd (create_link mem_ops ''/l'' ''/'' (mem_pst Map.empty))) ''/l'' = Some ''/''"
proof -
  have i: "links_inv (mem_pst Map.empty)" by (simp add: counts_ok_def links_to_def link_num_def pos_count_def mem_pst_def)
  have "create_link mem_ops ''/l'' ''/'' (mem_pst Map.empty) =
      (Ok (), atomic_link_update mem_ops ''/l'' ''/'' (mem_pst Map.empty))"
    by (simp add: create_link_def path_exists_def path_is_dir_def lookup_def parent_node_of_def starts_with_def
        ends_with_def root_lookup_def lookup_mounted_fs.simps trim_matches_def mem_pst_def mem_fsys_def
        mem_ops_def mem_attr_def)
  moreover have "links (atomic_link_update mem_ops ''/l'' ''/'' (mem_pst Map.empty)) ''/l'' = Some ''/''"
    by (simp add: atomic_link_update_def mem_pst_def Let_def)
  ultimately show ?thesis using link_counts_exact [OF i, of mem_ops "''/l''" "''/''"] i by simp
qed

text \<open>
  \<open>create_link\<close> accepts exactly the existing paths that end in a slash: a link to a regular file is
  refused with \<open>NotFile\<close>, and one to a directory is made, after which the new name stands for the
  directory.\<close>

theorem create_link_wants_directory:
  assumes "path_exists V dst st"
  shows "(path_is_file dst \<longrightarrow> create_link V src dst st = (Err NotFile, st)) \<and>
    (path_is_dir dst \<longrightarrow> (\<exists>st'. create_link V src dst st = (Ok (), st') \<and> real_path st' src = dst))"
  using assms
  by (auto simp: create_link_def path_is_file_def real_path_def atomic_link_update_def Let_def
      split: option.splits)

lemma mem_root_exists: "path_exists mem_ops ''/'' (mem_pst Map.empty)"
  by (simp add: path_exists_def lookup_def parent_node_of_def starts_with_def ends_with_def root_lookup_def
      lookup_mounted_fs.simps trim_matches_def mem_pst_def mem_fsys_def mem_ops_def mem_attr_def)

theorem create_link_wants_directory_witness:
  "\<exists>st'. create_link mem_ops ''/l'' ''/'' (mem_pst Map.empty) = (Ok (), st') \<and> real_path st' ''/l'' = ''/''"
  using create_link_wants_directory [OF mem_root_exists, of "''/l''"]
  by (simp add: path_is_dir_def ends_with_def starts_with_def)

text \<open>
  \<open>unlinkat\<close> never removes a hard link: the path is resolved to the target of the link before the
  link table is asked, so the link stays and it is the target that is deleted (or the call fails).\<close>

theorem unlinkat_keeps_links:
  assumes "handle_file_path V E dirfd p st = Ok q" "links st q = None"
    and "sys_unlinkat V E dirfd (Ok p) flags st = (r, st')"
  shows "links st' = links st \<and> ref_counts st' = ref_counts st \<and>
    (flags \<noteq> AT_REMOVEDIR E \<longrightarrow> r = Ok 0 \<longrightarrow> fst (remove_file V None q (fs st)) = Ok ())"
proof -
  have "links st' = links st \<and> ref_counts st' = ref_counts st" if "flags = AT_REMOVEDIR E"
    using assms that
    by (auto simp: sys_unlinkat_def bindS_def liftS_def on_fs_def Let_def split: prod.splits result.splits)
  moreover have "links st' = links st \<and> ref_counts st' = ref_counts st \<and>
      (r = Ok 0 \<longrightarrow> fst (remove_file V None q (fs st)) = Ok ())" if nr: "flags \<noteq> AT_REMOVEDIR E"
  proof -
    consider "st' = st" "r \<noteq> Ok 0" | "(r, st') = (let (x, s') = remove_link V q st in (bindR (ok_or ENOENT x) (\<lambda>_. Ok 0), s'))"
      using assms nr
      by (auto simp: sys_unlinkat_def bindS_def liftS_def Let_def split: prod.splits result.splits if_splits)
    then show ?thesis
      using assms(2)
      by cases (auto simp: remove_link_def atomic_link_remove_def on_fs_def Let_def ok_iff
          split: prod.splits if_splits)
  qed
  ultimately show ?thesis by blast
qed

definition mem_env :: path_env where
  "mem_env = \<lparr>AT_FDCWD = - 100, AT_REMOVEDIR = 512, ax_to_linux = (\<lambda>_. ENOENT), fd_file_path = (\<lambda>_. Err EBADF),
     fd_dir_path = (\<lambda>_. Err EBADF)\<rparr>"

lemma mem_path: "links st p = None \<Longrightarrow> hd p = CHR ''/'' \<Longrightarrow> p \<noteq> [] \<Longrightarrow> \<not> is_space (last p) \<Longrightarrow>
  handle_file_path mem_ops mem_env dirfd p st = Ok p"
proof -
  assume p: "links st p = None" "hd p = CHR ''/''" "p \<noteq> []" "\<not> is_space (last p)"
  have "starts_with p ''/''" using p(2,3) by (cases p) (auto simp: starts_with_def)
  moreover have "dropWhile is_space p = p" using p(2,3) by (cases p) (auto simp: is_space_def)
  moreover have "dropWhile is_space (rev p) = rev p" using p(3,4) by (cases p rule: rev_cases) auto
  ultimately show ?thesis
    using p(1) by (simp add: handle_file_path_def FilePath_new_def real_path_def trim_def absolute_path_def mem_ops_def)
qed

theorem unlinkat_keeps_links_witness:
  "\<exists>r st'. sys_unlinkat mem_ops mem_env 0 (Ok ''/a'') 0 (mem_pst [(0, ''a'') \<mapsto> (False, [])]) = (r, st') \<and>
     links st' = Map.empty"
proof -
  let ?st = "mem_pst [(0, ''a'') \<mapsto> (False, [])]"
  have h: "handle_file_path mem_ops mem_env 0 ''/a'' ?st = Ok ''/a''"
    by (rule mem_path) (simp_all add: mem_pst_def is_space_def)
  obtain r st' where e: "sys_unlinkat mem_ops mem_env 0 (Ok ''/a'') 0 ?st = (r, st')" by fastforce
  from unlinkat_keeps_links [OF h _ e] show ?thesis using e by (simp add: mem_pst_def)
qed

lemma mounted_irrelevant [simp]:
  "FilePath_new V p (st\<lparr>MOUNTED := m\<rparr>) = FilePath_new V p st"
  "path_exists V p (st\<lparr>MOUNTED := m\<rparr>) = path_exists V p st"
  "handle_file_path V E dirfd p (st\<lparr>MOUNTED := m\<rparr>) = handle_file_path V E dirfd p st"
proof -
  have 1: "FilePath_new V p (st\<lparr>MOUNTED := m\<rparr>) = FilePath_new V p st" for p
    by (simp add: FilePath_new_def real_path_def Let_def)
  then show "FilePath_new V p (st\<lparr>MOUNTED := m\<rparr>) = FilePath_new V p st" .
  show "path_exists V p (st\<lparr>MOUNTED := m\<rparr>) = path_exists V p st" by (simp add: path_exists_def)
  show "handle_file_path V E dirfd p (st\<lparr>MOUNTED := m\<rparr>) = handle_file_path V E dirfd p st"
    by (simp add: handle_file_path_def path_join_def 1)
qed

text \<open>
  C32: What \<open>mount\<close> adds \<open>umount2\<close> takes away: after a successful mount, unmounting the same target
  succeeds and gives back exactly the table of mounted devices there was before.\<close>

theorem mount_umount_roundtrip:
  assumes "sys_mount V E (Ok source) (Ok target) (Ok ty) st = (Ok 0, st')"
  shows "sys_umount2 V E (Ok target) 0 st' = (Ok 0, st)"
proof -
  from assms obtain dev mnt where h: "handle_file_path V E (AT_FDCWD E) target st = Ok mnt"
    and ex: "path_exists V mnt st" and nm: "\<not> check_mounted mnt st"
    and st': "st' = st\<lparr>MOUNTED := MOUNTED st @ [(dev, mnt)]\<rparr>"
    by (auto simp: sys_mount_def ok_iff mount_fat_fs_def Let_def split: if_splits)
  have same: "handle_file_path V E (AT_FDCWD E) target st' = Ok mnt" "path_exists V mnt st'"
    using h ex by (simp_all add: st')
  have "filter (\<lambda>m. snd m \<noteq> mnt) (MOUNTED st) = MOUNTED st"
    using nm by (auto simp: check_mounted_def filter_id_conv starts_with_def)
  then have "umount_fat_fs mnt st' = (True, st)" by (simp add: umount_fat_fs_def st')
  then show ?thesis using same by (simp add: sys_umount2_def bindS_def)
qed

theorem mount_umount_roundtrip_witness:
  "\<exists>st'. sys_mount mem_ops mem_env (Ok ''/dev'') (Ok ''/'') (Ok ''vfat'') (mem_pst Map.empty) = (Ok 0, st') \<and>
     st' \<noteq> mem_pst Map.empty \<and> sys_umount2 mem_ops mem_env (Ok ''/'') 0 st' = (Ok 0, mem_pst Map.empty)"
proof -
  let ?st = "mem_pst Map.empty"
  have h: "handle_file_path mem_ops mem_env d ''/dev'' ?st = Ok ''/dev''"
    "handle_file_path mem_ops mem_env d ''/'' ?st = Ok ''/''" for d
    by (rule mem_path; simp add: mem_pst_def is_space_def)+
  let ?st' = "?st\<lparr>MOUNTED := [(''/dev'', ''/'')]\<rparr>"
  have e: "sys_mount mem_ops mem_env (Ok ''/dev'') (Ok ''/'') (Ok ''vfat'') ?st = (Ok 0, ?st')"
    using h mem_root_exists
    by (simp add: sys_mount_def bindS_def mount_fat_fs_def check_mounted_def mem_pst_def)
  from mount_umount_roundtrip [OF e] e show ?thesis by (auto simp: mem_pst_def)
qed

end
