(* ===== verification/Io.thy ===== *)
theory Io
  imports FdTable Paths
begin

text \<open>
  Input and output on descriptors: \<open>imp/fs/io.rs\<close>, \<open>imp/fs/fd_ops.rs\<close> (\<open>openat\<close>), \<open>imp/fs/ctl.rs\<close>
  (\<open>getdents64\<close>), \<open>imp/fs/io_mpx/poll.rs\<close>, and the implementations of \<open>FileLike\<close> for files, directories
  and the console (\<open>file/fs.rs\<close>, \<open>file/stdio.rs\<close>). The state joins the descriptor tables, the file
  systems and the devices.

  A call that may block takes the list of what the rest of the machine does between its attempts; the
  result \<open>None\<close> says that it is still blocked when the list is used up. The console and the sockets are
  reached through \<open>dev_ops\<close>.
\<close>

section \<open>State\<close>

record 'n OFile =
  of_inner :: "'n Vfs.File"
  of_path :: string

record 'n ODir =
  od_inner :: "'n Vfs.Directory"
  od_path :: string
  last_dirent :: "DirEntry option"

record ('t, 'n, 'f, 'w, 's, 'c) ios =
  ft :: "('t, 'n OFile, 'n ODir, 's) files"
  pfs :: "('n, 'f, 'w) pst"
  dev :: 'c

record ('s, 'c) dev_ops =
  con_read :: "nat \<Rightarrow> 'c \<Rightarrow> u8 list \<times> 'c"
  con_write :: "u8 list \<Rightarrow> 'c \<Rightarrow> 'c"
  bufreader_read :: "(nat \<Rightarrow> 'c \<Rightarrow> u8 list AxResult \<times> 'c) \<Rightarrow> nat \<Rightarrow> 'c \<Rightarrow> u8 list AxResult \<times> 'c"
  sock_read :: "'s \<Rightarrow> nat \<Rightarrow> 'c \<Rightarrow> u8 list LinuxResult \<times> 'c"
  sock_write :: "'s \<Rightarrow> u8 list \<Rightarrow> 'c \<Rightarrow> nat LinuxResult \<times> 'c"
  sock_poll :: "'s \<Rightarrow> 'c \<Rightarrow> PollState LinuxResult"
  poll_interfaces :: "'c \<Rightarrow> 'c"

type_synonym ('t, 'n, 'f, 'w, 's, 'c) env = "('t, 'n, 'f, 'w, 's, 'c) ios \<Rightarrow> ('t, 'n, 'f, 'w, 's, 'c) ios"

text \<open>Everything the calls take from elsewhere.\<close>

record ('t, 'n, 'f, 'w, 's, 'c) sysenv =
  FO :: "'t flatten_ops"
  VO :: "('n, 'f, 'w) vfs_ops"
  PE :: path_env
  DO :: "('s, 'c) dev_ops"

definition set_obj ::
  "nat \<Rightarrow> ('n OFile, 'n ODir, 's) FileLike \<Rightarrow> ('t, 'n, 'f, 'w, 's, 'c) ios \<Rightarrow> ('t, 'n, 'f, 'w, 's, 'c) ios" where
  "set_obj a v st =
     (case objs (ft st) a of
        None \<Rightarrow> st
      | Some (n, _) \<Rightarrow> st\<lparr>ft := (ft st)\<lparr>objs := (objs (ft st))(a \<mapsto> (n, v))\<rparr>\<rparr>)"

section \<open>The console\<close>

definition console_read_bytes :: "('s, 'c) dev_ops \<Rightarrow> nat \<Rightarrow> 'c \<Rightarrow> u8 list AxResult \<times> 'c" where
  "console_read_bytes D n c =
     (let (bs, c') = con_read D n c in (Ok (map (\<lambda>b. if b = 13 then 10 else b) bs), c'))"

definition console_write_bytes :: "('s, 'c) dev_ops \<Rightarrow> u8 list \<Rightarrow> 'c \<Rightarrow> nat \<times> 'c" where
  "console_write_bytes D buf c = (length buf, con_write D buf c)"

text \<open>\<open>StdinRaw::read\<close>: at most as many rounds as bytes are wanted, since every round but the last
  reads at least one.\<close>

fun stdin_raw_read :: "nat \<Rightarrow> ('s, 'c) dev_ops \<Rightarrow> nat \<Rightarrow> u8 list \<Rightarrow> 'c \<Rightarrow> u8 list AxResult \<times> 'c" where
  "stdin_raw_read 0 D n acc c = (Ok acc, c)"
| "stdin_raw_read (Suc k) D n acc c =
     (if length acc < n
      then case console_read_bytes D (n - length acc) c of
             (Ok bs, c') \<Rightarrow> if bs = [] then (Ok acc, c') else stdin_raw_read k D n (acc @ bs) c'
           | (Err e, c') \<Rightarrow> (Err e, c')
           | (Panic, c') \<Rightarrow> (Panic, c')
      else (Ok acc, c))"

definition stdin_inner_read :: "('s, 'c) dev_ops \<Rightarrow> nat \<Rightarrow> 'c \<Rightarrow> u8 list AxResult \<times> 'c" where
  "stdin_inner_read D n c = bufreader_read D (\<lambda>k. stdin_raw_read (Suc k) D k []) n c"

fun read_blocked_loop ::
  "('s, 'c) dev_ops \<Rightarrow> ('t, 'n, 'f, 'w, 's, 'c) env list \<Rightarrow> nat \<Rightarrow> ('t, 'n, 'f, 'w, 's, 'c) ios
   \<Rightarrow> (u8 list AxResult \<times> ('t, 'n, 'f, 'w, 's, 'c) ios) option" where
  "read_blocked_loop D [] n st = None"
| "read_blocked_loop D (env # envs) n st =
     (case stdin_inner_read D n (dev st) of
        (Ok bs, c) \<Rightarrow> if bs \<noteq> [] then Some (Ok bs, st\<lparr>dev := c\<rparr>)
                      else read_blocked_loop D envs n (env (st\<lparr>dev := c\<rparr>))
      | (Err e, c) \<Rightarrow> Some (Err e, st\<lparr>dev := c\<rparr>)
      | (Panic, c) \<Rightarrow> Some (Panic, st\<lparr>dev := c\<rparr>))"

definition read_blocked ::
  "('s, 'c) dev_ops \<Rightarrow> ('t, 'n, 'f, 'w, 's, 'c) env list \<Rightarrow> nat \<Rightarrow> ('t, 'n, 'f, 'w, 's, 'c) ios
   \<Rightarrow> (u8 list AxResult \<times> ('t, 'n, 'f, 'w, 's, 'c) ios) option" where
  "read_blocked D envs n st =
     (case stdin_inner_read D n (dev st) of
        (Ok bs, c) \<Rightarrow> if n = 0 \<or> bs \<noteq> [] then Some (Ok bs, st\<lparr>dev := c\<rparr>)
                      else read_blocked_loop D envs n (st\<lparr>dev := c\<rparr>)
      | (Err e, c) \<Rightarrow> Some (Err e, st\<lparr>dev := c\<rparr>)
      | (Panic, c) \<Rightarrow> Some (Panic, st\<lparr>dev := c\<rparr>))"

section \<open>Reading and writing a file\<close>

text \<open>A pipe as \<open>Pipe\<close> sees it, with the whole state behind it.\<close>

definition pipe_view ::
  "nat \<Rightarrow> ('t, 'n, 'f, 'w, 's, 'c) ios \<Rightarrow> \<lparr>ps_buf :: PipeRingBuffer, ps_count :: nat, \<dots> :: ('t, 'n, 'f, 'w, 's, 'c) ios\<rparr>" where
  "pipe_view b st =
     (case bufs (ft st) b of
        Some (n, rb) \<Rightarrow> \<lparr>ps_buf = rb, ps_count = n, \<dots> = st\<rparr>
      | None \<Rightarrow> \<lparr>ps_buf = ring_new, ps_count = 0, \<dots> = st\<rparr>)"

definition pipe_unview ::
  "nat \<Rightarrow> \<lparr>ps_buf :: PipeRingBuffer, ps_count :: nat, \<dots> :: ('t, 'n, 'f, 'w, 's, 'c) ios\<rparr> \<Rightarrow> ('t, 'n, 'f, 'w, 's, 'c) ios" where
  "pipe_unview b s =
     (let st = pipe_state.more s
      in case bufs (ft st) b of
           Some (n, _) \<Rightarrow> st\<lparr>ft := (ft st)\<lparr>bufs := (bufs (ft st))(b \<mapsto> (n, ps_buf s))\<rparr>\<rparr>
         | None \<Rightarrow> st)"

definition pipe_env where
  "pipe_env b e s = pipe_view b (e (pipe_unview b s))"

definition file_like_read ::
  "('t, 'n, 'f, 'w, 's, 'c) sysenv \<Rightarrow> ('t, 'n, 'f, 'w, 's, 'c) env list \<Rightarrow> nat \<Rightarrow> nat \<Rightarrow> ('t, 'n, 'f, 'w, 's, 'c) ios
   \<Rightarrow> (u8 list LinuxResult \<times> ('t, 'n, 'f, 'w, 's, 'c) ios) option" where
  "file_like_read S envs a len st =
     (case arc_get (objs (ft st)) a of
        Some (File f) \<Rightarrow>
          (case file_read (VO S) (of_inner f) len (fs (pfs st)) of
             Ok (bs, i) \<Rightarrow> Some (Ok bs, set_obj a (File (f\<lparr>of_inner := i\<rparr>)) st)
           | Err e \<Rightarrow> Some (Err (ax_to_linux (PE S) e), st)
           | Panic \<Rightarrow> Some (Panic, st))
      | Some (Directory _) \<Rightarrow> Some (Err EBADF, st)
      | Some (PipeEnd p b) \<Rightarrow>
          map_option (\<lambda>(r, s). (r, pipe_unview b s)) (pipe_read (map (pipe_env b) envs) p len (pipe_view b st))
      | Some Stdin \<Rightarrow> map_option (\<lambda>(r, s). (map_err (ax_to_linux (PE S)) r, s)) (read_blocked (DO S) envs len st)
      | Some Stdout \<Rightarrow> Some (Err EPERM, st)
      | Some (Socket s) \<Rightarrow> let (r, c) = sock_read (DO S) s len (dev st) in Some (r, st\<lparr>dev := c\<rparr>)
      | None \<Rightarrow> Some (Panic, st))"

definition file_like_write ::
  "('t, 'n, 'f, 'w, 's, 'c) sysenv \<Rightarrow> ('t, 'n, 'f, 'w, 's, 'c) env list \<Rightarrow> nat \<Rightarrow> u8 list \<Rightarrow> ('t, 'n, 'f, 'w, 's, 'c) ios
   \<Rightarrow> (nat LinuxResult \<times> ('t, 'n, 'f, 'w, 's, 'c) ios) option" where
  "file_like_write S envs a buf st =
     (case arc_get (objs (ft st)) a of
        Some (File f) \<Rightarrow>
          (case file_write (VO S) (of_inner f) buf (fs (pfs st)) of
             (Ok (n, i), s) \<Rightarrow>
               Some (Ok n, set_obj a (File (f\<lparr>of_inner := i\<rparr>)) (st\<lparr>pfs := (pfs st)\<lparr>fs := s\<rparr>\<rparr>))
           | (Err e, s) \<Rightarrow> Some (Err (ax_to_linux (PE S) e), st\<lparr>pfs := (pfs st)\<lparr>fs := s\<rparr>\<rparr>)
           | (Panic, s) \<Rightarrow> Some (Panic, st\<lparr>pfs := (pfs st)\<lparr>fs := s\<rparr>\<rparr>))
      | Some (Directory _) \<Rightarrow> Some (Err EBADF, st)
      | Some (PipeEnd p b) \<Rightarrow>
          map_option (\<lambda>(r, s). (r, pipe_unview b s)) (pipe_write (map (pipe_env b) envs) p buf (pipe_view b st))
      | Some Stdin \<Rightarrow> Some (Err EPERM, st)
      | Some Stdout \<Rightarrow> let (n, c) = console_write_bytes (DO S) buf (dev st) in Some (Ok n, st\<lparr>dev := c\<rparr>)
      | Some (Socket s) \<Rightarrow> let (r, c) = sock_write (DO S) s buf (dev st) in Some (r, st\<lparr>dev := c\<rparr>)
      | None \<Rightarrow> Some (Panic, st))"

definition file_like_poll ::
  "('t, 'n, 'f, 'w, 's, 'c) sysenv \<Rightarrow> nat \<Rightarrow> ('t, 'n, 'f, 'w, 's, 'c) ios \<Rightarrow> PollState LinuxResult" where
  "file_like_poll S a st =
     (case arc_get (objs (ft st)) a of
        Some (File _) \<Rightarrow> Ok \<lparr>poll_readable = True, poll_writable = True\<rparr>
      | Some (Directory _) \<Rightarrow> Ok \<lparr>poll_readable = True, poll_writable = False\<rparr>
      | Some (PipeEnd p b) \<Rightarrow> Ok (pipe_poll p (pipe_view b st))
      | Some Stdin \<Rightarrow> Ok \<lparr>poll_readable = True, poll_writable = True\<rparr>
      | Some Stdout \<Rightarrow> Ok \<lparr>poll_readable = True, poll_writable = True\<rparr>
      | Some (Socket s) \<Rightarrow> sock_poll (DO S) s (dev st)
      | None \<Rightarrow> Panic)"

section \<open>System calls\<close>

text \<open>
  A call on a descriptor of table \<open>c\<close>: the reference that \<open>get_file_like\<close> returns is dropped at the end.
\<close>

definition with_fd where
  "with_fd S c fd k st =
     (case get_file_like (FO S) c fd (ft st) of
        (Ok a, f1) \<Rightarrow>
          (case k a (st\<lparr>ft := f1\<rparr>) of
             None \<Rightarrow> None
           | Some (r, st2) \<Rightarrow> Some (r, st2\<lparr>ft := drop_file a (ft st2)\<rparr>))
      | (Err e, f1) \<Rightarrow> Some (Err e, st\<lparr>ft := f1\<rparr>)
      | (Panic, f1) \<Rightarrow> Some (Panic, st\<lparr>ft := f1\<rparr>))"

definition sys_read ::
  "('t, 'n, 'f, 'w, 's, 'c) sysenv \<Rightarrow> nat \<Rightarrow> ('t, 'n, 'f, 'w, 's, 'c) env list \<Rightarrow> i32 \<Rightarrow> unit LinuxResult \<Rightarrow> nat
   \<Rightarrow> ('t, 'n, 'f, 'w, 's, 'c) ios \<Rightarrow> (u8 list LinuxResult \<times> ('t, 'n, 'f, 'w, 's, 'c) ios) option" where
  "sys_read S c envs fd buf len st =
     (case buf of
        Ok _ \<Rightarrow> with_fd S c fd (\<lambda>a. file_like_read S envs a len) st
      | Err e \<Rightarrow> Some (Err e, st)
      | Panic \<Rightarrow> Some (Panic, st))"

definition sys_write ::
  "('t, 'n, 'f, 'w, 's, 'c) sysenv \<Rightarrow> nat \<Rightarrow> ('t, 'n, 'f, 'w, 's, 'c) env list \<Rightarrow> i32 \<Rightarrow> u8 list LinuxResult
   \<Rightarrow> ('t, 'n, 'f, 'w, 's, 'c) ios \<Rightarrow> (nat LinuxResult \<times> ('t, 'n, 'f, 'w, 's, 'c) ios) option" where
  "sys_write S c envs fd buf st =
     (case buf of
        Ok bs \<Rightarrow> with_fd S c fd (\<lambda>a. file_like_write S envs a bs) st
      | Err e \<Rightarrow> Some (Err e, st)
      | Panic \<Rightarrow> Some (Panic, st))"

text \<open>
  The loops of \<open>readv\<close> and \<open>writev\<close>. An entry of the vector is its length and what checking its
  memory returned; \<open>envs\<close> has one list for every entry that is used.
\<close>

fun readv_loop ::
  "('t, 'n, 'f, 'w, 's, 'c) sysenv \<Rightarrow> nat \<Rightarrow> ('t, 'n, 'f, 'w, 's, 'c) env list list \<Rightarrow> i32 \<Rightarrow> (nat \<times> unit LinuxResult) list
   \<Rightarrow> u8 list list \<Rightarrow> ('t, 'n, 'f, 'w, 's, 'c) ios \<Rightarrow> (u8 list list LinuxResult \<times> ('t, 'n, 'f, 'w, 's, 'c) ios) option" where
  "readv_loop S c envs fd [] ret st = Some (Ok ret, st)"
| "readv_loop S c envs fd ((iov_len, buf) # iovs) ret st =
     (if iov_len = 0 then readv_loop S c envs fd iovs ret st
      else case buf of
             Err e \<Rightarrow> Some (Err e, st)
           | Panic \<Rightarrow> Some (Panic, st)
           | Ok _ \<Rightarrow>
               (case with_fd S c fd (\<lambda>a. file_like_read S (case envs of [] \<Rightarrow> [] | e # _ \<Rightarrow> e) a iov_len) st of
                  None \<Rightarrow> None
                | Some (Ok bs, st1) \<Rightarrow>
                    if length bs < iov_len then Some (Ok (ret @ [bs]), st1)
                    else readv_loop S c (tl envs) fd iovs (ret @ [bs]) st1
                | Some (Err e, st1) \<Rightarrow> Some (Err e, st1)
                | Some (Panic, st1) \<Rightarrow> Some (Panic, st1)))"

definition sys_readv where
  "sys_readv S c envs fd iov iocnt st =
     (if 1024 < (iocnt::nat) then Some (Err EINVAL, st)
      else case iov of
             Err e \<Rightarrow> Some (Err e, st)
           | Panic \<Rightarrow> Some (Panic, st)
           | Ok iovs \<Rightarrow> readv_loop S c envs fd iovs [] st)"

fun writev_loop ::
  "('t, 'n, 'f, 'w, 's, 'c) sysenv \<Rightarrow> nat \<Rightarrow> ('t, 'n, 'f, 'w, 's, 'c) env list list \<Rightarrow> i32 \<Rightarrow> (nat \<times> u8 list LinuxResult) list
   \<Rightarrow> nat \<Rightarrow> ('t, 'n, 'f, 'w, 's, 'c) ios \<Rightarrow> (nat LinuxResult \<times> ('t, 'n, 'f, 'w, 's, 'c) ios) option" where
  "writev_loop S c envs fd [] ret st = Some (Ok ret, st)"
| "writev_loop S c envs fd ((iov_len, buf) # iovs) ret st =
     (if iov_len = 0 then writev_loop S c envs fd iovs ret st
      else case buf of
             Err e \<Rightarrow> Some (Err e, st)
           | Panic \<Rightarrow> Some (Panic, st)
           | Ok bs \<Rightarrow>
               (case with_fd S c fd (\<lambda>a. file_like_write S (case envs of [] \<Rightarrow> [] | e # _ \<Rightarrow> e) a bs) st of
                  None \<Rightarrow> None
                | Some (Ok written, st1) \<Rightarrow>
                    if written < length bs then Some (Ok (ret + written), st1)
                    else writev_loop S c (tl envs) fd iovs (ret + written) st1
                | Some (Err e, st1) \<Rightarrow> Some (Err e, st1)
                | Some (Panic, st1) \<Rightarrow> Some (Panic, st1)))"

definition sys_writev where
  "sys_writev S c envs fd iov iocnt st =
     (if 1024 < (iocnt::nat) then Some (Err EINVAL, st)
      else case iov of
             Err e \<Rightarrow> Some (Err e, st)
           | Panic \<Rightarrow> Some (Panic, st)
           | Ok iovs \<Rightarrow> writev_loop S c envs fd iovs 0 st)"

definition sys_lseek ::
  "('t, 'n, 'f, 'w, 's, 'c) sysenv \<Rightarrow> nat \<Rightarrow> i32 \<Rightarrow> i64 \<Rightarrow> i32 \<Rightarrow> ('t, 'n, 'f, 'w, 's, 'c) ios
   \<Rightarrow> u64 LinuxResult \<times> ('t, 'n, 'f, 'w, 's, 'c) ios" where
  "sys_lseek S c fd offset whence st =
     (let seek = (\<lambda>pos.
        case file_from_fd (FO S) c fd (ft st) of
          (Err e, f1) \<Rightarrow> (Err e, st\<lparr>ft := f1\<rparr>)
        | (Panic, f1) \<Rightarrow> (Panic, st\<lparr>ft := f1\<rparr>)
        | (Ok a, f1) \<Rightarrow>
            let st1 = st\<lparr>ft := f1\<rparr>;
                (r, st2) = (case arc_get (objs f1) a of
                    Some (File f) \<Rightarrow>
                      (case file_seek (VO S) (of_inner f) pos (fs (pfs st1)) of
                         Ok (off, i) \<Rightarrow> (Ok off, set_obj a (File (f\<lparr>of_inner := i\<rparr>)) st1)
                       | Err e \<Rightarrow> (Err (ax_to_linux (PE S) e), st1)
                       | Panic \<Rightarrow> (Panic, st1))
                  | _ \<Rightarrow> (Panic, st1))
            in (r, st2\<lparr>ft := drop_file a (ft st2)\<rparr>))
      in if whence = 0 then seek (Start offset)
         else if whence = 1 then seek (Current offset)
         else if whence = 2 then seek (End offset)
         else (Err EINVAL, st))"

text \<open>
  \<open>do_sendfile\<close> for \<open>n\<close> rounds at most; \<open>None\<close> says that it has not come to an end by then. \<open>rd\<close> is the
  closure that fills the buffer of 16384 bytes, \<open>envs k\<close> what happens while round \<open>k\<close> blocks.
\<close>

fun do_sendfile where
  "do_sendfile 0 k S envs rd a total_written st = None"
| "do_sendfile (Suc n) k S envs rd a total_written st =
     (case rd (fst (envs k)) (16384::nat) st of
        None \<Rightarrow> None
      | Some (Err e, st1) \<Rightarrow> Some (Err e, st1)
      | Some (Panic, st1) \<Rightarrow> Some (Panic, st1)
      | Some (Ok bs, st1) \<Rightarrow>
          if bs = [] then Some (Ok (total_written::nat), st1)
          else case file_like_write S (snd (envs k)) a bs st1 of
                 None \<Rightarrow> None
               | Some (Err e, st2) \<Rightarrow> Some (Err e, st2)
               | Some (Panic, st2) \<Rightarrow> Some (Panic, st2)
               | Some (Ok w, st2) \<Rightarrow>
                   if w < length bs then Some (Ok total_written, st2)
                   else do_sendfile n (Suc k) S envs rd a (total_written + w) st2)"

text \<open>
  \<open>sendfile\<close>; \<open>offset\<close> is what reading the user's pointer returned, and the second component of a result
  is its value afterwards. The closure with an offset reads through \<open>read_at\<close>.
\<close>

fun sendfile_at where
  "sendfile_at 0 k S envs a b off total_written st = None"
| "sendfile_at (Suc n) k S envs a b off total_written st =
     (case (case arc_get (objs (ft st)) a of
              Some (File f) \<Rightarrow> map_err (ax_to_linux (PE S)) (file_read_at (VO S) (of_inner f) off 16384 (fs (pfs st)))
            | _ \<Rightarrow> Panic) of
        Err e \<Rightarrow> Some (Err e, off, st)
      | Panic \<Rightarrow> Some (Panic, off, st)
      | Ok bs \<Rightarrow>
          let off1 = off + of_nat (length bs)
          in if bs = [] then Some (Ok (total_written::nat), off1, st)
             else case file_like_write S (envs k) b bs st of
                    None \<Rightarrow> None
                  | Some (Err e, st2) \<Rightarrow> Some (Err e, off1, st2)
                  | Some (Panic, st2) \<Rightarrow> Some (Panic, off1, st2)
                  | Some (Ok w, st2) \<Rightarrow>
                      if w < length bs then Some (Ok total_written, off1, st2)
                      else sendfile_at n (Suc k) S envs a b off1 (total_written + w) st2)"

definition sys_sendfile where
  "sys_sendfile n S c envs out_fd in_fd offset st =
     (case get_file_like (FO S) c in_fd (ft st) of
        (Err e, f1) \<Rightarrow> Some (Err e, None, st\<lparr>ft := f1\<rparr>)
      | (Panic, f1) \<Rightarrow> Some (Panic, None, st\<lparr>ft := f1\<rparr>)
      | (Ok a, f1) \<Rightarrow>
          (case get_file_like (FO S) c out_fd f1 of
             (Err e, f2) \<Rightarrow> Some (Err e, None, st\<lparr>ft := drop_file a f2\<rparr>)
           | (Panic, f2) \<Rightarrow> Some (Panic, None, st\<lparr>ft := drop_file a f2\<rparr>)
           | (Ok b, f2) \<Rightarrow>
               let st2 = st\<lparr>ft := f2\<rparr>;
                   drops = (\<lambda>s. s\<lparr>ft := drop_file b (drop_file a (ft s))\<rparr>)
               in case offset of
                    Err e \<Rightarrow> Some (Err e, None, drops st2)
                  | Panic \<Rightarrow> Some (Panic, None, drops st2)
                  | Ok None \<Rightarrow>
                      map_option (\<lambda>(r, s). (r, None, drops s))
                        (do_sendfile n 0 S envs (\<lambda>e len. file_like_read S e a len) b 0 st2)
                  | Ok (Some off) \<Rightarrow>
                      (case arc_get (objs (ft st2)) a of
                         Some (File f) \<Rightarrow>
                           map_option (\<lambda>(r, off', s). (r, Some off', drops s))
                             (sendfile_at n 0 S (\<lambda>k. snd (envs k)) a b off 0 st2)
                       | _ \<Rightarrow> Some (Err ESPIPE, Some off, drops st2))))"

section \<open>Opening\<close>

record open_abi =
  O_RDONLY :: u32
  O_WRONLY :: u32
  O_APPEND :: u32
  O_TRUNC :: u32
  O_CREAT :: u32
  O_PATH :: u32
  O_DIRECTORY :: u32

definition flags_to_options :: "open_abi \<Rightarrow> i32 \<Rightarrow> OpenOptions" where
  "flags_to_options A flags =
     (let acc = flags AND 3; has = (\<lambda>f. flags AND f \<noteq> 0)
      in \<lparr>o_read = (acc = O_RDONLY A \<or> acc \<noteq> O_WRONLY A),
          o_write = (acc \<noteq> O_RDONLY A),
          o_execute = has (O_PATH A), o_append = has (O_APPEND A), o_truncate = has (O_TRUNC A),
          o_create = has (O_CREAT A), o_create_new = False, o_directory = has (O_DIRECTORY A)\<rparr>)"

text \<open>The paths of open files and directories, for the resolution of relative paths.\<close>

definition path_env_of ::
  "('t, 'n, 'f, 'w, 's, 'c) sysenv \<Rightarrow> nat \<Rightarrow> ('t, 'n, 'f, 'w, 's, 'c) ios \<Rightarrow> path_env" where
  "path_env_of S c st =
     (let obj = (\<lambda>fd. case fo_get (FO S) (tab c (ft st)) (scast (fd :: i32)) of
                       None \<Rightarrow> Err EBADF
                     | Some a \<Rightarrow> Ok (arc_get (objs (ft st)) a))
      in (PE S)\<lparr>fd_file_path := (\<lambda>fd. bindR (obj fd) (\<lambda>x. case x of Some (File f) \<Rightarrow> Ok (of_path f) | _ \<Rightarrow> Err EINVAL)),
                fd_dir_path := (\<lambda>fd. bindR (obj fd) (\<lambda>x. case x of Some (Directory d) \<Rightarrow> Ok (od_path d) | _ \<Rightarrow> Err ENOTDIR))\<rparr>)"

text \<open>A directory is opened when the caller asks for one, or when the path turns out to name one.\<close>

definition open_object where
  "open_object S opts path real dir s =
     (let open_dir = (\<lambda>s1.
            let (r, s2) = (case dir of
                  None \<Rightarrow> open_dir_at_node (VO S) None path opts s1
                | Some d \<Rightarrow> open_dir_at (VO S) d path opts s1)
            in (bindR (map_err (ax_to_linux (PE S)) r) (\<lambda>d. Ok (Directory \<lparr>od_inner = d, od_path = real, last_dirent = None\<rparr>)), s2))
      in if o_directory opts then open_dir s
         else case (case dir of None \<Rightarrow> open_at (VO S) None path opts s
                    | Some d \<Rightarrow> open_file_at (VO S) d path opts s) of
                (Ok f, s1) \<Rightarrow> (Ok (File \<lparr>of_inner = f, of_path = real\<rparr>), s1)
              | (Err e, s1) \<Rightarrow> if e = IsADirectory then open_dir s1 else (Err (ax_to_linux (PE S) e), s1)
              | (Panic, s1) \<Rightarrow> (Panic, s1))"

definition sys_openat ::
  "('t, 'n, 'f, 'w, 's, 'c) sysenv \<Rightarrow> open_abi \<Rightarrow> nat \<Rightarrow> i32 \<Rightarrow> string LinuxResult \<Rightarrow> i32
   \<Rightarrow> ('t, 'n, 'f, 'w, 's, 'c) ios \<Rightarrow> i32 LinuxResult \<times> ('t, 'n, 'f, 'w, 's, 'c) ios" where
  "sys_openat S A c dirfd path flags st =
     (case path of
        Err e \<Rightarrow> (Err e, st)
      | Panic \<Rightarrow> (Panic, st)
      | Ok p \<Rightarrow>
          let opts = flags_to_options A flags;
              (dir, f1) = (if starts_with p ''/'' \<or> dirfd = AT_FDCWD (PE S) then (Ok None, ft st)
                           else let (r, f) = directory_from_fd (FO S) c dirfd (ft st)
                                in (bindR r (\<lambda>a. Ok (Some a)), f));
              st1 = st\<lparr>ft := f1\<rparr>
          in case dir of
               Err e \<Rightarrow> (Err e, st1)
             | Panic \<Rightarrow> (Panic, st1)
             | Ok d \<Rightarrow>
                 let drop_dir = (\<lambda>f. case d of None \<Rightarrow> f | Some a \<Rightarrow> drop_file a f);
                     handle = (case d of None \<Rightarrow> None
                       | Some a \<Rightarrow> (case arc_get (objs f1) a of Some (Directory od) \<Rightarrow> Some (od_inner od) | _ \<Rightarrow> None))
                 in case handle_file_path (VO S) (path_env_of S c st1) dirfd p (pfs st1) of
                      Err e \<Rightarrow> (Err e, st1\<lparr>ft := drop_dir f1\<rparr>)
                    | Panic \<Rightarrow> (Panic, st1\<lparr>ft := drop_dir f1\<rparr>)
                    | Ok real \<Rightarrow>
                        (case open_object S opts p real handle (fs (pfs st1)) of
                           (Ok obj, s) \<Rightarrow>
                             let (r, f2) = add_to_fd_table (FO S) c obj f1
                             in (r, st1\<lparr>pfs := (pfs st1)\<lparr>fs := s\<rparr>, ft := drop_dir f2\<rparr>)
                         | (Err e, s) \<Rightarrow> (Err e, st1\<lparr>pfs := (pfs st1)\<lparr>fs := s\<rparr>, ft := drop_dir f1\<rparr>)
                         | (Panic, s) \<Rightarrow> (Panic, st1\<lparr>pfs := (pfs st1)\<lparr>fs := s\<rparr>, ft := drop_dir f1\<rparr>)))"

section \<open>Directory entries\<close>

text \<open>
  The buffer of \<open>getdents64\<close> as the entries written into it; \<open>dirent_abi\<close> is the layout of
  \<open>linux_dirent64\<close>. An entry is its type, its name and the room it takes.
\<close>

record dirent_abi =
  NAME_OFFSET :: nat
  dirent_align :: nat
  DT_UNKNOWN :: u8
  DT_DIR :: u8
  DT_REG :: u8

record DirBuffer =
  db_len :: nat
  db_offset :: nat
  db_entries :: "(u8 \<times> u8 list \<times> nat) list"

definition remaining_space :: "DirBuffer \<Rightarrow> nat" where
  "remaining_space B = db_len B - db_offset B"

definition file_type_from :: "dirent_abi \<Rightarrow> DirEntry \<Rightarrow> u8" where
  "file_type_from A e = (if d_is_dir e then DT_DIR A else if d_is_file e then DT_REG A else DT_UNKNOWN A)"

definition next_multiple_of :: "nat \<Rightarrow> nat \<Rightarrow> nat" where
  "next_multiple_of n m = (n + m - 1) div m * m"

definition entry_size :: "dirent_abi \<Rightarrow> u8 list \<Rightarrow> nat" where
  "entry_size A name = next_multiple_of (NAME_OFFSET A + length name + 1) (dirent_align A)"

definition write_entry :: "dirent_abi \<Rightarrow> u8 \<Rightarrow> u8 list \<Rightarrow> DirBuffer \<Rightarrow> DirBuffer option" where
  "write_entry A ty name B =
     (let len = entry_size A name
      in if remaining_space B < len then None
         else Some (B\<lparr>db_offset := db_offset B + len, db_entries := db_entries B @ [(ty, name, len)]\<rparr>))"

text \<open>The loop of \<open>getdents64\<close>: entries are read one by one until the directory ends or one does not fit.\<close>

fun getdents_loop where
  "getdents_loop 0 V A s d B = None"
| "getdents_loop (Suc n) V A s d B =
     (case read_dir V d 1 s of
        Err e \<Rightarrow> Some (Err e, d, None, B)
      | Panic \<Rightarrow> Some (Panic, d, None, B)
      | Ok ([], d1) \<Rightarrow> Some (Ok (), d1, None, B)
      | Ok (ent # _, d1) \<Rightarrow>
          (case write_entry A (file_type_from A ent) (d_name ent) B of
             Some B1 \<Rightarrow> getdents_loop n V A s d1 B1
           | None \<Rightarrow> Some (Ok (), d1, Some ent, B)))"

text \<open>The part of \<open>getdents64\<close> behind the lookup of the descriptor, on the directory object.\<close>

definition getdents where
  "getdents conv V A s len od =
     (let B0 = \<lparr>db_len = len, db_offset = 0, db_entries = []\<rparr>
      in case (case last_dirent od of
                 None \<Rightarrow> Some B0
               | Some ent \<Rightarrow> write_entry A (file_type_from A ent) (d_name ent) B0) of
           None \<Rightarrow> Some (Err EINVAL, od, B0)
         | Some B1 \<Rightarrow>
             map_option (\<lambda>(r, d1, last, B2).
               (bindR (map_err conv r) (\<lambda>_. if last \<noteq> None \<and> db_offset B2 = 0 then Err EINVAL else Ok (db_offset B2)),
                od\<lparr>od_inner := d1, last_dirent := last\<rparr>, B2))
             (getdents_loop (Suc len) V A s (od_inner od) B1))"

definition sys_getdents64 where
  "sys_getdents64 S A c fd buf len st =
     (case buf of
        Err e \<Rightarrow> Some (Err e, st)
      | Panic \<Rightarrow> Some (Panic, st)
      | Ok (_::unit) \<Rightarrow>
          (case directory_from_fd (FO S) c fd (ft st) of
             (Err e, f1) \<Rightarrow> Some (Err e, st\<lparr>ft := f1\<rparr>)
           | (Panic, f1) \<Rightarrow> Some (Panic, st\<lparr>ft := f1\<rparr>)
           | (Ok a, f1) \<Rightarrow>
               (case arc_get (objs f1) a of
                  Some (Directory od) \<Rightarrow>
                    map_option (\<lambda>(r, od1, B).
                      let st1 = set_obj a (Directory od1) (st\<lparr>ft := f1\<rparr>)
                      in (bindR r (\<lambda>_. Ok B), st1\<lparr>ft := drop_file a (ft st1)\<rparr>))
                    (getdents (ax_to_linux (PE S)) (VO S) A (fs (pfs st)) len od)
                | _ \<Rightarrow> Some (Panic, st\<lparr>ft := drop_file a f1\<rparr>))))"

section \<open>Polling\<close>

record poll_abi =
  POLLIN :: i16
  POLLOUT :: i16
  POLLERR :: i16
  POLLNVAL :: i16

record pollfd =
  pfd_fd :: i32
  pfd_events :: i16
  pfd_revents :: i16

definition poll_revents :: "poll_abi \<Rightarrow> i16 \<Rightarrow> PollState \<Rightarrow> i16" where
  "poll_revents P events ps =
     (if events AND POLLIN P \<noteq> 0 \<and> poll_readable ps then POLLIN P else 0) OR
     (if events AND POLLOUT P \<noteq> 0 \<and> poll_writable ps then POLLOUT P else 0)"

definition poll_one where
  "poll_one S P c p st =
     (case get_file_like (FO S) c (pfd_fd p) (ft st) of
        (Ok a, f1) \<Rightarrow>
          (case file_like_poll S a (st\<lparr>ft := f1\<rparr>) of
             Ok ps \<Rightarrow> poll_revents P (pfd_events p) ps
           | _ \<Rightarrow> POLLERR P)
      | _ \<Rightarrow> POLLNVAL P)"

text \<open>A round of \<open>do_poll\<close> asks every descriptor; \<open>rounds\<close> has, for each, what the machine does before the
  next one and what the clock says.\<close>

fun do_poll where
  "do_poll S P c [] fds deadline st = None"
| "do_poll S P c ((env, wall_time) # rounds) fds deadline st =
     (let st1 = st\<lparr>dev := poll_interfaces (DO S) (dev st)\<rparr>;
          fds1 = map (\<lambda>p. p\<lparr>pfd_revents := poll_one S P c p st1\<rparr>) fds;
          res = length (filter (\<lambda>p. pfd_revents p \<noteq> 0) fds1)
      in if 0 < res then Some (res, fds1, st1)
         else if (case deadline of None \<Rightarrow> False | Some (d::nat) \<Rightarrow> d \<le> wall_time) then Some (0, fds1, st1)
         else do_poll S P c rounds fds1 deadline (env st1))"

definition sys_poll where
  "sys_poll S P c now rounds fds (timeout :: i32) st =
     do_poll S P c rounds fds
       (if sint timeout < 0 then None else Some (now + nat (sint timeout) * 1000000)) st"

section \<open>Listing a directory\<close>

lemma next_multiple_ge: "0 < m \<Longrightarrow> n \<le> next_multiple_of n m"
  unfolding next_multiple_of_def
  using div_mult_mod_eq [of "n + m - 1" m] mod_less_divisor [of m "n + m - 1"] by linarith

lemma entry_size_pos: "0 < dirent_align A \<Longrightarrow> 0 < entry_size A name"
  using next_multiple_ge [of "dirent_align A" "NAME_OFFSET A + length name + 1"] by (simp add: entry_size_def)

definition dirent_of :: "dirent_abi \<Rightarrow> DirEntry \<Rightarrow> u8 \<times> u8 list \<times> nat" where
  "dirent_of A e = (file_type_from A e, d_name e, entry_size A (d_name e))"

definition pending :: "'n ODir \<Rightarrow> DirEntry list \<Rightarrow> DirEntry list" where
  "pending od L = (case last_dirent od of None \<Rightarrow> [] | Some e \<Rightarrow> [e]) @ drop (entry_idx (od_inner od)) L"

lemma write_entry_cases:
  "write_entry A (file_type_from A e) (d_name e) B =
     (if remaining_space B < entry_size A (d_name e) then None
      else Some (B\<lparr>db_offset := db_offset B + entry_size A (d_name e), db_entries := db_entries B @ [dirent_of A e]\<rparr>))"
  by (simp add: write_entry_def dirent_of_def Let_def)

lemma getdents_loop_spec:
  assumes "lists V (d_node d) (world s) L" "READ \<in> d_cap d" "0 < dirent_align A"
    and "remaining_space B < n" "db_offset B \<le> db_len B"
  shows "\<exists>k es last B'. getdents_loop n V A s d B = Some (Ok (), d\<lparr>entry_idx := k\<rparr>, last, B') \<and>
    drop (entry_idx d) L = es @ (case last of None \<Rightarrow> [] | Some e \<Rightarrow> [e]) @ drop k L \<and>
    B' = B\<lparr>db_offset := db_offset B + sum_list (map (\<lambda>e. entry_size A (d_name e)) es),
           db_entries := db_entries B @ map (dirent_of A) es\<rparr> \<and>
    db_offset B' \<le> db_len B \<and> (last = None \<longrightarrow> drop k L = []) \<and>
    (\<forall>e. last = Some e \<longrightarrow> remaining_space B' < entry_size A (d_name e))"
  using assms
proof (induction n arbitrary: d B)
  case (Suc n)
  let ?i = "entry_idx d"
  have rd: "read_dir V d 1 s = Ok (take 1 (drop ?i L), d\<lparr>entry_idx := ?i + length (take 1 (drop ?i L))\<rparr>)"
    using Suc.prems(1,2) by (simp add: read_dir_def dir_access_node_def lists_def)
  show ?case
  proof (cases "drop ?i L")
    case Nil
    then show ?thesis
      using rd Suc.prems(5)
      by (intro exI [of _ ?i] exI [of _ "[]"] exI [of _ None] exI [of _ B]) simp
  next
    case (Cons e es)
    then have nx: "drop (?i + 1) L = es" by (metis Suc_eq_plus1 drop_Suc list.sel(3) tl_drop)
    let ?d = "d\<lparr>entry_idx := ?i + 1\<rparr>"
    show ?thesis
    proof (cases "remaining_space B < entry_size A (d_name e)")
      case True
      then show ?thesis
        using rd Cons nx Suc.prems(5)
        by (intro exI [of _ "?i + 1"] exI [of _ "[]"] exI [of _ "Some e"] exI [of _ B])
          (simp add: write_entry_cases)
    next
      case False
      let ?B = "B\<lparr>db_offset := db_offset B + entry_size A (d_name e), db_entries := db_entries B @ [dirent_of A e]\<rparr>"
      have "remaining_space ?B < n" "db_offset ?B \<le> db_len ?B"
        using False Suc.prems(3,4,5) entry_size_pos [of A "d_name e"] by (auto simp: remaining_space_def)
      with Suc.IH [of ?d ?B] Suc.prems(1-3) obtain k es' last B' where
        ih: "getdents_loop n V A s ?d ?B = Some (Ok (), ?d\<lparr>entry_idx := k\<rparr>, last, B')"
          "drop (?i + 1) L = es' @ (case last of None \<Rightarrow> [] | Some e \<Rightarrow> [e]) @ drop k L"
          "B' = ?B\<lparr>db_offset := db_offset ?B + sum_list (map (\<lambda>e. entry_size A (d_name e)) es'),
             db_entries := db_entries ?B @ map (dirent_of A) es'\<rparr>"
          "db_offset B' \<le> db_len B" "last = None \<longrightarrow> drop k L = []"
          "\<forall>e. last = Some e \<longrightarrow> remaining_space B' < entry_size A (d_name e)"
        by auto
      have "getdents_loop (Suc n) V A s d B = Some (Ok (), d\<lparr>entry_idx := k\<rparr>, last, B')"
        using rd Cons False ih(1) by (simp add: write_entry_cases)
      then show ?thesis
        using ih(2-6) nx Cons
        by (intro exI [of _ k] exI [of _ "e # es'"] exI [of _ last] exI [of _ B']) (simp add: add.assoc)
    qed
  qed
qed simp

text \<open>
  C34: \<open>getdents64\<close> loses and repeats nothing. A call ends, and returns a prefix of the entries that are
  still to come, in order, which fit into the buffer; the rest is what later calls will return, also
  when an entry had been read but did not fit. It returns 0 exactly when nothing is left, and fails only
  when the next entry alone is too large for the buffer.\<close>

theorem getdents_delivers:
  assumes "lists V (d_node (od_inner od)) (world s) L" "READ \<in> d_cap (od_inner od)" "0 < dirent_align A"
  shows "\<exists>r od' B es. getdents conv V A s len od = Some (r, od', B) \<and>
    pending od L = es @ pending od' L \<and> db_entries B = map (dirent_of A) es \<and>
    db_offset B = sum_list (map (\<lambda>e. entry_size A (d_name e)) es) \<and> db_offset B \<le> len \<and>
    (case r of Ok n \<Rightarrow> n = db_offset B \<and> (n = 0 \<longleftrightarrow> pending od L = [])
     | Err e \<Rightarrow> e = EINVAL \<and> es = [] \<and> pending od L \<noteq> [] \<and> len < entry_size A (d_name (hd (pending od L)))
     | Panic \<Rightarrow> False)"
proof -
  define B0 where "B0 = \<lparr>db_len = len, db_offset = 0, db_entries = []\<rparr>"
  define pre where "pre = (case last_dirent od of None \<Rightarrow> [] | Some e \<Rightarrow> [e])"
  let ?sz = "\<lambda>es. sum_list (map (\<lambda>e. entry_size A (d_name e)) es)"
  show ?thesis
  proof (cases "?sz pre \<le> len")
    case False
    then obtain e where e: "last_dirent od = Some e" "len < entry_size A (d_name e)"
      by (auto simp: pre_def split: option.splits)
    then have "getdents conv V A s len od = Some (Err EINVAL, od, B0)"
      by (simp add: getdents_def write_entry_cases remaining_space_def B0_def)
    then show ?thesis
      using e by (intro exI [of _ "Err EINVAL"] exI [of _ od] exI [of _ B0] exI [of _ "[]"])
        (simp add: pending_def B0_def)
  next
    case True
    define B1 where "B1 = B0\<lparr>db_offset := ?sz pre, db_entries := map (dirent_of A) pre\<rparr>"
    have fits: "(case last_dirent od of None \<Rightarrow> Some B0
        | Some ent \<Rightarrow> write_entry A (file_type_from A ent) (d_name ent) B0) = Some B1"
      using True by (cases "last_dirent od")
        (simp_all add: write_entry_cases remaining_space_def pre_def B1_def B0_def)
    have b1: "remaining_space B1 < Suc len" "db_offset B1 \<le> db_len B1"
      using True by (simp_all add: B1_def B0_def remaining_space_def)
    from getdents_loop_spec [OF assms b1] obtain k es last B' where
      l: "getdents_loop (Suc len) V A s (od_inner od) B1 = Some (Ok (), (od_inner od)\<lparr>entry_idx := k\<rparr>, last, B')"
        "drop (entry_idx (od_inner od)) L = es @ (case last of None \<Rightarrow> [] | Some e \<Rightarrow> [e]) @ drop k L"
        "B' = B1\<lparr>db_offset := db_offset B1 + ?sz es, db_entries := db_entries B1 @ map (dirent_of A) es\<rparr>"
        "db_offset B' \<le> db_len B1" "last = None \<longrightarrow> drop k L = []"
        "\<forall>e. last = Some e \<longrightarrow> remaining_space B' < entry_size A (d_name e)" by blast
    let ?od = "od\<lparr>od_inner := (od_inner od)\<lparr>entry_idx := k\<rparr>, last_dirent := last\<rparr>"
    let ?r = "if last \<noteq> None \<and> db_offset B' = 0 then Err EINVAL else Ok (db_offset B')"
    have "getdents conv V A s len od = Some (?r, ?od, B')"
      using fits l(1) by (simp add: getdents_def B0_def [symmetric] Let_def del: getdents_loop.simps)
    moreover have B': "db_entries B' = map (dirent_of A) (pre @ es)" "db_offset B' = ?sz (pre @ es)"
      "db_len B' = len" using l(3) by (simp_all add: B1_def B0_def)
    moreover have pend: "pending od L = (pre @ es) @ pending ?od L" using l(2) by (simp add: pending_def pre_def)
    moreover have zero: "db_offset B' = 0 \<longleftrightarrow> pre @ es = []"
      using entry_size_pos [OF assms(3)] unfolding B'(2) sum_list_eq_0_iff by (cases "pre @ es") auto
    moreover have "len < entry_size A (d_name (hd (pending od L))) \<and> pending od L \<noteq> []"
      if "last \<noteq> None" "db_offset B' = 0"
      using that l(6) pend zero B'(3) by (auto simp: pending_def remaining_space_def)
    moreover have "db_offset B' \<le> len" using l(4) by (simp add: B1_def B0_def)
    moreover have "pending ?od L = []" if "last = None" using that l(5) by (simp add: pending_def)
    ultimately show ?thesis
      by (intro exI [of _ ?r] exI [of _ ?od] exI [of _ B'] exI [of _ "pre @ es"]) auto
  qed
qed

definition linux_dirent64 :: dirent_abi where
  "linux_dirent64 = \<lparr>NAME_OFFSET = 19, dirent_align = 8, DT_UNKNOWN = 0, DT_DIR = 4, DT_REG = 8\<rparr>"

theorem getdents_delivers_witness:
  "\<exists>r od' B es. getdents (\<lambda>_. EINVAL) (list_ops [\<lparr>d_name = [97], d_is_dir = False, d_is_file = True\<rparr>])
       linux_dirent64 (mem_fsys Map.empty) 64
       \<lparr>od_inner = \<lparr>d_node = (0, ''d''), d_cap = {READ}, entry_idx = 0\<rparr>, od_path = ''/d'', last_dirent = None\<rparr> =
       Some (r, od', B) \<and> db_entries B = map (dirent_of linux_dirent64) es \<and> db_offset B \<le> 64"
proof -
  let ?L = "[\<lparr>d_name = [97], d_is_dir = False, d_is_file = True\<rparr>]"
  let ?od = "\<lparr>od_inner = \<lparr>d_node = (0, ''d''), d_cap = {READ}, entry_idx = 0\<rparr>, od_path = ''/d'', last_dirent = None\<rparr>"
  have "lists (list_ops ?L) (d_node (od_inner ?od)) (world (mem_fsys Map.empty)) ?L"
    by (simp add: lists_def list_ops_def)
  from getdents_delivers [OF this, of linux_dirent64 "\<lambda>_. EINVAL" 64] show ?thesis
    by (simp add: linux_dirent64_def) blast
qed

section \<open>End of file on a pipe\<close>

lemma clone_drop:
  assumes "objs f a = Some (n, v)" "0 < n"
  shows "drop_file a (clone_file a f) = f"
  using assms by (simp add: drop_file_def clone_file_def arc_clone_def arc_drop_def fun_upd_idem)

lemma unview_view: "bufs (ft st) b = Some (n, rb) \<Longrightarrow> pipe_unview b (pipe_view b st) = st"
  by (simp add: pipe_unview_def pipe_view_def fun_upd_idem Let_def)

text \<open>
  C33: A read from an empty pipe through a descriptor returns end of file exactly when no other
  descriptor of any process refers to another end of that pipe; otherwise it goes on waiting, however
  long nothing happens. Reading end of file changes nothing.\<close>

theorem sys_read_pipe_eof:
  assumes "flatten_laws (FO S)" "fd_inv (FO S) {#} {#} (ft st)" "c < length (tabs (ft st))"
    and "fo_get (FO S) (tab c (ft st)) (scast fd) = Some a"
    and "objs (ft st) a = Some (n, PipeEnd p b)" "pipe_readable p"
    and "bufs (ft st) b = Some (cnt, rb)" "rb_contents rb = []" "0 < len"
  shows "if \<exists>c' < length (tabs (ft st)). \<exists>i a' m p'. fo_get (FO S) (tab c' (ft st)) i = Some a' \<and> a' \<noteq> a \<and>
            objs (ft st) a' = Some (m, PipeEnd p' b)
    then sys_read S c (replicate k (\<lambda>s. s)) fd (Ok ()) len st = None
    else sys_read S c [\<lambda>s. s] fd (Ok ()) len st = Some (Ok [], st)"
proof -
  let ?other = "\<exists>c' < length (tabs (ft st)). \<exists>i a' m p'. fo_get (FO S) (tab c' (ft st)) i = Some a' \<and> a' \<noteq> a \<and>
            objs (ft st) a' = Some (m, PipeEnd p' b)"
  let ?st = "st\<lparr>ft := clone_file a (ft st)\<rparr>"
  have closed: "cnt = 1 \<longleftrightarrow> \<not> ?other" using inv_alone [OF assms(2,5)] assms(7) by auto
  have n: "0 < n" by (rule inv_count_pos [OF assms(2,5)])
  have view: "pipe_view b ?st = \<lparr>ps_buf = rb, ps_count = cnt, \<dots> = ?st\<rparr>"
    using assms(7) by (simp add: pipe_view_def clone_file_def)
  have same: "pipe_env b (\<lambda>s. s) (pipe_view b ?st) = pipe_view b ?st"
    using assms(7) by (simp add: pipe_env_def unview_view clone_file_def)
  have ar: "available_read rb = 0" using assms(8) by (simp flip: length_0_conv)
  have wait: "pipe_read_loop (replicate k (pipe_env b (\<lambda>s. s))) len (pipe_view b ?st) = None" if "cnt \<noteq> 1"
    using that ar same view by (induction k) (simp_all add: pipe_closed_def Let_def)
  have obj: "arc_get (objs (clone_file a (ft st))) a = Some (PipeEnd p b)"
    using assms(5) by (simp add: clone_file_def arc_clone_def arc_get_def)
  have gf: "get_file_like (FO S) c fd (ft st) = (Ok a, clone_file a (ft st))"
    using assms(4) by (simp add: get_file_like_def)
  show ?thesis
  proof (cases ?other)
    case True
    then have "sys_read S c (replicate k (\<lambda>s. s)) fd (Ok ()) len st = None"
      using closed wait gf obj assms(6,9) by (simp add: sys_read_def with_fd_def file_like_read_def pipe_read_def)
    with True show ?thesis by (simp only: if_True)
  next
    case False
    have "pipe_read_loop [pipe_env b (\<lambda>s. s)] len (pipe_view b ?st) = Some (Ok [], pipe_view b ?st)"
      using False closed same view ar by (simp add: pipe_closed_def Let_def)
    moreover have "pipe_unview b (pipe_view b ?st) = ?st"
      using assms(7) by (intro unview_view) (simp add: clone_file_def)
    ultimately have "sys_read S c [\<lambda>s. s] fd (Ok ()) len st = Some (Ok [], st)"
      using gf obj assms(6,9) clone_drop [OF assms(5) n]
      by (simp add: sys_read_def with_fd_def file_like_read_def pipe_read_def)
    with False show ?thesis by (simp only: if_False)
  qed
qed

definition mem_sys :: "((usize \<Rightarrow> nat option), mem_node, nat, mem_world, unit, unit) sysenv" where
  "mem_sys = \<lparr>FO = map_ops, VO = mem_ops, PE = mem_env,
     DO = \<lparr>con_read = (\<lambda>_ c. ([], c)), con_write = (\<lambda>_ c. c), bufreader_read = (\<lambda>f n c. f n c),
           sock_read = (\<lambda>_ _ c. (Ok [], c)), sock_write = (\<lambda>_ b c. (Ok (length b), c)),
           sock_poll = (\<lambda>_ _. Ok \<lparr>poll_readable = True, poll_writable = True\<rparr>), poll_interfaces = (\<lambda>c. c)\<rparr>\<rparr>"

theorem sys_read_pipe_eof_witness:
  "\<exists>(st :: (usize \<Rightarrow> nat option, mem_node, nat, mem_world, unit, unit) ios) r.
     fd_inv map_ops {#} {#} (ft st) \<and> sys_read mem_sys 0 (replicate 3 (\<lambda>s. s)) r (Ok ()) 8 st = None"
proof -
  obtain f :: "(usize \<Rightarrow> nat option, mem_node OFile, mem_node ODir, unit) files" and r w :: i32
    where f: "fd_reachable map_ops f" "tabs f \<noteq> []" "objs f 4 = Some (1, PipeEnd \<lparr>p_readable = True\<rparr> 3)"
      "objs f 5 = Some (1, PipeEnd \<lparr>p_readable = False\<rparr> 3)" "bufs f 3 = Some (2, ring_new)"
      "fo_get map_ops (tab 0 f) (scast r) = Some 4" "fo_get map_ops (tab 0 f) (scast w) = Some 5"
    by (rule pipe_example)
  define st where "st = \<lparr>ft = f, pfs = mem_pst Map.empty, dev = ()\<rparr>"
  have inv: "fd_inv map_ops {#} {#} f" by (rule reachable_inv [OF map_ops_laws f(1)])
  have fo: "FO mem_sys = map_ops" "ft st = f" by (simp_all add: mem_sys_def st_def)
  have "\<exists>c' < length (tabs f). \<exists>i a' m p'. fo_get map_ops (tab c' f) i = Some a' \<and> a' \<noteq> 4 \<and>
      objs f a' = Some (m, PipeEnd p' 3)"
  proof -
    have "0 < length (tabs f)" using f(2) by simp
    moreover have "(5::nat) \<noteq> 4" by simp
    ultimately show ?thesis using f(4,7) by blast
  qed
  with sys_read_pipe_eof [of mem_sys st 0 r 4 1 "\<lparr>p_readable = True\<rparr>" 3 2 ring_new 8 3] f inv map_ops_laws
  have "sys_read mem_sys 0 (replicate 3 (\<lambda>s. s)) r (Ok ()) 8 st = None"
    unfolding fo by (simp add: pipe_readable_def rb_contents_new)
  with inv show ?thesis by (intro exI [of _ st] exI [of _ r]) (simp add: st_def)
qed

text \<open>
  A file cannot be created by a call that opens it for reading only: the options that \<open>openat\<close>
  makes of \<open>O_RDONLY | O_CREAT\<close> are rejected as invalid, whatever else is asked for, unless \<open>O_APPEND\<close>
  is.\<close>

theorem open_create_needs_write:
  assumes "flags AND 3 = O_RDONLY A" "flags AND O_CREAT A \<noteq> 0" "flags AND O_APPEND A = 0"
  shows "open_at V dir path (flags_to_options A flags) s = (Err InvalidInput, s)"
  using assms by (simp add: open_at_def is_valid_def flags_to_options_def Let_def)

definition linux_open_abi :: open_abi where
  "linux_open_abi = \<lparr>O_RDONLY = 0, O_WRONLY = 1, O_APPEND = 1024, O_TRUNC = 512, O_CREAT = 64,
     O_PATH = 2097152, O_DIRECTORY = 65536\<rparr>"

theorem open_create_needs_write_witness:
  "open_at mem_ops None ''/new'' (flags_to_options linux_open_abi 64) (mem_fsys Map.empty) =
     (Err InvalidInput, mem_fsys Map.empty)"
  by (rule open_create_needs_write) (simp_all add: linux_open_abi_def)

end
