(* ===== verification/AddrSpace.thy ===== *)
theory AddrSpace
  imports Prelude
begin

text \<open>
  Virtual address spaces: \<open>axmm/src/aspace.rs\<close> and the mapping backends of \<open>axmm/src/backend\<close>.

  Outside this repository, and parameters here: the address arithmetic of the \<open>memory_addr\<close> crate
  (\<open>va_ops\<close>), page tables (\<open>pt_ops\<close>), the page allocator behind \<open>axalloc\<close> (\<open>fa_ops\<close>) and the ordered set
  of memory areas of the \<open>memory_set\<close> crate (\<open>ms_ops\<close>), which calls the backends of this repository back.
  Addresses are natural numbers; \<open>mem\<close> is the kernel's linear mapping of physical memory. A failed
  \<open>unwrap\<close> or assertion is \<open>Panic\<close>, in the backends \<open>None\<close>. Flushing the TLB has no effect in the model.
\<close>

section \<open>What the code relies on\<close>

datatype mflag = F_READ | F_WRITE | F_EXECUTE | F_USER

type_synonym MappingFlags = "mflag set"

record va_ops =
  align_down_4k :: "nat \<Rightarrow> nat"
  align_up_4k :: "nat \<Rightarrow> nat"
  align_offset_4k :: "nat \<Rightarrow> nat"
  is_aligned_4k :: "nat \<Rightarrow> bool"
  from_start_size :: "nat \<Rightarrow> nat \<Rightarrow> (nat \<times> nat) option"
  contains_range :: "nat \<times> nat \<Rightarrow> nat \<times> nat \<Rightarrow> bool"
  contains_addr :: "nat \<times> nat \<Rightarrow> nat \<Rightarrow> bool"
  range_overlaps :: "nat \<times> nat \<Rightarrow> nat \<times> nat \<Rightarrow> bool"
  page_iter_4k :: "nat \<Rightarrow> nat \<Rightarrow> nat list option"

datatype PagingError = NotMapped | OtherPagingError

text \<open>The flag in a result says whether the operation succeeded.\<close>

record 'pt pt_ops =
  pt_try_new :: "'pt option"
  pt_query :: "'pt \<Rightarrow> nat \<Rightarrow> (PagingError, nat \<times> MappingFlags) result"
  pt_map :: "nat \<Rightarrow> nat \<Rightarrow> MappingFlags \<Rightarrow> 'pt \<Rightarrow> bool \<times> 'pt"
  pt_unmap :: "nat \<Rightarrow> 'pt \<Rightarrow> (nat \<times> bool) option \<times> 'pt"
  pt_map_region :: "nat \<Rightarrow> (nat \<Rightarrow> nat) \<Rightarrow> nat \<Rightarrow> MappingFlags \<Rightarrow> 'pt \<Rightarrow> bool \<times> 'pt"
  pt_unmap_region :: "nat \<Rightarrow> nat \<Rightarrow> 'pt \<Rightarrow> bool \<times> 'pt"
  pt_protect_region :: "nat \<Rightarrow> nat \<Rightarrow> MappingFlags \<Rightarrow> 'pt \<Rightarrow> bool \<times> 'pt"
  pt_copy_from :: "'pt \<Rightarrow> nat \<Rightarrow> nat \<Rightarrow> 'pt \<Rightarrow> 'pt"
  pt_clear_copy_range :: "nat \<Rightarrow> nat \<Rightarrow> 'pt \<Rightarrow> 'pt"

record 'al fa_ops =
  alloc_pages :: "'al \<Rightarrow> (nat \<times> 'al) option"
  dealloc_pages :: "nat \<Rightarrow> 'al \<Rightarrow> 'al"

text \<open>The machine: the page table in question, the page allocator and the memory.\<close>

record ('pt, 'al) mach =
  pt :: 'pt
  al :: 'al
  mem :: "nat \<Rightarrow> u8"

datatype Backend = Linear nat | Alloc bool

record MemoryArea =
  ar_start :: nat
  ar_size :: nat
  ar_flags :: MappingFlags
  ar_backend :: Backend

definition ar_end :: "MemoryArea \<Rightarrow> nat" where
  "ar_end a = ar_start a + ar_size a"

datatype MappingError = InvalidParam | MapAlreadyExists | MapBadState

type_synonym 'm map_cb = "Backend \<Rightarrow> nat \<Rightarrow> nat \<Rightarrow> MappingFlags \<Rightarrow> 'm \<Rightarrow> bool option \<times> 'm"
type_synonym 'm unmap_cb = "Backend \<Rightarrow> nat \<Rightarrow> nat \<Rightarrow> 'm \<Rightarrow> bool option \<times> 'm"

record ('ms, 'm) ms_ops =
  ms_new :: 'ms
  ms_iter :: "'ms \<Rightarrow> MemoryArea list"
  ms_find :: "'ms \<Rightarrow> nat \<Rightarrow> MemoryArea option"
  ms_find_free_area :: "'ms \<Rightarrow> nat \<Rightarrow> nat \<Rightarrow> nat \<times> nat \<Rightarrow> nat option"
  ms_map :: "'m map_cb \<Rightarrow> MemoryArea \<Rightarrow> 'ms \<Rightarrow> 'm \<Rightarrow> (MappingError, unit) result \<times> 'ms \<times> 'm"
  ms_unmap :: "'m unmap_cb \<Rightarrow> nat \<Rightarrow> nat \<Rightarrow> 'ms \<Rightarrow> 'm \<Rightarrow> (MappingError, unit) result \<times> 'ms \<times> 'm"
  ms_protect :: "'m map_cb \<Rightarrow> nat \<Rightarrow> nat \<Rightarrow> MappingFlags \<Rightarrow> 'ms \<Rightarrow> 'm \<Rightarrow> (MappingError, unit) result \<times> 'ms \<times> 'm"
  ms_clear :: "'m unmap_cb \<Rightarrow> 'ms \<Rightarrow> 'm \<Rightarrow> (MappingError, unit) result \<times> 'ms \<times> 'm"

record ('ms, 'pt, 'al) mm_env =
  VA :: va_ops
  PT :: "'pt pt_ops"
  FA :: "'al fa_ops"
  MS :: "('ms, ('pt, 'al) mach) ms_ops"
  PHYS_VIRT_OFFSET :: nat

section \<open>Backends\<close>

text \<open>Subtraction of machine words, as the release build does it.\<close>

definition wsub :: "nat \<Rightarrow> nat \<Rightarrow> nat" where
  "wsub a b = (a + 2 ^ 64 - b) mod 2 ^ 64"

definition phys_to_virt :: "('ms, 'pt, 'al) mm_env \<Rightarrow> nat \<Rightarrow> nat" where
  "phys_to_virt E p = p + PHYS_VIRT_OFFSET E"

definition virt_to_phys :: "('ms, 'pt, 'al) mm_env \<Rightarrow> nat \<Rightarrow> nat" where
  "virt_to_phys E v = v - PHYS_VIRT_OFFSET E"

definition write_zero :: "nat \<Rightarrow> (nat \<Rightarrow> u8) \<Rightarrow> nat \<Rightarrow> u8" where
  "write_zero v M = (\<lambda>x. if v \<le> x \<and> x < v + 4096 then 0 else M x)"

definition alloc_frame ::
  "('ms, 'pt, 'al) mm_env \<Rightarrow> bool \<Rightarrow> ('pt, 'al) mach \<Rightarrow> nat option \<times> ('pt, 'al) mach" where
  "alloc_frame E zeroed m =
     (case alloc_pages (FA E) (al m) of
        None \<Rightarrow> (None, m)
      | Some (vaddr, a) \<Rightarrow>
          let m1 = m\<lparr>al := a\<rparr>; m2 = (if zeroed then m1\<lparr>mem := write_zero vaddr (mem m1)\<rparr> else m1)
          in (Some (virt_to_phys E vaddr), m2))"

definition dealloc_frame :: "('ms, 'pt, 'al) mm_env \<Rightarrow> nat \<Rightarrow> ('pt, 'al) mach \<Rightarrow> ('pt, 'al) mach" where
  "dealloc_frame E frame m = m\<lparr>al := dealloc_pages (FA E) (phys_to_virt E frame) (al m)\<rparr>"

fun map_alloc_pages ::
  "('ms, 'pt, 'al) mm_env \<Rightarrow> MappingFlags \<Rightarrow> nat list \<Rightarrow> ('pt, 'al) mach \<Rightarrow> bool \<times> ('pt, 'al) mach" where
  "map_alloc_pages E flags [] m = (True, m)"
| "map_alloc_pages E flags (a # as) m =
     (case alloc_frame E True m of
        (None, m1) \<Rightarrow> map_alloc_pages E flags as m1
      | (Some frame, m1) \<Rightarrow>
          let (ok, p) = pt_map (PT E) a frame flags (pt m1)
          in if ok then map_alloc_pages E flags as (m1\<lparr>pt := p\<rparr>) else (False, m1\<lparr>pt := p\<rparr>))"

definition backend_map_alloc ::
  "('ms, 'pt, 'al) mm_env \<Rightarrow> nat \<Rightarrow> nat \<Rightarrow> MappingFlags \<Rightarrow> bool \<Rightarrow> ('pt, 'al) mach \<Rightarrow> bool option \<times> ('pt, 'al) mach" where
  "backend_map_alloc E start sz flags populate m =
     (if populate
      then case page_iter_4k (VA E) start (start + sz) of
             None \<Rightarrow> (None, m)
           | Some pages \<Rightarrow> let (ok, m1) = map_alloc_pages E flags pages m in (Some ok, m1)
      else (Some True, m))"

fun unmap_alloc_pages ::
  "('ms, 'pt, 'al) mm_env \<Rightarrow> nat list \<Rightarrow> ('pt, 'al) mach \<Rightarrow> bool \<times> ('pt, 'al) mach" where
  "unmap_alloc_pages E [] m = (True, m)"
| "unmap_alloc_pages E (a # as) m =
     (case pt_unmap (PT E) a (pt m) of
        (Some (frame, is_huge), p) \<Rightarrow>
          if is_huge then (False, m\<lparr>pt := p\<rparr>)
          else unmap_alloc_pages E as (dealloc_frame E frame (m\<lparr>pt := p\<rparr>))
      | (None, p) \<Rightarrow> unmap_alloc_pages E as (m\<lparr>pt := p\<rparr>))"

definition backend_unmap_alloc ::
  "('ms, 'pt, 'al) mm_env \<Rightarrow> nat \<Rightarrow> nat \<Rightarrow> ('pt, 'al) mach \<Rightarrow> bool option \<times> ('pt, 'al) mach" where
  "backend_unmap_alloc E start sz m =
     (case page_iter_4k (VA E) start (start + sz) of
        None \<Rightarrow> (None, m)
      | Some pages \<Rightarrow> let (ok, m1) = unmap_alloc_pages E pages m in (Some ok, m1))"

definition handle_page_fault_alloc ::
  "('ms, 'pt, 'al) mm_env \<Rightarrow> nat \<Rightarrow> MappingFlags \<Rightarrow> bool \<Rightarrow> ('pt, 'al) mach \<Rightarrow> bool \<times> ('pt, 'al) mach" where
  "handle_page_fault_alloc E vaddr orig_flags populate m =
     (if populate then (False, m)
      else case alloc_frame E True m of
             (Some frame, m1) \<Rightarrow>
               let (ok, p) = pt_map (PT E) vaddr frame orig_flags (pt m1) in (ok, m1\<lparr>pt := p\<rparr>)
           | (None, m1) \<Rightarrow> (False, m1))"

definition backend_map_linear ::
  "('ms, 'pt, 'al) mm_env \<Rightarrow> nat \<Rightarrow> nat \<Rightarrow> MappingFlags \<Rightarrow> nat \<Rightarrow> ('pt, 'al) mach \<Rightarrow> bool option \<times> ('pt, 'al) mach" where
  "backend_map_linear E start sz flags pa_va_offset m =
     (let (ok, p) = pt_map_region (PT E) start (\<lambda>va. wsub va pa_va_offset) sz flags (pt m)
      in (Some ok, m\<lparr>pt := p\<rparr>))"

definition backend_unmap_linear ::
  "('ms, 'pt, 'al) mm_env \<Rightarrow> nat \<Rightarrow> nat \<Rightarrow> ('pt, 'al) mach \<Rightarrow> bool option \<times> ('pt, 'al) mach" where
  "backend_unmap_linear E start sz m =
     (let (ok, p) = pt_unmap_region (PT E) start sz (pt m) in (Some ok, m\<lparr>pt := p\<rparr>))"

fun backend_map :: "('ms, 'pt, 'al) mm_env \<Rightarrow> ('pt, 'al) mach map_cb" where
  "backend_map E (Linear off) start sz flags m = backend_map_linear E start sz flags off m"
| "backend_map E (Alloc populate) start sz flags m = backend_map_alloc E start sz flags populate m"

fun backend_unmap :: "('ms, 'pt, 'al) mm_env \<Rightarrow> ('pt, 'al) mach unmap_cb" where
  "backend_unmap E (Linear off) start sz m = backend_unmap_linear E start sz m"
| "backend_unmap E (Alloc populate) start sz m = backend_unmap_alloc E start sz m"

definition backend_protect :: "('ms, 'pt, 'al) mm_env \<Rightarrow> ('pt, 'al) mach map_cb" where
  "backend_protect E b start sz new_flags m =
     (let (ok, p) = pt_protect_region (PT E) start sz new_flags (pt m) in (Some ok, m\<lparr>pt := p\<rparr>))"

fun backend_handle_page_fault ::
  "('ms, 'pt, 'al) mm_env \<Rightarrow> Backend \<Rightarrow> nat \<Rightarrow> MappingFlags \<Rightarrow> ('pt, 'al) mach \<Rightarrow> bool \<times> ('pt, 'al) mach" where
  "backend_handle_page_fault E (Linear off) vaddr orig_flags m = (False, m)"
| "backend_handle_page_fault E (Alloc populate) vaddr orig_flags m =
     handle_page_fault_alloc E vaddr orig_flags populate m"

section \<open>Address spaces\<close>

text \<open>The allocator and the memory in \<open>as_m\<close> are those of the whole machine.\<close>

record ('ms, 'pt, 'al) AddrSpace =
  va_range :: "nat \<times> nat"
  areas :: 'ms
  as_m :: "('pt, 'al) mach"

fun mapping_err_to_ax_err :: "MappingError \<Rightarrow> AxError" where
  "mapping_err_to_ax_err InvalidParam = InvalidInput"
| "mapping_err_to_ax_err MapAlreadyExists = AlreadyExists"
| "mapping_err_to_ax_err MapBadState = BadState"

definition as_contains_range :: "('ms, 'pt, 'al) mm_env \<Rightarrow> ('ms, 'pt, 'al) AddrSpace \<Rightarrow> nat \<Rightarrow> nat \<Rightarrow> bool AxResult" where
  "as_contains_range E s start sz =
     (case from_start_size (VA E) start sz of
        None \<Rightarrow> Panic
      | Some r \<Rightarrow> Ok (contains_range (VA E) (va_range s) r))"

definition new_empty ::
  "('ms, 'pt, 'al) mm_env \<Rightarrow> nat \<Rightarrow> nat \<Rightarrow> ('pt, 'al) mach \<Rightarrow> ('ms, 'pt, 'al) AddrSpace AxResult" where
  "new_empty E base sz m =
     (case from_start_size (VA E) base sz of
        None \<Rightarrow> Panic
      | Some r \<Rightarrow>
          (case pt_try_new (PT E) of
             None \<Rightarrow> Err NoMemory
           | Some p \<Rightarrow> Ok \<lparr>va_range = r, areas = ms_new (MS E), as_m = m\<lparr>pt := p\<rparr>\<rparr>))"

definition copy_mappings_from ::
  "('ms, 'pt, 'al) mm_env \<Rightarrow> nat \<times> nat \<Rightarrow> 'pt \<Rightarrow> (('ms, 'pt, 'al) AddrSpace, AxError, unit) io" where
  "copy_mappings_from E other_range other_pt s =
     (if range_overlaps (VA E) (va_range s) other_range then (Err InvalidInput, s)
      else (Ok (), s\<lparr>as_m := (as_m s)\<lparr>pt :=
              pt_copy_from (PT E) other_pt (fst other_range) (snd other_range - fst other_range) (pt (as_m s))\<rparr>\<rparr>))"

definition clear_mappings :: "('ms, 'pt, 'al) mm_env \<Rightarrow> nat \<times> nat \<Rightarrow> ('ms, 'pt, 'al) AddrSpace \<Rightarrow> ('ms, 'pt, 'al) AddrSpace" where
  "clear_mappings E r s =
     s\<lparr>as_m := (as_m s)\<lparr>pt := pt_clear_copy_range (PT E) (fst r) (snd r - fst r) (pt (as_m s))\<rparr>\<rparr>"

definition validate_region :: "('ms, 'pt, 'al) mm_env \<Rightarrow> ('ms, 'pt, 'al) AddrSpace \<Rightarrow> nat \<Rightarrow> nat \<Rightarrow> unit AxResult" where
  "validate_region E s start sz =
     bindR (as_contains_range E s start sz) (\<lambda>ok.
       if \<not> ok then Err InvalidInput
       else if \<not> is_aligned_4k (VA E) start \<or> \<not> is_aligned_4k (VA E) sz then Err InvalidInput
       else Ok ())"

definition find_free_area ::
  "('ms, 'pt, 'al) mm_env \<Rightarrow> nat \<Rightarrow> nat \<Rightarrow> nat \<times> nat \<Rightarrow> ('ms, 'pt, 'al) AddrSpace \<Rightarrow> nat option" where
  "find_free_area E hint sz limit s = ms_find_free_area (MS E) (areas s) hint sz limit"

text \<open>A call of an operation of the set of areas.\<close>

definition on_areas ::
  "('ms \<Rightarrow> ('pt, 'al) mach \<Rightarrow> (MappingError, unit) result \<times> 'ms \<times> ('pt, 'al) mach) \<Rightarrow>
   (('ms, 'pt, 'al) AddrSpace, AxError, unit) io" where
  "on_areas f s =
     (let (r, a, m) = f (areas s) (as_m s)
      in (map_err mapping_err_to_ax_err r, s\<lparr>areas := a, as_m := m\<rparr>))"

definition map_linear ::
  "('ms, 'pt, 'al) mm_env \<Rightarrow> nat \<Rightarrow> nat \<Rightarrow> nat \<Rightarrow> MappingFlags \<Rightarrow> (('ms, 'pt, 'al) AddrSpace, AxError, unit) io" where
  "map_linear E start_vaddr start_paddr sz flags =
     bindS (getS (\<lambda>s. validate_region E s start_vaddr sz)) (\<lambda>_.
       if \<not> is_aligned_4k (VA E) start_paddr then errS InvalidInput
       else on_areas (ms_map (MS E) (backend_map E)
              \<lparr>ar_start = start_vaddr, ar_size = sz, ar_flags = flags,
               ar_backend = Linear (wsub start_vaddr start_paddr)\<rparr>))"

definition map_alloc ::
  "('ms, 'pt, 'al) mm_env \<Rightarrow> nat \<Rightarrow> nat \<Rightarrow> MappingFlags \<Rightarrow> bool \<Rightarrow> (('ms, 'pt, 'al) AddrSpace, AxError, unit) io" where
  "map_alloc E start sz flags populate =
     bindS (getS (\<lambda>s. validate_region E s start sz)) (\<lambda>_.
       on_areas (ms_map (MS E) (backend_map E)
         \<lparr>ar_start = start, ar_size = sz, ar_flags = flags, ar_backend = Alloc populate\<rparr>))"

text \<open>\<open>populate_area\<close>: the inner loop over the pages of one area, then the loop over the areas. Every
  round of the latter moves \<open>start\<close> to the end of an area; an area that ended where it began would be
  found again and again, so the number of rounds is bounded by the distance to the end.\<close>

fun populate_pages ::
  "('ms, 'pt, 'al) mm_env \<Rightarrow> MemoryArea \<Rightarrow> nat list \<Rightarrow> (('pt, 'al) mach, AxError, unit) io" where
  "populate_pages E area [] m = (Ok (), m)"
| "populate_pages E area (addr # as) m =
     (case pt_query (PT E) (pt m) addr of
        Ok _ \<Rightarrow> populate_pages E area as m
      | Err NotMapped \<Rightarrow>
          (case backend_handle_page_fault E (ar_backend area) addr (ar_flags area) m of
             (True, m1) \<Rightarrow> populate_pages E area as m1
           | (False, m1) \<Rightarrow> (Err NoMemory, m1))
      | Err OtherPagingError \<Rightarrow> (Err BadAddress, m)
      | Panic \<Rightarrow> (Panic, m))"

definition populate_one ::
  "('ms, 'pt, 'al) mm_env \<Rightarrow> MemoryArea \<Rightarrow> nat \<Rightarrow> nat \<Rightarrow> (('pt, 'al) mach, AxError, unit) io" where
  "populate_one E area start end_addr m =
     (case ar_backend area of
        Alloc populate \<Rightarrow>
          if populate then (Ok (), m)
          else (case page_iter_4k (VA E) start (min (ar_end area) end_addr) of
                  None \<Rightarrow> (Panic, m)
                | Some pages \<Rightarrow> populate_pages E area pages m)
      | Linear _ \<Rightarrow> (Ok (), m))"

fun populate_loop ::
  "nat \<Rightarrow> ('ms, 'pt, 'al) mm_env \<Rightarrow> nat \<Rightarrow> nat \<Rightarrow> (('ms, 'pt, 'al) AddrSpace, AxError, nat) io" where
  "populate_loop 0 E start end_addr s = (Panic, s)"
| "populate_loop (Suc n) E start end_addr s =
     (case ms_find (MS E) (areas s) start of
        None \<Rightarrow> (Ok start, s)
      | Some area \<Rightarrow>
          (case populate_one E area start end_addr (as_m s) of
             (Ok _, m1) \<Rightarrow>
               let start1 = ar_end area; s1 = s\<lparr>as_m := m1\<rparr>
               in if \<not> is_aligned_4k (VA E) start1 then (Panic, s1)
                  else if end_addr \<le> start1 then (Ok start1, s1)
                  else populate_loop n E start1 end_addr s1
           | (Err e, m1) \<Rightarrow> (Err e, s\<lparr>as_m := m1\<rparr>)
           | (Panic, m1) \<Rightarrow> (Panic, s\<lparr>as_m := m1\<rparr>)))"

definition populate_area :: "('ms, 'pt, 'al) mm_env \<Rightarrow> nat \<Rightarrow> nat \<Rightarrow> (('ms, 'pt, 'al) AddrSpace, AxError, unit) io" where
  "populate_area E start sz =
     bindS (getS (\<lambda>s. validate_region E s start sz)) (\<lambda>_.
     bindS (populate_loop (Suc sz) E start (start + sz)) (\<lambda>reached.
       if reached < start + sz then errS NoMemory else okS ()))"

definition as_unmap :: "('ms, 'pt, 'al) mm_env \<Rightarrow> nat \<Rightarrow> nat \<Rightarrow> (('ms, 'pt, 'al) AddrSpace, AxError, unit) io" where
  "as_unmap E start sz =
     bindS (getS (\<lambda>s. validate_region E s start sz)) (\<lambda>_. on_areas (ms_unmap (MS E) (backend_unmap E) start sz))"

definition as_clear :: "('ms, 'pt, 'al) mm_env \<Rightarrow> (('ms, 'pt, 'al) AddrSpace, AxError, unit) io" where
  "as_clear E s =
     (case on_areas (ms_clear (MS E) (backend_unmap E)) s of
        (Ok _, s1) \<Rightarrow> (Ok (), s1)
      | (_, s1) \<Rightarrow> (Panic, s1))"

definition unmap_user_areas :: "('ms, 'pt, 'al) mm_env \<Rightarrow> (('ms, 'pt, 'al) AddrSpace, AxError, unit) io" where
  "unmap_user_areas E s =
     (if \<forall>area \<in> set (ms_iter (MS E) (areas s)).
           is_aligned_4k (VA E) (ar_start area) \<and> ar_size area mod 4096 = 0 \<and> F_USER \<in> ar_flags area \<and>
           (case from_start_size (VA E) (ar_start area) (ar_size area) of
              None \<Rightarrow> False | Some r \<Rightarrow> contains_range (VA E) (va_range s) r)
      then as_clear E s
      else (Panic, s))"

definition as_protect :: "('ms, 'pt, 'al) mm_env \<Rightarrow> nat \<Rightarrow> nat \<Rightarrow> MappingFlags \<Rightarrow> (('ms, 'pt, 'al) AddrSpace, AxError, unit) io" where
  "as_protect E start sz flags =
     bindS (populate_area E start sz) (\<lambda>_. on_areas (ms_protect (MS E) (backend_protect E) start sz flags))"

section \<open>Copying data\<close>

text \<open>
  \<open>process_area_data\<close>: the calls \<open>f(addr, offset, size)\<close> that it makes, page by page, and how it ends.
\<close>

fun area_chunks ::
  "('ms, 'pt, 'al) mm_env \<Rightarrow> 'pt \<Rightarrow> nat \<Rightarrow> nat \<Rightarrow> nat \<Rightarrow> nat list \<Rightarrow> (nat \<times> nat \<times> nat) list \<times> unit AxResult" where
  "area_chunks E p start sz cnt [] = ([], Ok ())"
| "area_chunks E p start sz cnt (vaddr # vs) =
     (case pt_query (PT E) p vaddr of
        Ok (paddr, _) \<Rightarrow>
          let copy_size = min (sz - cnt) 4096
          in if copy_size = 0 then ([], Ok ())
             else let first = (vaddr = align_down_4k (VA E) start \<and> align_offset_4k (VA E) start \<noteq> 0);
                      off = (if first then align_offset_4k (VA E) start else 0);
                      n = (if first then min copy_size (4096 - off) else copy_size);
                      (cs, r) = area_chunks E p start sz (cnt + n) vs
                  in ((phys_to_virt E (paddr + off), cnt, n) # cs, r)
      | Err _ \<Rightarrow> ([], Err BadAddress)
      | Panic \<Rightarrow> ([], Panic))"

definition process_area_data ::
  "('ms, 'pt, 'al) mm_env \<Rightarrow> nat \<Rightarrow> nat \<Rightarrow> ('ms, 'pt, 'al) AddrSpace \<Rightarrow> (nat \<times> nat \<times> nat) list \<times> unit AxResult" where
  "process_area_data E start sz s =
     (case as_contains_range E s start sz of
        Ok True \<Rightarrow>
          (case page_iter_4k (VA E) (align_down_4k (VA E) start) (align_up_4k (VA E) (start + sz)) of
             None \<Rightarrow> ([], Panic)
           | Some pages \<Rightarrow> area_chunks E (pt (as_m s)) start sz 0 pages)
      | Ok False \<Rightarrow> ([], Err InvalidInput)
      | Err e \<Rightarrow> ([], Err e)
      | Panic \<Rightarrow> ([], Panic))"

text \<open>\<open>copy_nonoverlapping\<close> from memory into a buffer, and from a buffer into memory.\<close>

definition copy_out :: "(nat \<Rightarrow> u8) \<Rightarrow> nat \<times> nat \<times> nat \<Rightarrow> u8 list \<Rightarrow> u8 list" where
  "copy_out M c buf =
     (case c of (addr, off, n) \<Rightarrow> take off buf @ map M [addr..<addr + n] @ drop (off + n) buf)"

definition copy_in :: "u8 list \<Rightarrow> nat \<times> nat \<times> nat \<Rightarrow> (nat \<Rightarrow> u8) \<Rightarrow> nat \<Rightarrow> u8" where
  "copy_in buf c M =
     (case c of (addr, off, n) \<Rightarrow> (\<lambda>x. if addr \<le> x \<and> x < addr + n then buf ! (off + (x - addr)) else M x))"

definition as_read ::
  "('ms, 'pt, 'al) mm_env \<Rightarrow> nat \<Rightarrow> u8 list \<Rightarrow> ('ms, 'pt, 'al) AddrSpace \<Rightarrow> unit AxResult \<times> u8 list" where
  "as_read E start buf s =
     (let (cs, r) = process_area_data E start (length buf) s in (r, fold (copy_out (mem (as_m s))) cs buf))"

definition as_write :: "('ms, 'pt, 'al) mm_env \<Rightarrow> nat \<Rightarrow> u8 list \<Rightarrow> (('ms, 'pt, 'al) AddrSpace, AxError, unit) io" where
  "as_write E start buf s =
     (let (cs, r) = process_area_data E start (length buf) s
      in (r, s\<lparr>as_m := (as_m s)\<lparr>mem := fold (copy_in buf) cs (mem (as_m s))\<rparr>\<rparr>))"

section \<open>Access checks, page faults and cloning\<close>

fun check_region_loop :: "MemoryArea list \<Rightarrow> nat \<Rightarrow> nat \<Rightarrow> MappingFlags \<Rightarrow> bool" where
  "check_region_loop [] start end_addr access_flags = False"
| "check_region_loop (area # as) start end_addr access_flags =
     (if ar_end area \<le> start then check_region_loop as start end_addr access_flags
      else if start < ar_start area then False
      else if \<not> access_flags \<subseteq> ar_flags area then False
      else if end_addr \<le> ar_end area then True
      else check_region_loop as (ar_end area) end_addr access_flags)"

definition check_region_access ::
  "('ms, 'pt, 'al) mm_env \<Rightarrow> ('ms, 'pt, 'al) AddrSpace \<Rightarrow> nat \<times> nat \<Rightarrow> MappingFlags \<Rightarrow> bool" where
  "check_region_access E s r access_flags =
     check_region_loop (ms_iter (MS E) (areas s)) (fst r) (snd r) access_flags"

definition handle_page_fault ::
  "('ms, 'pt, 'al) mm_env \<Rightarrow> nat \<Rightarrow> MappingFlags \<Rightarrow> ('ms, 'pt, 'al) AddrSpace \<Rightarrow> bool \<times> ('ms, 'pt, 'al) AddrSpace" where
  "handle_page_fault E vaddr access_flags s =
     (if \<not> contains_addr (VA E) (va_range s) vaddr then (False, s)
      else case ms_find (MS E) (areas s) vaddr of
             Some area \<Rightarrow>
               if access_flags \<subseteq> ar_flags area
               then let (ok, m1) = backend_handle_page_fault E (ar_backend area) vaddr (ar_flags area) (as_m s)
                    in (ok, s\<lparr>as_m := m1\<rparr>)
               else (False, s)
           | None \<Rightarrow> (False, s))"

text \<open>
  \<open>clone_or_err\<close>: \<open>old\<close> is the page table of the original; the state is the new address space, whose
  allocator and memory are those of the machine.
\<close>

definition copy_page :: "nat \<Rightarrow> nat \<Rightarrow> (nat \<Rightarrow> u8) \<Rightarrow> nat \<Rightarrow> u8" where
  "copy_page src dst M = (\<lambda>x. if dst \<le> x \<and> x < dst + 4096 then M (src + (x - dst)) else M x)"

fun clone_pages ::
  "('ms, 'pt, 'al) mm_env \<Rightarrow> 'pt \<Rightarrow> MemoryArea \<Rightarrow> nat list \<Rightarrow> (('pt, 'al) mach, AxError, unit) io" where
  "clone_pages E old area [] m = (Ok (), m)"
| "clone_pages E old area (vaddr # vs) m =
     (case pt_query (PT E) old vaddr of
        Err NotMapped \<Rightarrow> clone_pages E old area vs m
      | Err OtherPagingError \<Rightarrow> (Err BadAddress, m)
      | Panic \<Rightarrow> (Panic, m)
      | Ok (addr, _) \<Rightarrow>
          (let copy = (\<lambda>new_addr m1. clone_pages E old area vs
                 (m1\<lparr>mem := copy_page (phys_to_virt E addr) (phys_to_virt E new_addr) (mem m1)\<rparr>))
           in case pt_query (PT E) (pt m) vaddr of
                Ok (new_addr, _) \<Rightarrow> copy new_addr m
              | Err OtherPagingError \<Rightarrow> (Err BadAddress, m)
              | Panic \<Rightarrow> (Panic, m)
              | Err NotMapped \<Rightarrow>
                  (case backend_handle_page_fault E (ar_backend area) vaddr (ar_flags area) m of
                     (False, m1) \<Rightarrow> (Err NoMemory, m1)
                   | (True, m1) \<Rightarrow>
                       (case pt_query (PT E) (pt m1) vaddr of
                          Ok (new_addr, _) \<Rightarrow> copy new_addr m1
                        | Err _ \<Rightarrow> (Err BadAddress, m1)
                        | Panic \<Rightarrow> (Panic, m1)))))"

fun clone_areas ::
  "('ms, 'pt, 'al) mm_env \<Rightarrow> 'pt \<Rightarrow> MemoryArea list \<Rightarrow> (('ms, 'pt, 'al) AddrSpace, AxError, unit) io" where
  "clone_areas E old [] s = (Ok (), s)"
| "clone_areas E old (area # as) s =
     (case on_areas (ms_map (MS E) (backend_map E) area) s of
        (Err e, s1) \<Rightarrow> (Err e, s1)
      | (Panic, s1) \<Rightarrow> (Panic, s1)
      | (Ok _, s1) \<Rightarrow>
          (case ar_backend area of
             Linear _ \<Rightarrow> clone_areas E old as s1
           | Alloc _ \<Rightarrow>
               (case page_iter_4k (VA E) (ar_start area) (ar_end area) of
                  None \<Rightarrow> (Panic, s1)
                | Some pages \<Rightarrow>
                    (case clone_pages E old area pages (as_m s1) of
                       (Ok _, m1) \<Rightarrow> clone_areas E old as (s1\<lparr>as_m := m1\<rparr>)
                     | (Err e, m1) \<Rightarrow> (Err e, s1\<lparr>as_m := m1\<rparr>)
                     | (Panic, m1) \<Rightarrow> (Panic, s1\<lparr>as_m := m1\<rparr>)))))"

text \<open>The new address space and the machine afterwards; on an error the partial copy is dropped, which clears it.\<close>

definition clone_or_err ::
  "('ms, 'pt, 'al) mm_env \<Rightarrow> ('ms, 'pt, 'al) AddrSpace \<Rightarrow> ('ms, 'pt, 'al) AddrSpace AxResult \<times> ('pt, 'al) mach" where
  "clone_or_err E s =
     (case new_empty E (fst (va_range s)) (snd (va_range s) - fst (va_range s)) (as_m s) of
        Ok n \<Rightarrow>
          (case clone_areas E (pt (as_m s)) (ms_iter (MS E) (areas s)) n of
             (Ok _, n1) \<Rightarrow> (Ok n1, (as_m n1)\<lparr>pt := pt (as_m s)\<rparr>)
           | (Panic, n1) \<Rightarrow> (Panic, (as_m n1)\<lparr>pt := pt (as_m s)\<rparr>)
           | (Err e, n1) \<Rightarrow>
               (case as_clear E n1 of
                  (Ok _, n2) \<Rightarrow> (Err e, (as_m n2)\<lparr>pt := pt (as_m s)\<rparr>)
                | (_, n2) \<Rightarrow> (Panic, (as_m n2)\<lparr>pt := pt (as_m s)\<rparr>)))
      | Err e \<Rightarrow> (Err e, as_m s)
      | Panic \<Rightarrow> (Panic, as_m s))"

section \<open>Documented behaviour of the parameters\<close>

definition va_laws :: "va_ops \<Rightarrow> bool" where
  "va_laws V \<longleftrightarrow>
     (\<forall>x. align_down_4k V x = x - x mod 4096) \<and>
     (\<forall>x. align_offset_4k V x = x mod 4096) \<and>
     (\<forall>x. is_aligned_4k V x \<longleftrightarrow> x mod 4096 = 0) \<and>
     (\<forall>x < 2 ^ 64 - 4096. align_up_4k V x = (x + 4095) - (x + 4095) mod 4096) \<and>
     (\<forall>b n. from_start_size V b n = (if b + n < 2 ^ 64 then Some (b, b + n) else None)) \<and>
     (\<forall>r q. contains_range V r q \<longleftrightarrow> fst r \<le> fst q \<and> snd q \<le> snd r) \<and>
     (\<forall>r x. contains_addr V r x \<longleftrightarrow> fst r \<le> x \<and> x < snd r) \<and>
     (\<forall>a b. a mod 4096 = 0 \<longrightarrow> b mod 4096 = 0 \<longrightarrow> a \<le> b \<longrightarrow>
        page_iter_4k V a b = Some (map (\<lambda>k. a + 4096 * k) [0..<(b - a) div 4096]))"

text \<open>The areas of a set, in the order of iteration: not empty, and each ends before the next begins.\<close>

fun areas_ok :: "MemoryArea list \<Rightarrow> bool" where
  "areas_ok [] = True"
| "areas_ok (a # as) = (0 < ar_size a \<and> (\<forall>b \<in> set as. ar_end a \<le> ar_start b) \<and> areas_ok as)"

definition covers :: "MemoryArea \<Rightarrow> nat \<Rightarrow> bool" where
  "covers a x \<longleftrightarrow> ar_start a \<le> x \<and> x < ar_end a"

definition ms_laws :: "('ms, 'm) ms_ops \<Rightarrow> bool" where
  "ms_laws M \<longleftrightarrow>
     ms_iter M (ms_new M) = [] \<and>
     (\<forall>ms x a. ms_find M ms x = Some a \<longrightarrow> a \<in> set (ms_iter M ms) \<and> covers a x) \<and>
     (\<forall>ms x a. ms_find M ms x = None \<longrightarrow> a \<in> set (ms_iter M ms) \<longrightarrow> \<not> covers a x) \<and>
     (\<forall>cb a ms m ms' m'. ms_map M cb a ms m = (Ok (), ms', m') \<longrightarrow>
        cb (ar_backend a) (ar_start a) (ar_size a) (ar_flags a) m = (Some True, m') \<and>
        set (ms_iter M ms') = insert a (set (ms_iter M ms)))"

definition pt_laws :: "'pt pt_ops \<Rightarrow> bool" where
  "pt_laws P \<longleftrightarrow>
     (\<forall>p v. pt_try_new P = Some p \<longrightarrow> pt_query P p v = Err NotMapped) \<and>
     (\<forall>v f fl p p'. pt_map P v f fl p = (True, p') \<longrightarrow> f mod 4096 = 0 \<longrightarrow>
        (\<forall>w. pt_query P p' w = (if w div 4096 = v div 4096 then Ok (f + w mod 4096, fl) else pt_query P p w))) \<and>
     (\<forall>v g n fl p p'. pt_map_region P v g n fl p = (True, p') \<longrightarrow>
        (\<forall>w. \<not> (v \<le> w \<and> w < v + n) \<longrightarrow> pt_query P p' w = pt_query P p w))"

text \<open>\<open>used\<close>: the pages that the allocator does not hand out in a state.\<close>

definition fa_laws :: "'al fa_ops \<Rightarrow> nat \<Rightarrow> ('al \<Rightarrow> nat set) \<Rightarrow> bool" where
  "fa_laws F off used \<longleftrightarrow>
     (\<forall>a v a'. alloc_pages F a = Some (v, a') \<longrightarrow>
        v mod 4096 = 0 \<and> off \<le> v \<and> v \<notin> used a \<and> used a' = insert v (used a)) \<and>
     off mod 4096 = 0 \<and> (\<forall>a. \<forall>v \<in> used a. v mod 4096 = 0)"

section \<open>Access checks\<close>

lemma check_region_loop_iff:
  assumes "areas_ok as" "start < e"
  shows "check_region_loop as start e fl \<longleftrightarrow> (\<forall>x. start \<le> x \<and> x < e \<longrightarrow> (\<exists>a \<in> set as. covers a x \<and> fl \<subseteq> ar_flags a))"
  using assms
proof (induction as arbitrary: start)
  case (Cons a as)
  have ok: "areas_ok as" "\<And>b. b \<in> set as \<Longrightarrow> ar_end a \<le> ar_start b" "ar_start a < ar_end a"
    using Cons.prems by (auto simp: ar_end_def)
  have later: "\<not> covers b x" if "b \<in> set as" "x < ar_end a" for b x
    using ok(2)[OF that(1)] that(2) by (simp add: covers_def)
  consider "ar_end a \<le> start" | "start < ar_start a" | "ar_start a \<le> start" "start < ar_end a" "\<not> fl \<subseteq> ar_flags a"
    | "ar_start a \<le> start" "start < ar_end a" "fl \<subseteq> ar_flags a" "e \<le> ar_end a"
    | "ar_start a \<le> start" "start < ar_end a" "fl \<subseteq> ar_flags a" "ar_end a < e"
    by linarith
  then show ?case
  proof cases
    case 1
    then show ?thesis using Cons.IH[OF ok(1), of start] Cons.prems(2) by (auto simp: covers_def)
  next
    case 2
    then have "\<not> (\<exists>b \<in> set (a # as). covers b start)"
      using later[of _ start] ok(3) by (auto simp: covers_def)
    then show ?thesis using 2 Cons.prems(2) ok(3) by auto
  next
    case 3
    then have "\<not> (\<exists>b \<in> set (a # as). covers b start \<and> fl \<subseteq> ar_flags b)"
      using later[of _ start] by auto
    then show ?thesis using 3 Cons.prems(2) by auto
  next
    case 4
    then show ?thesis by (auto simp: covers_def)
  next
    case 5
    have "check_region_loop (a # as) start e fl = check_region_loop as (ar_end a) e fl" using 5 by simp
    also have "\<dots> = (\<forall>x. ar_end a \<le> x \<and> x < e \<longrightarrow> (\<exists>b \<in> set as. covers b x \<and> fl \<subseteq> ar_flags b))"
      by (rule Cons.IH[OF ok(1) 5(4)])
    also have "\<dots> = (\<forall>x. start \<le> x \<and> x < e \<longrightarrow> (\<exists>b \<in> set (a # as). covers b x \<and> fl \<subseteq> ar_flags b))"
      (is "_ = (\<forall>x. start \<le> x \<and> x < e \<longrightarrow> ?R x)")
    proof (intro iffI allI impI)
      fix x assume "\<forall>x. ar_end a \<le> x \<and> x < e \<longrightarrow> (\<exists>b \<in> set as. covers b x \<and> fl \<subseteq> ar_flags b)" "start \<le> x \<and> x < e"
      then show "?R x" using 5(1,3) by (cases "x < ar_end a") (auto simp: covers_def)
    next
      fix x assume *: "\<forall>x. start \<le> x \<and> x < e \<longrightarrow> ?R x" "ar_end a \<le> x \<and> x < e"
      have "start \<le> x \<and> x < e" using *(2) 5(2) by simp
      with *(1) have "?R x" by blast
      moreover have "\<not> covers a x" using *(2) by (simp add: covers_def)
      ultimately show "\<exists>b \<in> set as. covers b x \<and> fl \<subseteq> ar_flags b" by simp
    qed
    finally show ?thesis .
  qed
qed auto

section \<open>An instance of the parameters\<close>

text \<open>
  Exact address arithmetic, a page table that maps page numbers, an allocator that hands out the pages
  from 64 KiB on one after the other up to a limit, and a sorted list of areas.
\<close>

definition ex_va :: va_ops where
  "ex_va = \<lparr>align_down_4k = (\<lambda>x. x - x mod 4096), align_up_4k = (\<lambda>x. (x + 4095) - (x + 4095) mod 4096),
     align_offset_4k = (\<lambda>x. x mod 4096), is_aligned_4k = (\<lambda>x. x mod 4096 = 0),
     from_start_size = (\<lambda>b n. if b + n < 2 ^ 64 then Some (b, b + n) else None),
     contains_range = (\<lambda>r q. fst r \<le> fst q \<and> snd q \<le> snd r),
     contains_addr = (\<lambda>r x. fst r \<le> x \<and> x < snd r),
     range_overlaps = (\<lambda>r q. fst r < snd q \<and> fst q < snd r),
     page_iter_4k = (\<lambda>a b. if a mod 4096 = 0 \<and> b mod 4096 = 0
        then Some (map (\<lambda>k. a + 4096 * k) [0..<(b - a) div 4096]) else None)\<rparr>"

type_synonym ex_pt = "nat \<Rightarrow> (nat \<times> MappingFlags) option"

definition ex_query :: "ex_pt \<Rightarrow> nat \<Rightarrow> (PagingError, nat \<times> MappingFlags) result" where
  "ex_query p v = (case p (v div 4096) of None \<Rightarrow> Err NotMapped | Some (f, fl) \<Rightarrow> Ok (f + v mod 4096, fl))"

definition ex_pages :: "nat \<Rightarrow> nat \<Rightarrow> nat list" where
  "ex_pages v n = [v div 4096..<(v + n) div 4096]"

definition ex_pt_ops :: "ex_pt pt_ops" where
  "ex_pt_ops = \<lparr>pt_try_new = Some (\<lambda>_. None), pt_query = ex_query,
     pt_map = (\<lambda>v f fl p. if p (v div 4096) = None then (True, p(v div 4096 := Some (f - f mod 4096, fl))) else (False, p)),
     pt_unmap = (\<lambda>v p. (map_option (\<lambda>(f, _). (f, False)) (p (v div 4096)), p(v div 4096 := None))),
     pt_map_region = (\<lambda>v g n fl p.
        if v mod 4096 = 0 \<and> n mod 4096 = 0
        then (True, \<lambda>k. if k \<in> set (ex_pages v n) then Some (g (4096 * k), fl) else p k) else (False, p)),
     pt_unmap_region = (\<lambda>v n p. (True, \<lambda>k. if k \<in> set (ex_pages v n) then None else p k)),
     pt_protect_region = (\<lambda>v n fl p.
        (True, \<lambda>k. if k \<in> set (ex_pages v n) then map_option (\<lambda>(f, _). (f, fl)) (p k) else p k)),
     pt_copy_from = (\<lambda>q v n p k. if k \<in> set (ex_pages v n) then q k else p k),
     pt_clear_copy_range = (\<lambda>v n p k. if k \<in> set (ex_pages v n) then None else p k)\<rparr>"

definition ex_fa :: "nat \<Rightarrow> nat fa_ops" where
  "ex_fa limit = \<lparr>alloc_pages = (\<lambda>n. if n < limit then Some (65536 + 4096 * n, Suc n) else None),
     dealloc_pages = (\<lambda>v n. if v + 4096 = 65536 + 4096 * n then n - 1 else n)\<rparr>"

definition ex_used :: "nat \<Rightarrow> nat set" where
  "ex_used n = (\<lambda>k. 65536 + 4096 * k) ` {..<n}"

definition ex_cut :: "nat \<Rightarrow> nat \<Rightarrow> MemoryArea \<Rightarrow> MemoryArea list" where
  "ex_cut b e a =
     (if e \<le> ar_start a \<or> ar_end a \<le> b then [a]
      else (if ar_start a < b then [a\<lparr>ar_size := b - ar_start a\<rparr>] else []) @
           (if e < ar_end a then [a\<lparr>ar_start := e, ar_size := ar_end a - e\<rparr>] else []))"

fun ex_each :: "(Backend \<Rightarrow> nat \<Rightarrow> nat \<Rightarrow> 'm \<Rightarrow> bool option \<times> 'm) \<Rightarrow> nat \<Rightarrow> nat \<Rightarrow> MemoryArea list \<Rightarrow> 'm \<Rightarrow> bool option \<times> 'm" where
  "ex_each cb b e [] m = (Some True, m)"
| "ex_each cb b e (a # as) m =
     (if e \<le> ar_start a \<or> ar_end a \<le> b then ex_each cb b e as m
      else case cb (ar_backend a) (max b (ar_start a)) (min e (ar_end a) - max b (ar_start a)) m of
             (Some True, m1) \<Rightarrow> ex_each cb b e as m1
           | r \<Rightarrow> r)"

definition ex_result :: "'s \<Rightarrow> 's \<Rightarrow> bool option \<times> 'm \<Rightarrow> (MappingError, unit) result \<times> 's \<times> 'm" where
  "ex_result ms ms1 r =
     (case r of (Some True, m) \<Rightarrow> (Ok (), ms1, m) | (Some False, m) \<Rightarrow> (Err MapBadState, ms, m) | (None, m) \<Rightarrow> (Panic, ms, m))"

definition ex_ms :: "(MemoryArea list, 'm) ms_ops" where
  "ex_ms = \<lparr>ms_new = [], ms_iter = (\<lambda>ms. ms), ms_find = (\<lambda>ms x. find (\<lambda>a. covers a x) ms),
     ms_find_free_area = (\<lambda>ms hint n limit.
        let h = max hint (fst limit)
        in find (\<lambda>b. b + n \<le> snd limit \<and> (\<forall>a \<in> set ms. b + n \<le> ar_start a \<or> ar_end a \<le> b))
             (h # filter (\<lambda>e. h \<le> e) (map ar_end ms))),
     ms_map = (\<lambda>cb a ms m.
        if ar_size a = 0 then (Err InvalidParam, ms, m)
        else if \<exists>b \<in> set ms. ar_start a < ar_end b \<and> ar_start b < ar_end a then (Err MapAlreadyExists, ms, m)
        else ex_result ms (insort_key ar_start a ms) (cb (ar_backend a) (ar_start a) (ar_size a) (ar_flags a) m)),
     ms_unmap = (\<lambda>cb b n ms m. ex_result ms (concat (map (ex_cut b (b + n)) ms)) (ex_each cb b (b + n) ms m)),
     ms_protect = (\<lambda>cb b n fl ms m.
        ex_result ms
          (map (\<lambda>a. if b \<le> ar_start a \<and> ar_end a \<le> b + n then a\<lparr>ar_flags := fl\<rparr> else a) ms)
          (ex_each (\<lambda>be v k. cb be v k fl) b (b + n) ms m)),
     ms_clear = (\<lambda>cb ms m. ex_result ms [] (ex_each cb 0 (Max (set (0 # map ar_end ms))) ms m))\<rparr>"

definition ex_mm :: "nat \<Rightarrow> (MemoryArea list, ex_pt, nat) mm_env" where
  "ex_mm limit = \<lparr>VA = ex_va, PT = ex_pt_ops, FA = ex_fa limit, MS = ex_ms, PHYS_VIRT_OFFSET = 65536\<rparr>"

lemma ex_va_laws: "va_laws (VA (ex_mm limit))"
  by (simp add: va_laws_def ex_mm_def ex_va_def)

lemma ex_pt_laws: "pt_laws (PT (ex_mm limit))"
proof -
  have "\<not> (v \<le> w \<and> w < v + n) \<Longrightarrow> v mod 4096 = 0 \<Longrightarrow> n mod 4096 = 0 \<Longrightarrow> w div 4096 \<notin> set (ex_pages v n)" for v w n :: nat
  proof
    assume a: "\<not> (v \<le> w \<and> w < v + n)" "v mod 4096 = 0" "n mod 4096 = 0" "w div 4096 \<in> set (ex_pages v n)"
    then have b: "v div 4096 \<le> w div 4096" "w div 4096 < (v + n) div 4096" by (auto simp: ex_pages_def)
    have "v \<le> w" using a(2) b(1) less_mult_imp_div_less[of w "v div 4096" 4096] by (fastforce simp: div_mult_mod_eq[symmetric])
    moreover have "w < v + n" using b(2) div_le_mono[of "v + n" w 4096] by linarith
    ultimately show False using a(1) by simp
  qed
  then show ?thesis
    by (auto simp: pt_laws_def ex_mm_def ex_pt_ops_def ex_query_def split: if_splits)
qed

lemma ex_fa_laws: "fa_laws (FA (ex_mm limit)) (PHYS_VIRT_OFFSET (ex_mm limit)) ex_used"
  by (auto simp: fa_laws_def ex_mm_def ex_fa_def ex_used_def lessThan_Suc split: if_splits)

lemma ex_ms_laws: "ms_laws (MS (ex_mm limit))"
  by (auto simp: ms_laws_def ex_mm_def ex_ms_def ex_result_def find_Some_iff find_None_iff set_insort_key
      split: if_splits prod.splits option.splits bool.splits)

definition ex_as :: "(MemoryArea list, ex_pt, nat) AddrSpace" where
  "ex_as = \<lparr>va_range = (0, 1048576),
     areas = [\<lparr>ar_start = 4096, ar_size = 8192, ar_flags = {F_READ, F_WRITE, F_USER}, ar_backend = Alloc False\<rparr>,
              \<lparr>ar_start = 12288, ar_size = 4096, ar_flags = {F_READ, F_USER}, ar_backend = Alloc False\<rparr>],
     as_m = \<lparr>pt = (\<lambda>_. None), al = 0, mem = (\<lambda>_. 0)\<rparr>\<rparr>"

section \<open>The access check is exact\<close>

text \<open>
  On a set of disjoint areas in the order of their addresses, \<open>check_region_access\<close> accepts a
  non-empty range exactly when every single address of the range lies in an area that has all the flags
  asked for: no gap between areas and no area with fewer permissions is ever jumped over, and no range
  that is completely mapped is refused.\<close>

theorem check_region_access_exact:
  assumes "areas_ok (ms_iter (MS E) (areas s))" "fst r < snd r"
  shows "check_region_access E s r fl \<longleftrightarrow>
    (\<forall>x. fst r \<le> x \<and> x < snd r \<longrightarrow> (\<exists>a \<in> set (ms_iter (MS E) (areas s)). covers a x \<and> fl \<subseteq> ar_flags a))"
  using check_region_loop_iff[OF assms] by (simp add: check_region_access_def)

theorem check_region_access_exact_witness:
  "areas_ok (ms_iter (MS (ex_mm 4)) (areas ex_as)) \<and>
   check_region_access (ex_mm 4) ex_as (8000, 13000) {F_READ} \<and>
   \<not> check_region_access (ex_mm 4) ex_as (8000, 13000) {F_WRITE}"
proof -
  have ok: "areas_ok (ms_iter (MS (ex_mm 4)) (areas ex_as))"
    by (simp add: ex_mm_def ex_ms_def ex_as_def ar_end_def)
  note iff = check_region_access_exact[OF ok, of "(8000, 13000)", simplified fst_conv snd_conv, simplified]
  have "check_region_access (ex_mm 4) ex_as (8000, 13000) {F_READ}"
    unfolding iff by (auto simp: ex_mm_def ex_ms_def ex_as_def covers_def ar_end_def)
  moreover have "\<not> check_region_access (ex_mm 4) ex_as (8000, 13000) {F_WRITE}"
    unfolding iff by (auto simp: ex_mm_def ex_ms_def ex_as_def covers_def ar_end_def intro!: exI[of _ 12500])
  ultimately show ?thesis using ok by blast
qed

end
