(* ===== verification/AsCopy.thy ===== *)
theory AsCopy
  imports AddrSpace
begin

text \<open>
  Reading and writing the memory of an address space: what \<open>read\<close> and \<open>write\<close> of \<open>axmm/src/aspace.rs\<close>
  do to single bytes. \<open>byte_addr\<close> is the translation of one virtual address through the page table.
\<close>

section \<open>Bytes and pages\<close>

lemma va_lawsD:
  assumes "va_laws V"
  shows "align_down_4k V x = x - x mod 4096" "align_offset_4k V x = x mod 4096" "is_aligned_4k V x \<longleftrightarrow> x mod 4096 = 0"
    "x < 2 ^ 64 - 4096 \<Longrightarrow> align_up_4k V x = (x + 4095) - (x + 4095) mod 4096"
    "b + n < 2 ^ 64 \<Longrightarrow> from_start_size V b n = Some (b, b + n)"
    "\<not> b + n < 2 ^ 64 \<Longrightarrow> from_start_size V b n = None"
    "contains_range V r q \<longleftrightarrow> fst r \<le> fst q \<and> snd q \<le> snd r" "contains_addr V r x \<longleftrightarrow> fst r \<le> x \<and> x < snd r"
    "a mod 4096 = 0 \<Longrightarrow> c mod 4096 = 0 \<Longrightarrow> a \<le> c \<Longrightarrow>
      page_iter_4k V a c = Some (map (\<lambda>k. a + 4096 * k) [0..<(c - a) div 4096])"
  using assms unfolding va_laws_def by (auto simp only: if_True if_False)

definition byte_addr :: "('ms, 'pt, 'al) mm_env \<Rightarrow> 'pt \<Rightarrow> nat \<Rightarrow> nat" where
  "byte_addr E p v =
     (case pt_query (PT E) p (v - v mod 4096) of Ok (pa, _) \<Rightarrow> phys_to_virt E (pa + v mod 4096) | _ \<Rightarrow> 0)"

definition mapped :: "('ms, 'pt, 'al) mm_env \<Rightarrow> 'pt \<Rightarrow> nat \<Rightarrow> bool" where
  "mapped E p v \<longleftrightarrow> is_ok (pt_query (PT E) p (v - v mod 4096))"

text \<open>The single bytes that a call of the closure copies, as pairs of an address and an index of the buffer.\<close>

definition expand :: "nat \<times> nat \<times> nat \<Rightarrow> (nat \<times> nat) list" where
  "expand c = (case c of (addr, off, n) \<Rightarrow> map (\<lambda>j. (addr + j, off + j)) [0..<n])"

definition store_byte :: "u8 list \<Rightarrow> nat \<times> nat \<Rightarrow> (nat \<Rightarrow> u8) \<Rightarrow> nat \<Rightarrow> u8" where
  "store_byte buf c M = M(fst c := buf ! snd c)"

definition load_byte :: "(nat \<Rightarrow> u8) \<Rightarrow> nat \<times> nat \<Rightarrow> u8 list \<Rightarrow> u8 list" where
  "load_byte M c buf = buf[snd c := M (fst c)]"

lemma copy_in_bytes: "copy_in buf c M = fold (store_byte buf) (expand c) M"
proof -
  obtain addr off n where c: "c = (addr, off, n)" by (cases c)
  have "copy_in buf (addr, off, n) M = fold (store_byte buf) (map (\<lambda>j. (addr + j, off + j)) [0..<n]) M"
  proof (induction n)
    case (Suc n)
    have "copy_in buf (addr, off, Suc n) M = store_byte buf (addr + n, off + n) (copy_in buf (addr, off, n) M)"
      by (rule ext) (auto simp: copy_in_def store_byte_def)
    then show ?case using Suc by simp
  qed (auto simp: copy_in_def fun_eq_iff)
  then show ?thesis by (simp add: c expand_def)
qed

lemma copy_out_bytes:
  assumes "fst (snd c) + snd (snd c) \<le> length buf"
  shows "copy_out M c buf = fold (load_byte M) (expand c) buf"
proof -
  obtain addr off n where c: "c = (addr, off, n)" by (cases c)
  have "copy_out M (addr, off, n) buf = fold (load_byte M) (map (\<lambda>j. (addr + j, off + j)) [0..<n]) buf"
    if "off + n \<le> length buf" using that
  proof (induction n)
    case (Suc n)
    have "copy_out M (addr, off, Suc n) buf = load_byte M (addr + n, off + n) (copy_out M (addr, off, n) buf)"
      using Suc.prems
      by (auto simp: copy_out_def load_byte_def list_update_append Cons_nth_drop_Suc[symmetric])
    then show ?case using Suc by simp
  qed (simp add: copy_out_def)
  then show ?thesis using assms by (simp add: c expand_def)
qed

lemma fold_copy_in: "fold (copy_in buf) cs M = fold (store_byte buf) (concat (map expand cs)) M"
  by (induction cs arbitrary: M) (simp_all add: copy_in_bytes)

lemma length_load [simp]: "length (fold (load_byte M) xs buf) = length buf"
  by (induction xs arbitrary: buf) (simp_all add: load_byte_def)

lemma fold_copy_out:
  assumes "\<forall>c \<in> set cs. fst (snd c) + snd (snd c) \<le> length buf"
  shows "fold (copy_out M) cs buf = fold (load_byte M) (concat (map expand cs)) buf"
  using assms
proof (induction cs arbitrary: buf)
  case (Cons c cs)
  then have "copy_out M c buf = fold (load_byte M) (expand c) buf" by (simp add: copy_out_bytes)
  then show ?case using Cons.IH[of "fold (load_byte M) (expand c) buf"] Cons.prems by simp
qed simp

lemma store_bytes:
  assumes "inj_on f {..<m}"
  shows "fold (store_byte buf) (map (\<lambda>i. (f i, i)) [0..<m]) M =
    (\<lambda>x. if x \<in> f ` {..<m} then buf ! (the_inv_into {..<m} f x) else M x)"
  using assms
proof (induction m)
  case (Suc m)
  have inj: "inj_on f {..<m}" using Suc.prems by (rule inj_on_subset) auto
  have new: "f m \<notin> f ` {..<m}" using inj_onD[OF Suc.prems, of m] by fastforce
  have same: "the_inv_into {..<m} f x = the_inv_into {..<Suc m} f x" if "x \<in> f ` {..<m}" for x
    using that the_inv_into_f_f[OF inj] the_inv_into_f_f[OF Suc.prems] by auto
  have last: "the_inv_into {..<Suc m} f (f m) = m" using the_inv_into_f_f[OF Suc.prems, of m] by simp
  show ?case
    using Suc.IH[OF inj] new same last
    by (auto simp: store_byte_def lessThan_Suc fun_eq_iff)
qed simp

lemma load_bytes:
  assumes "m \<le> length buf"
  shows "fold (load_byte M) (map (\<lambda>i. (f i, i)) [0..<m]) buf = map (\<lambda>i. M (f i)) [0..<m] @ drop m buf"
  using assms
proof (induction m)
  case (Suc m)
  then show ?case
    by (simp add: load_byte_def list_update_append Cons_nth_drop_Suc[symmetric])
qed simp

section \<open>The chunks of a range\<close>

lemma page_of:
  fixes v0 k j :: nat
  assumes "v0 mod 4096 = 0" "j < 4096"
  shows "(v0 + 4096 * k + j) mod 4096 = j" "v0 + 4096 * k + j - (v0 + 4096 * k + j) mod 4096 = v0 + 4096 * k"
proof -
  show *: "(v0 + 4096 * k + j) mod 4096 = j"
    using assms by (metis add.commute mod_add_left_eq mod_less mod_mult_self2 add_0)
  then show "v0 + 4096 * k + j - (v0 + 4096 * k + j) mod 4096 = v0 + 4096 * k" by simp
qed

text \<open>One page: the bytes copied are exactly those of the range that lie in the page.\<close>

lemma expand_page:
  assumes o: "d < 4096" "v0 mod 4096 = 0" "start = v0 + d" and cnt: "cnt = min sz (4096 * k - d)" "cnt < sz"
    and q: "pt_query (PT E) p (v0 + 4096 * k) = Ok (pa, fl)"
    and off: "off = (if k = 0 then d else 0)" and n: "n = min (sz - cnt) (4096 - off)"
  shows "expand (phys_to_virt E (pa + off), cnt, n) = map (\<lambda>i. (byte_addr E p (start + i), i)) [cnt..<cnt + n]"
    and "cnt + n = min sz (4096 * Suc k - d)"
proof -
  have at: "start + cnt = v0 + 4096 * k + off" using o(1,3) cnt off by (cases k) auto
  have "byte_addr E p (start + (cnt + j)) = phys_to_virt E (pa + off) + j" if "j < n" for j
  proof -
    have j: "off + j < 4096" using that n off o(1) by (auto split: if_splits)
    have "start + (cnt + j) = v0 + 4096 * k + (off + j)" using at by simp
    then show ?thesis unfolding byte_addr_def by (simp only: page_of[OF o(2) j, of k]) (simp add: q phys_to_virt_def)
  qed
  then have "expand (phys_to_virt E (pa + off), cnt, n) = map (\<lambda>j. (byte_addr E p (start + (cnt + j)), cnt + j)) [0..<n]"
    by (simp add: expand_def)
  also have "\<dots> = map (\<lambda>i. (byte_addr E p (start + i), i)) (map (\<lambda>j. cnt + j) [0..<n])" by simp
  also have "map (\<lambda>j. cnt + j) [0..<n] = [cnt..<cnt + n]" by (rule nth_equalityI) auto
  finally show "expand (phys_to_virt E (pa + off), cnt, n) = map (\<lambda>i. (byte_addr E p (start + i), i)) [cnt..<cnt + n]" .
  have c: "cnt = 4096 * k - d" using cnt by linarith
  show "cnt + n = min sz (4096 * Suc k - d)"
  proof (cases "k = 0")
    case True
    then show ?thesis using o(1) c n off cnt(2) by simp
  next
    case False
    then have "d \<le> 4096 * k" using o(1) by linarith
    then show ?thesis using False c n off cnt(2) by simp
  qed
qed

lemma area_chunks_bytes:
  assumes va: "va_laws (VA E)" and d: "d < 4096" "v0 mod 4096 = 0" "start = v0 + d"
  shows "k \<le> n \<Longrightarrow> cnt = min sz (4096 * k - d) \<Longrightarrow>
    area_chunks E p start sz cnt (map (\<lambda>i. v0 + 4096 * i) [k..<n]) = (cs, r) \<Longrightarrow>
    \<exists>m. cnt \<le> m \<and> m \<le> sz \<and> concat (map expand cs) = map (\<lambda>i. (byte_addr E p (start + i), i)) [cnt..<m] \<and>
        (\<forall>c \<in> set cs. fst (snd c) + snd (snd c) \<le> sz) \<and> (\<forall>i. cnt \<le> i \<and> i < m \<longrightarrow> mapped E p (start + i)) \<and>
        (r = Ok () \<longrightarrow> min sz (4096 * n - d) \<le> m) \<and>
        ((\<forall>i \<in> {k..<n}. is_ok (pt_query (PT E) p (v0 + 4096 * i))) \<longrightarrow> r = Ok ())"
proof (induction "n - k" arbitrary: k cnt cs r)
  case 0
  then show ?case by (intro exI[of _ cnt]) (auto)
next
  case (Suc x)
  then have kn: "k < n" by simp
  then have up: "[k..<n] = k # [Suc k..<n]" by (simp add: upt_conv_Cons)
  have start: "align_down_4k (VA E) start = v0" "align_offset_4k (VA E) start = d"
    using va_lawsD(1,2)[OF va] d(3) page_of[OF d(2,1), of 0] by simp_all
  show ?case
  proof (cases "pt_query (PT E) p (v0 + 4096 * k)")
    case (Ok z)
    obtain pa fl where z: "z = (pa, fl)" by (cases z)
    note q = Ok[unfolded z]
    define off where "off = (if k = 0 then d else 0)"
    define w where "w = min (sz - cnt) (4096 - off)"
    show ?thesis
    proof (cases "cnt = sz")
      case True
      then have "cs = []" "r = Ok ()" using Suc.prems q up by (auto simp: Let_def)
      then show ?thesis using True by (intro exI[of _ cnt]) auto
    next
      case False
      then have lt: "cnt < sz" using Suc.prems(2) by simp
      note page = expand_page[OF d Suc.prems(2) lt q off_def w_def]
      have "area_chunks E p start sz cnt (map (\<lambda>i. v0 + 4096 * i) [k..<n]) =
        (let (cs1, r1) = area_chunks E p start sz (cnt + w) (map (\<lambda>i. v0 + 4096 * i) [Suc k..<n])
         in ((phys_to_virt E (pa + off), cnt, w) # cs1, r1))"
        unfolding up list.map area_chunks.simps q
        using lt by (cases "k = 0"; cases "d = 0") (simp_all add: start off_def w_def Let_def min.assoc)
      then obtain cs1 where rest: "area_chunks E p start sz (cnt + w) (map (\<lambda>i. v0 + 4096 * i) [Suc k..<n]) = (cs1, r)"
        and cs: "cs = (phys_to_virt E (pa + off), cnt, w) # cs1"
        using Suc.prems(3) by (auto split: prod.splits)
      have "x = n - Suc k" "Suc k \<le> n" using Suc.hyps(2) kn by simp_all
      from Suc.hyps(1)[OF this page(2) rest] obtain m
        where m: "cnt + w \<le> m" "m \<le> sz" "concat (map expand cs1) = map (\<lambda>i. (byte_addr E p (start + i), i)) [cnt + w..<m]"
          "\<forall>c \<in> set cs1. fst (snd c) + snd (snd c) \<le> sz" "\<forall>i. cnt + w \<le> i \<and> i < m \<longrightarrow> mapped E p (start + i)"
          "r = Ok () \<longrightarrow> min sz (4096 * n - d) \<le> m"
          "(\<forall>i \<in> {Suc k..<n}. is_ok (pt_query (PT E) p (v0 + 4096 * i))) \<longrightarrow> r = Ok ()"
        by auto
      have here: "mapped E p (start + i)" if "cnt \<le> i" "i < cnt + w" for i
      proof -
        have c: "cnt = 4096 * k - d" using Suc.prems(2) lt by linarith
        have at: "start + i = v0 + 4096 * k + (off + (i - cnt))"
          using that(1) d(1,3) c by (cases "k = 0") (simp_all add: off_def)
        have "off + (i - cnt) < 4096" using that d(1) by (auto simp: w_def off_def split: if_splits)
        then show ?thesis unfolding mapped_def at by (simp only: page_of(2)[OF d(2)]) (simp add: q)
      qed
      have "[cnt..<m] = [cnt..<cnt + w] @ [cnt + w..<m]" using upt_add_eq_append[of cnt "cnt + w" "m - (cnt + w)"] m(1) by simp
      then have "concat (map expand cs) = map (\<lambda>i. (byte_addr E p (start + i), i)) [cnt..<m]"
        using page(1) m(3) cs by simp
      moreover have "\<forall>c \<in> set cs. fst (snd c) + snd (snd c) \<le> sz" using m(4) cs lt by (auto simp: w_def)
      moreover have "\<forall>i. cnt \<le> i \<and> i < m \<longrightarrow> mapped E p (start + i)" using here m(5) not_le by blast
      ultimately show ?thesis using m(1,2,6,7) kn by (intro exI[of _ m]) auto
    qed
  next
    case (Err e)
    then have "cs = []" "r = Err BadAddress" using Suc.prems(3) up by auto
    then show ?thesis using Err kn Suc.prems(2) by (intro exI[of _ cnt]) (auto intro!: bexI[of _ k])
  next
    case Panic
    then have "cs = []" "r = Panic" using Suc.prems(3) up by auto
    then show ?thesis using Panic kn Suc.prems(2) by (intro exI[of _ cnt]) (auto intro!: bexI[of _ k])
  qed
qed

definition in_range :: "('ms, 'pt, 'al) AddrSpace \<Rightarrow> nat \<Rightarrow> nat \<Rightarrow> bool" where
  "in_range s start sz \<longleftrightarrow> fst (va_range s) \<le> start \<and> start + sz \<le> snd (va_range s)"

lemma pages_of_range:
  fixes start sz :: nat
  defines "d \<equiv> start mod 4096" and "n \<equiv> ((start + sz + 4095) - (start + sz + 4095) mod 4096 - (start - start mod 4096)) div 4096"
  shows "(start - d) mod 4096 = 0" "start - d \<le> (start + sz + 4095) - (start + sz + 4095) mod 4096"
    "((start + sz + 4095) - (start + sz + 4095) mod 4096) mod 4096 = 0" "d + sz \<le> 4096 * n" "4096 * n < d + sz + 4096"
proof -
  define a u where "a = start div 4096" and "u = (start + sz + 4095) div 4096"
  have v0: "start - d = 4096 * a" by (simp add: a_def d_def minus_mod_eq_mult_div)
  have U: "(start + sz + 4095) - (start + sz + 4095) mod 4096 = 4096 * u" by (simp add: u_def minus_mod_eq_mult_div)
  have au: "a \<le> u" unfolding a_def u_def by (rule div_le_mono) simp
  have st: "start = 4096 * a + d" by (simp add: a_def d_def)
  have uu: "4096 * u \<le> start + sz + 4095" "start + sz + 4095 < 4096 * u + 4096"
    unfolding u_def using mod_less_divisor[of 4096 "start + sz + 4095"] by (simp_all add: mult_div_mod_eq[symmetric] flip: minus_mod_eq_mult_div)
  have n: "4096 * n = 4096 * u - 4096 * a"
    unfolding n_def U using v0 d_def by (simp flip: diff_mult_distrib2)
  show "(start - d) mod 4096 = 0" "((start + sz + 4095) - (start + sz + 4095) mod 4096) mod 4096 = 0"
    by (simp_all only: v0 U mod_mult_self1_is_0)
  show "start - d \<le> (start + sz + 4095) - (start + sz + 4095) mod 4096" unfolding v0 U using au by simp
  show "d + sz \<le> 4096 * n" "4096 * n < d + sz + 4096" unfolding n using uu st au by linarith+
qed

lemma process_area_data_bytes:
  assumes va: "va_laws (VA E)" and sz: "start + sz < 2 ^ 64 - 4096" and run: "process_area_data E start sz s = (cs, r)"
  shows "\<exists>m \<le> sz. concat (map expand cs) = map (\<lambda>i. (byte_addr E (pt (as_m s)) (start + i), i)) [0..<m] \<and>
      (\<forall>c \<in> set cs. fst (snd c) + snd (snd c) \<le> sz) \<and> (\<forall>i < m. mapped E (pt (as_m s)) (start + i)) \<and>
      (r = Ok () \<longrightarrow> m = sz \<and> in_range s start sz) \<and>
      (0 < sz \<and> in_range s start sz \<and> (\<forall>i < sz. mapped E (pt (as_m s)) (start + i)) \<longrightarrow> r = Ok ())"
proof -
  let ?d = "start mod 4096"
  note pg = pages_of_range(1)[of start] pages_of_range(2-5)[of start sz]
  define n where "n = ((start + sz + 4095) - (start + sz + 4095) mod 4096 - (start - ?d)) div 4096"
  have cr: "as_contains_range E s start sz = Ok (in_range s start sz)"
    using sz by (simp add: as_contains_range_def va_lawsD[OF va] in_range_def)
  show ?thesis
  proof (cases "in_range s start sz")
    case False
    then have "cs = []" "r = Err InvalidInput" using run cr by (auto simp: process_area_data_def)
    then show ?thesis using False by auto
  next
    case True
    have iter: "page_iter_4k (VA E) (align_down_4k (VA E) start) (align_up_4k (VA E) (start + sz)) =
      Some (map (\<lambda>k. (start - ?d) + 4096 * k) [0..<n])"
      using va_lawsD(9)[OF va pg(1,3,2)] sz by (simp only: va_lawsD(1,4)[OF va] n_def)
    have ch: "area_chunks E (pt (as_m s)) start sz 0 (map (\<lambda>k. (start - ?d) + 4096 * k) [0..<n]) = (cs, r)"
      using run True cr iter by (simp add: process_area_data_def)
    have "?d < 4096" "start = (start - ?d) + ?d" by simp_all
    from area_chunks_bytes[OF va this(1) pg(1) this(2) _ _ ch] obtain m
      where m: "m \<le> sz" "concat (map expand cs) = map (\<lambda>i. (byte_addr E (pt (as_m s)) (start + i), i)) [0..<m]"
        "\<forall>c \<in> set cs. fst (snd c) + snd (snd c) \<le> sz" "\<forall>i. i < m \<longrightarrow> mapped E (pt (as_m s)) (start + i)"
        "r = Ok () \<longrightarrow> min sz (4096 * n - ?d) \<le> m"
        "(\<forall>i \<in> {0..<n}. is_ok (pt_query (PT E) (pt (as_m s)) ((start - ?d) + 4096 * i))) \<longrightarrow> r = Ok ()"
      by auto
    have page: "\<exists>i < sz. start + i - (start + i) mod 4096 = (start - ?d) + 4096 * k" if "k < n" "0 < sz" for k
    proof -
      have k: "4096 * k + 4096 \<le> 4096 * n" using that(1) by simp
      let ?i = "4096 * k - ?d" and ?j = "if k = 0 then ?d else 0"
      have "start + ?i = (start - ?d) + 4096 * k + ?j" by (cases "k = 0") (simp_all add: le_diff_conv)
      moreover have "?j < 4096" by simp
      moreover have "?i < sz" using k pg(5)[folded n_def] that(2) by (cases "k = 0") auto
      ultimately show ?thesis using page_of(2)[OF pg(1)] by metis
    qed
    have "r = Ok () \<longrightarrow> m = sz" using m(1,5) pg(4)[folded n_def] by auto
    moreover have "r = Ok ()" if "0 < sz" "\<forall>i < sz. mapped E (pt (as_m s)) (start + i)"
    proof -
      have "is_ok (pt_query (PT E) (pt (as_m s)) ((start - ?d) + 4096 * k))" if "k < n" for k
        using page[OF that \<open>0 < sz\<close>] \<open>\<forall>i < sz. _\<close> unfolding mapped_def by metis
      then show ?thesis using m(6) by simp
    qed
    ultimately show ?thesis using m(1-4) True by blast
  qed
qed

section \<open>Reading and writing\<close>

lemma as_write_bytes:
  assumes "va_laws (VA E)" "start + length buf < 2 ^ 64 - 4096"
    and inj: "inj_on (byte_addr E (pt (as_m s))) {start..<start + length buf}"
  shows "\<exists>m \<le> length buf. (\<forall>i < m. mapped E (pt (as_m s)) (start + i) \<and>
        mem (as_m (snd (as_write E start buf s))) (byte_addr E (pt (as_m s)) (start + i)) = buf ! i) \<and>
      (\<forall>x. x \<notin> byte_addr E (pt (as_m s)) ` {start..<start + m} \<longrightarrow>
        mem (as_m (snd (as_write E start buf s))) x = mem (as_m s) x) \<and>
      (fst (as_write E start buf s) = Ok () \<longrightarrow> m = length buf \<and> in_range s start (length buf)) \<and>
      (0 < length buf \<and> in_range s start (length buf) \<and> (\<forall>i < length buf. mapped E (pt (as_m s)) (start + i)) \<longrightarrow>
        fst (as_write E start buf s) = Ok ())"
proof -
  let ?f = "\<lambda>i. byte_addr E (pt (as_m s)) (start + i)"
  obtain cs r where run: "process_area_data E start (length buf) s = (cs, r)" by fastforce
  from process_area_data_bytes[OF assms(1,2) run] obtain m
    where m: "m \<le> length buf" "concat (map expand cs) = map (\<lambda>i. (?f i, i)) [0..<m]" "\<forall>i < m. mapped E (pt (as_m s)) (start + i)"
      "r = Ok () \<longrightarrow> m = length buf \<and> in_range s start (length buf)"
      "0 < length buf \<and> in_range s start (length buf) \<and> (\<forall>i < length buf. mapped E (pt (as_m s)) (start + i)) \<longrightarrow> r = Ok ()"
    by blast
  have inj': "inj_on ?f {..<m}"
  proof (rule inj_onI)
    fix i j assume "i \<in> {..<m}" "j \<in> {..<m}" "?f i = ?f j"
    then show "i = j" using inj_onD[OF inj, of "start + i" "start + j"] m(1) by simp
  qed
  have w: "as_write E start buf s = (r, s\<lparr>as_m := (as_m s)\<lparr>mem := fold (store_byte buf) (map (\<lambda>i. (?f i, i)) [0..<m]) (mem (as_m s))\<rparr>\<rparr>)"
    by (simp add: as_write_def run fold_copy_in m(2))
  have img: "?f ` {..<m} = byte_addr E (pt (as_m s)) ` {start..<start + m}"
  proof -
    have "{start..<start + m} = (\<lambda>i. start + i) ` {..<m}"
      using image_add_atLeastLessThan[of start 0 m] by (simp add: atLeast0LessThan add.commute)
    then show ?thesis by (simp add: image_image)
  qed
  have "mem (as_m (snd (as_write E start buf s))) (?f i) = buf ! i" if "i < m" for i
    using that the_inv_into_f_f[OF inj', of i] by (simp add: w store_bytes[OF inj'])
  moreover have "mem (as_m (snd (as_write E start buf s))) x = mem (as_m s) x"
    if "x \<notin> byte_addr E (pt (as_m s)) ` {start..<start + m}" for x
    using that by (simp add: w store_bytes[OF inj'] flip: img)
  moreover have "fst (as_write E start buf s) = r" by (simp add: w)
  ultimately show ?thesis using m(1,3,4,5) by blast
qed

lemma as_read_bytes:
  assumes "va_laws (VA E)" "start + length buf < 2 ^ 64 - 4096" "0 < length buf" "in_range s start (length buf)"
    "\<forall>i < length buf. mapped E (pt (as_m s)) (start + i)"
  shows "as_read E start buf s = (Ok (), map (\<lambda>i. mem (as_m s) (byte_addr E (pt (as_m s)) (start + i))) [0..<length buf])"
proof -
  obtain cs r where run: "process_area_data E start (length buf) s = (cs, r)" by fastforce
  from process_area_data_bytes[OF assms(1,2) run] assms(3-)
  have m: "concat (map expand cs) = map (\<lambda>i. (byte_addr E (pt (as_m s)) (start + i), i)) [0..<length buf]" "r = Ok ()"
    "\<forall>c \<in> set cs. fst (snd c) + snd (snd c) \<le> length buf"
    by blast+
  show ?thesis by (simp add: as_read_def run m(2) fold_copy_out[OF m(3)] m(1) load_bytes)
qed

lemma as_write_keeps: "snd (as_write E start buf s) = s\<lparr>as_m := (as_m s)\<lparr>mem := mem (as_m (snd (as_write E start buf s)))\<rparr>\<rparr>"
  by (simp add: as_write_def split: prod.splits)

lemma as_write_keeps_pt [simp]: "pt (as_m (snd (as_write E start buf s))) = pt (as_m s)"
  "va_range (snd (as_write E start buf s)) = va_range s"
  by (subst as_write_keeps, simp)+

text \<open>
  C9: When \<open>write\<close> stores a buffer in the memory of an address space whose pages of the range are mapped
  to different frames, then \<open>read\<close> of the same range returns exactly that buffer, over any number of pages and
  from any offset in the first one; every other byte of memory keeps its value, and nothing but
  memory changes.\<close>

theorem as_write_read:
  assumes "va_laws (VA E)" "start + length buf < 2 ^ 64 - 4096" "buf \<noteq> []"
    and "inj_on (byte_addr E (pt (as_m s))) {start..<start + length buf}"
    and "fst (as_write E start buf s) = Ok ()" and "length old = length buf"
  shows "as_read E start old (snd (as_write E start buf s)) = (Ok (), buf) \<and>
    (\<forall>x. x \<notin> byte_addr E (pt (as_m s)) ` {start..<start + length buf} \<longrightarrow>
       mem (as_m (snd (as_write E start buf s))) x = mem (as_m s) x) \<and>
    snd (as_write E start buf s) = s\<lparr>as_m := (as_m s)\<lparr>mem := mem (as_m (snd (as_write E start buf s)))\<rparr>\<rparr>"
proof -
  from as_write_bytes[OF assms(1,2,4)] assms(5)
  have w: "\<forall>i < length buf. mapped E (pt (as_m s)) (start + i) \<and>
      mem (as_m (snd (as_write E start buf s))) (byte_addr E (pt (as_m s)) (start + i)) = buf ! i"
    "\<forall>x. x \<notin> byte_addr E (pt (as_m s)) ` {start..<start + length buf} \<longrightarrow>
        mem (as_m (snd (as_write E start buf s))) x = mem (as_m s) x"
    "in_range s start (length buf)"
    by blast+
  have "as_read E start old (snd (as_write E start buf s)) =
    (Ok (), map (\<lambda>i. mem (as_m (snd (as_write E start buf s))) (byte_addr E (pt (as_m s)) (start + i))) [0..<length buf])"
    using as_read_bytes[OF assms(1), of start old "snd (as_write E start buf s)"] assms(2,3,6) w(1,3)
    by (simp add: in_range_def)
  also have "map (\<lambda>i. mem (as_m (snd (as_write E start buf s))) (byte_addr E (pt (as_m s)) (start + i))) [0..<length buf] = buf"
    using w(1) by (intro nth_equalityI) simp_all
  finally show ?thesis using w(2) as_write_keeps[of E start buf s] by blast
qed

text \<open>
  \<open>write\<close> succeeds exactly when the range lies in the address space and every byte of it is in a mapped
  page. Otherwise it fails after it has stored some beginning of the buffer, all of it in mapped pages; in
  no case does it change a byte outside the range.\<close>

theorem as_write_outcome:
  assumes "va_laws (VA E)" "start + length buf < 2 ^ 64 - 4096" "buf \<noteq> []"
    and "inj_on (byte_addr E (pt (as_m s))) {start..<start + length buf}"
  shows "(fst (as_write E start buf s) = Ok () \<longleftrightarrow>
      in_range s start (length buf) \<and> (\<forall>i < length buf. mapped E (pt (as_m s)) (start + i))) \<and>
    (\<exists>m \<le> length buf. (\<forall>i < m. mapped E (pt (as_m s)) (start + i) \<and>
        mem (as_m (snd (as_write E start buf s))) (byte_addr E (pt (as_m s)) (start + i)) = buf ! i) \<and>
      (\<forall>x. x \<notin> byte_addr E (pt (as_m s)) ` {start..<start + m} \<longrightarrow>
        mem (as_m (snd (as_write E start buf s))) x = mem (as_m s) x))"
  using as_write_bytes[OF assms(1,2,4)] assms(3) length_greater_0_conv[of buf] by blast

section \<open>Two pages in the instance\<close>

definition ex_as2 :: "(MemoryArea list, ex_pt, nat) AddrSpace" where
  "ex_as2 = ex_as\<lparr>as_m := \<lparr>pt = [1 \<mapsto> (4096, {F_READ, F_WRITE, F_USER}), 2 \<mapsto> (0, {F_READ, F_WRITE, F_USER})],
     al = 2, mem = (\<lambda>_. 0)\<rparr>\<rparr>"

lemma ex_as2_facts:
  "fst (as_write (ex_mm 4) 8190 [1, 2, 3, 4] ex_as2) = Ok ()"
  "inj_on (byte_addr (ex_mm 4) (pt (as_m ex_as2))) {8190..<8194}"
  "\<not> mapped (ex_mm 4) (pt (as_m ex_as2)) 12289"
proof -
  show "fst (as_write (ex_mm 4) 8190 [1, 2, 3, 4] ex_as2) = Ok ()"
    by (simp add: as_write_def process_area_data_def as_contains_range_def ex_mm_def ex_va_def ex_as2_def ex_as_def
        ex_pt_ops_def ex_query_def upt_rec Let_def)
  have "{8190..<8194::nat} = {8190, 8191, 8192, 8193}" by auto
  then show "inj_on (byte_addr (ex_mm 4) (pt (as_m ex_as2))) {8190..<8194}"
    by (simp add: byte_addr_def ex_mm_def ex_as2_def ex_pt_ops_def ex_query_def phys_to_virt_def)
  show "\<not> mapped (ex_mm 4) (pt (as_m ex_as2)) 12289"
    by (simp add: mapped_def ex_mm_def ex_as2_def ex_pt_ops_def ex_query_def)
qed

theorem as_write_read_witness:
  "as_read (ex_mm 4) 8190 [0, 0, 0, 0] (snd (as_write (ex_mm 4) 8190 [1, 2, 3, 4] ex_as2)) = (Ok (), [1, 2, 3, 4])"
  using as_write_read[OF ex_va_laws, of 8190 "[1, 2, 3, 4]" 4 ex_as2 "[0, 0, 0, 0]"] ex_as2_facts by simp

theorem as_write_outcome_witness:
  "fst (as_write (ex_mm 4) 8190 [1, 2, 3, 4] ex_as2) = Ok () \<and>
   (\<exists>m \<le> 4. \<forall>i < m. mapped (ex_mm 4) (pt (as_m ex_as2)) (8190 + i))"
  using as_write_outcome[OF ex_va_laws, of 8190 "[1, 2, 3, 4]" 4 ex_as2] ex_as2_facts by auto

end
