(* ===== verification/Fork.thy ===== *)
theory Fork
  imports AsCopy
begin

text \<open>
  Copying an address space (\<open>clone_or_err\<close> of \<open>axmm/src/aspace.rs\<close>), which is how \<open>fork\<close> gives the
  child its memory: the child has the same areas, its pages hold the same bytes in frames of their own,
  and the memory of the parent does not change.
\<close>

section \<open>Setting\<close>

definition mm_laws :: "('ms, 'pt, 'al) mm_env \<Rightarrow> ('al \<Rightarrow> nat set) \<Rightarrow> bool" where
  "mm_laws E used \<longleftrightarrow> va_laws (VA E) \<and> pt_laws (PT E) \<and> fa_laws (FA E) (PHYS_VIRT_OFFSET E) used \<and> ms_laws (MS E)"

fun is_alloc :: "Backend \<Rightarrow> bool" where
  "is_alloc (Alloc _) = True"
| "is_alloc (Linear _) = False"

text \<open>The pages that are backed by allocated frames.\<close>

definition alloc_page :: "MemoryArea set \<Rightarrow> nat \<Rightarrow> bool" where
  "alloc_page A v \<longleftrightarrow> v mod 4096 = 0 \<and> (\<exists>a \<in> A. is_alloc (ar_backend a) \<and> covers a v)"

definition area_aligned :: "MemoryArea \<Rightarrow> bool" where
  "area_aligned a \<longleftrightarrow> ar_start a mod 4096 = 0 \<and> ar_size a mod 4096 = 0"

text \<open>
  The invariant of the copy: \<open>m0\<close> is the machine of the parent before, \<open>m\<close> that of the child now and \<open>D\<close> the
  pages copied so far.
\<close>

definition fork_inv ::
  "('ms, 'pt, 'al) mm_env \<Rightarrow> ('al \<Rightarrow> nat set) \<Rightarrow> ('pt, 'al) mach \<Rightarrow> MemoryArea set \<Rightarrow> nat set \<Rightarrow> ('pt, 'al) mach \<Rightarrow> bool" where
  "fork_inv E used m0 A D m \<longleftrightarrow>
     used (al m0) \<subseteq> used (al m) \<and>
     (\<forall>f \<in> used (al m0). \<forall>j < 4096. mem m (f + j) = mem m0 (f + j)) \<and>
     (\<forall>v pa fl. alloc_page A v \<longrightarrow> pt_query (PT E) (pt m) v = Ok (pa, fl) \<longrightarrow>
        phys_to_virt E pa \<in> used (al m) - used (al m0)) \<and>
     (\<forall>v w pa fl fl'. alloc_page A v \<longrightarrow> alloc_page A w \<longrightarrow> pt_query (PT E) (pt m) v = Ok (pa, fl) \<longrightarrow>
        pt_query (PT E) (pt m) w = Ok (pa, fl') \<longrightarrow> v = w) \<and>
     (\<forall>v \<in> D. \<forall>pa fl. pt_query (PT E) (pt m0) v = Ok (pa, fl) \<longrightarrow>
        (\<exists>pa' fl'. pt_query (PT E) (pt m) v = Ok (pa', fl') \<and>
           (\<forall>j < 4096. mem m (phys_to_virt E pa' + j) = mem m0 (phys_to_virt E pa + j))))"

lemma page_disjoint:
  fixes f g :: nat
  assumes "f mod 4096 = 0" "g mod 4096 = 0" "f \<noteq> g" "j < 4096"
  shows "\<not> (f \<le> g + j \<and> g + j < f + 4096)"
proof
  assume a: "f \<le> g + j \<and> g + j < f + 4096"
  obtain x y where "f = 4096 * x" "g = 4096 * y" using assms(1,2) by (auto simp: mod_eq_0_iff_dvd dvd_def)
  then show False using a assms(3,4) by (cases x y rule: linorder_cases) auto
qed

lemma alloc_page_div: "alloc_page A v \<Longrightarrow> alloc_page A w \<Longrightarrow> w div 4096 = v div 4096 \<longleftrightarrow> w = v"
  unfolding alloc_page_def by (metis mult_div_mod_eq)

lemma fa_used_aligned: "fa_laws F off used \<Longrightarrow> f \<in> used a \<Longrightarrow> f mod 4096 = 0"
  unfolding fa_laws_def by blast

section \<open>Steps of the copy\<close>

lemma fork_inv_D: "fork_inv E used m0 A D m \<Longrightarrow> D' \<subseteq> D \<Longrightarrow> fork_inv E used m0 A D' m"
  unfolding fork_inv_def by (simp add: subset_iff)

lemma alloc_frame_fresh:
  assumes "fa_laws (FA E) (PHYS_VIRT_OFFSET E) used" "alloc_frame E True m = (Some f, m1)"
  shows "f mod 4096 = 0" "phys_to_virt E f \<notin> used (al m)" "used (al m1) = insert (phys_to_virt E f) (used (al m))"
    "mem m1 = write_zero (phys_to_virt E f) (mem m)" "pt m1 = pt m"
proof -
  from assms(2) obtain v a where v: "alloc_pages (FA E) (al m) = Some (v, a)" "f = virt_to_phys E v"
    "m1 = m\<lparr>al := a, mem := write_zero v (mem m)\<rparr>"
    by (auto simp: alloc_frame_def Let_def split: option.splits)
  with assms(1) have l: "v mod 4096 = 0" "PHYS_VIRT_OFFSET E \<le> v" "v \<notin> used (al m)" "used a = insert v (used (al m))"
    "PHYS_VIRT_OFFSET E mod 4096 = 0"
    unfolding fa_laws_def by blast+
  then have p: "phys_to_virt E f = v" using v(2) by (simp add: phys_to_virt_def virt_to_phys_def)
  show "f mod 4096 = 0" using l v(2) by (metis virt_to_phys_def mod_0_imp_dvd dvd_diff_nat dvd_imp_mod_0)
  show "phys_to_virt E f \<notin> used (al m)" "used (al m1) = insert (phys_to_virt E f) (used (al m))"
    "mem m1 = write_zero (phys_to_virt E f) (mem m)" "pt m1 = pt m"
    using l v p by simp_all
qed

lemma pt_map_query:
  assumes "pt_laws P" "pt_map P v f fl p = (True, p')" "f mod 4096 = 0"
  shows "pt_query P p' w = (if w div 4096 = v div 4096 then Ok (f + w mod 4096, fl) else pt_query P p w)"
  using assms unfolding pt_laws_def by metis

text \<open>A fresh frame for a page that is not copied yet.\<close>

lemma fork_inv_map_page:
  assumes inv: "fork_inv E used m0 A D m" and laws: "mm_laws E used" and v: "alloc_page A v" "v \<notin> D"
    and D: "\<forall>w \<in> D. alloc_page A w"
    and fr: "alloc_frame E True m = (Some f, m1)" and map: "pt_map (PT E) v f fl (pt m1) = (True, p')"
  shows "fork_inv E used m0 A D (m1\<lparr>pt := p'\<rparr>)"
proof -
  have fa: "fa_laws (FA E) (PHYS_VIRT_OFFSET E) used" and pl: "pt_laws (PT E)" using laws by (simp_all add: mm_laws_def)
  let ?g = "phys_to_virt E f"
  note new = alloc_frame_fresh[OF fa fr]
  have q: "pt_query (PT E) p' w = (if w = v then Ok (f, fl) else pt_query (PT E) (pt m) w)" if "alloc_page A w" for w
    using pt_map_query[OF pl map new(1), of w] alloc_page_div[OF v(1) that] that new(5) by (auto simp: alloc_page_def)
  have galigned: "?g mod 4096 = 0" using fa_used_aligned[OF fa, of ?g "al m1"] new(3) by simp
  have keep: "mem m1 (h + j) = mem m (h + j)" if "h \<in> used (al m)" "j < 4096" for h j
  proof -
    have "h \<noteq> ?g" using that(1) new(2) by blast
    then have "\<not> (?g \<le> h + j \<and> h + j < ?g + 4096)"
      using page_disjoint[OF galigned fa_used_aligned[OF fa that(1)] _ that(2)] by blast
    then show ?thesis by (auto simp: new(4) write_zero_def)
  qed
  have I: "used (al m0) \<subseteq> used (al m)" "\<And>h j. h \<in> used (al m0) \<Longrightarrow> j < 4096 \<Longrightarrow> mem m (h + j) = mem m0 (h + j)"
    "\<And>w pa fl. alloc_page A w \<Longrightarrow> pt_query (PT E) (pt m) w = Ok (pa, fl) \<Longrightarrow> phys_to_virt E pa \<in> used (al m) - used (al m0)"
    "\<And>v w pa fl fl'. alloc_page A v \<Longrightarrow> alloc_page A w \<Longrightarrow> pt_query (PT E) (pt m) v = Ok (pa, fl) \<Longrightarrow>
        pt_query (PT E) (pt m) w = Ok (pa, fl') \<Longrightarrow> v = w"
    "\<And>w pa fl. w \<in> D \<Longrightarrow> pt_query (PT E) (pt m0) w = Ok (pa, fl) \<Longrightarrow>
        \<exists>pa' fl'. pt_query (PT E) (pt m) w = Ok (pa', fl') \<and>
           (\<forall>j < 4096. mem m (phys_to_virt E pa' + j) = mem m0 (phys_to_virt E pa + j))"
    using inv unfolding fork_inv_def by blast+
  have old: "w \<noteq> v \<Longrightarrow> pa \<noteq> f" if "alloc_page A w" "pt_query (PT E) (pt m) w = Ok (pa, fl')" for w pa fl'
    using I(3)[OF that] new(2) by auto
  show ?thesis unfolding fork_inv_def
  proof (intro conjI ballI allI impI)
    show "used (al m0) \<subseteq> used (al (m1\<lparr>pt := p'\<rparr>))" using I(1) new(3) by auto
  next
    fix h j assume "h \<in> used (al m0)" "j < (4096::nat)"
    then show "mem (m1\<lparr>pt := p'\<rparr>) (h + j) = mem m0 (h + j)" using keep I(1,2) by auto
  next
    fix w pa fl' assume "alloc_page A w" "pt_query (PT E) (pt (m1\<lparr>pt := p'\<rparr>)) w = Ok (pa, fl')"
    then show "phys_to_virt E pa \<in> used (al (m1\<lparr>pt := p'\<rparr>)) - used (al m0)"
      using q[of w] I(1) I(3)[of w pa fl'] new(2,3) by (cases "w = v") auto
  next
    fix x w pa fl' fl'' assume "alloc_page A x" "alloc_page A w" "pt_query (PT E) (pt (m1\<lparr>pt := p'\<rparr>)) x = Ok (pa, fl')"
      "pt_query (PT E) (pt (m1\<lparr>pt := p'\<rparr>)) w = Ok (pa, fl'')"
    then show "x = w" using q[of w] q[of x] I(4)[of x w pa] old[of x] old[of w] by (cases "w = v"; cases "x = v") auto
  next
    fix w pa fl' assume w: "w \<in> D" "pt_query (PT E) (pt m0) w = Ok (pa, fl')"
    from I(5)[OF this] obtain pa' fl2 where c: "pt_query (PT E) (pt m) w = Ok (pa', fl2)"
      "\<forall>j < 4096. mem m (phys_to_virt E pa' + j) = mem m0 (phys_to_virt E pa + j)" by blast
    have "alloc_page A w" "w \<noteq> v" using D w(1) v(2) by auto
    then show "\<exists>pa' fl'. pt_query (PT E) (pt (m1\<lparr>pt := p'\<rparr>)) w = Ok (pa', fl') \<and>
       (\<forall>j < 4096. mem (m1\<lparr>pt := p'\<rparr>) (phys_to_virt E pa' + j) = mem m0 (phys_to_virt E pa + j))"
      using q[of w] c keep I(3)[OF _ c(1)] by auto
  qed
qed

text \<open>Copying the contents of a page.\<close>

lemma fork_inv_copy_page:
  assumes inv: "fork_inv E used m0 A D m" and laws: "mm_laws E used" and v: "alloc_page A v"
    and D: "\<forall>w \<in> D. alloc_page A w"
    and old: "pt_query (PT E) (pt m0) v = Ok (pa, fl)" "phys_to_virt E pa \<in> used (al m0)"
    and new: "pt_query (PT E) (pt m) v = Ok (pa', fl')"
  shows "fork_inv E used m0 A (insert v D) (m\<lparr>mem := copy_page (phys_to_virt E pa) (phys_to_virt E pa') (mem m)\<rparr>)"
proof -
  have fa: "fa_laws (FA E) (PHYS_VIRT_OFFSET E) used" using laws by (simp add: mm_laws_def)
  let ?g = "phys_to_virt E pa'" and ?M = "copy_page (phys_to_virt E pa) (phys_to_virt E pa') (mem m)"
  have I: "used (al m0) \<subseteq> used (al m)" "\<And>h j. h \<in> used (al m0) \<Longrightarrow> j < 4096 \<Longrightarrow> mem m (h + j) = mem m0 (h + j)"
    "\<And>w pa fl. alloc_page A w \<Longrightarrow> pt_query (PT E) (pt m) w = Ok (pa, fl) \<Longrightarrow> phys_to_virt E pa \<in> used (al m) - used (al m0)"
    "\<And>v w pa fl fl'. alloc_page A v \<Longrightarrow> alloc_page A w \<Longrightarrow> pt_query (PT E) (pt m) v = Ok (pa, fl) \<Longrightarrow>
        pt_query (PT E) (pt m) w = Ok (pa, fl') \<Longrightarrow> v = w"
    "\<And>w pa fl. w \<in> D \<Longrightarrow> pt_query (PT E) (pt m0) w = Ok (pa, fl) \<Longrightarrow>
        \<exists>pa' fl'. pt_query (PT E) (pt m) w = Ok (pa', fl') \<and>
           (\<forall>j < 4096. mem m (phys_to_virt E pa' + j) = mem m0 (phys_to_virt E pa + j))"
    using inv unfolding fork_inv_def by blast+
  have g: "?g \<in> used (al m)" "?g \<notin> used (al m0)" using I(3)[OF v new] by auto
  have keep: "?M (h + j) = mem m (h + j)" if "h \<in> used (al m)" "h \<noteq> ?g" "j < 4096" for h j
    using page_disjoint[OF fa_used_aligned[OF fa g(1)] fa_used_aligned[OF fa that(1)] that(2)[symmetric] that(3)]
    by (auto simp: copy_page_def)
  have here: "?M (?g + j) = mem m0 (phys_to_virt E pa + j)" if "j < 4096" for j
    using that I(2)[OF old(2) that] by (simp add: copy_page_def)
  show ?thesis unfolding fork_inv_def
  proof (intro conjI ballI allI impI)
    fix h j assume h: "h \<in> used (al m0)" "j < (4096::nat)"
    then have "h \<noteq> ?g" using g(2) by auto
    then show "mem (m\<lparr>mem := ?M\<rparr>) (h + j) = mem m0 (h + j)" using keep[of h j] h I(1,2) by auto
  next
    fix w pb fl1 assume w: "w \<in> insert v D" "pt_query (PT E) (pt m0) w = Ok (pb, fl1)"
    show "\<exists>pa' fl'. pt_query (PT E) (pt (m\<lparr>mem := ?M\<rparr>)) w = Ok (pa', fl') \<and>
       (\<forall>j < 4096. mem (m\<lparr>mem := ?M\<rparr>) (phys_to_virt E pa' + j) = mem m0 (phys_to_virt E pb + j))"
    proof (cases "w = v")
      case True
      then show ?thesis using w(2) old(1) new here by auto
    next
      case False
      with w have wD: "w \<in> D" by simp
      from I(5)[OF wD w(2)] obtain pc fl2 where c: "pt_query (PT E) (pt m) w = Ok (pc, fl2)"
        "\<forall>j < 4096. mem m (phys_to_virt E pc + j) = mem m0 (phys_to_virt E pb + j)" by blast
      have "alloc_page A w" using D wD by simp
      moreover have "phys_to_virt E pc \<noteq> ?g"
        using I(4)[OF calculation v _ new, of fl2] c(1) False by (auto simp: phys_to_virt_def)
      ultimately show ?thesis using c keep I(3)[OF _ c(1)] by auto
    qed
  qed (use I in auto)
qed

lemma fork_inv_skip:
  assumes "fork_inv E used m0 A D m" "\<And>z. pt_query (PT E) (pt m0) v \<noteq> Ok z"
  shows "fork_inv E used m0 A (insert v D) m"
  using assms unfolding fork_inv_def by auto

section \<open>The loops\<close>

lemma map_alloc_pages_inv:
  assumes laws: "mm_laws E used" and D: "\<forall>w \<in> D. alloc_page A w"
  shows "map_alloc_pages E fl vs m = (True, m') \<Longrightarrow> fork_inv E used m0 A D m \<Longrightarrow>
    \<forall>v \<in> set vs. alloc_page A v \<and> v \<notin> D \<Longrightarrow> fork_inv E used m0 A D m'"
proof (induction vs arbitrary: m)
  case (Cons v vs)
  obtain fr m1 where fr: "alloc_frame E True m = (fr, m1)" by fastforce
  show ?case
  proof (cases fr)
    case None
    then have "m1 = m" using fr by (auto simp: alloc_frame_def Let_def split: option.splits)
    then show ?thesis using Cons None fr by simp
  next
    case (Some f)
    obtain ok p' where map: "pt_map (PT E) v f fl (pt m1) = (ok, p')" by fastforce
    with Cons.prems(1) fr Some have ok: "ok" "map_alloc_pages E fl vs (m1\<lparr>pt := p'\<rparr>) = (True, m')"
      by (auto split: if_splits)
    have "fork_inv E used m0 A D (m1\<lparr>pt := p'\<rparr>)"
      by (rule fork_inv_map_page[OF Cons.prems(2) laws _ _ D]) (use fr Some map ok(1) Cons.prems(3) in auto)
    then show ?thesis using Cons.IH[OF ok(2)] Cons.prems(3) by simp
  qed
qed simp

definition frames_used :: "('ms, 'pt, 'al) mm_env \<Rightarrow> ('al \<Rightarrow> nat set) \<Rightarrow> ('pt, 'al) mach \<Rightarrow> MemoryArea set \<Rightarrow> bool" where
  "frames_used E used m A \<longleftrightarrow>
     (\<forall>v pa fl. alloc_page A v \<longrightarrow> pt_query (PT E) (pt m) v = Ok (pa, fl) \<longrightarrow> phys_to_virt E pa \<in> used (al m))"

lemma clone_pages_inv:
  assumes laws: "mm_laws E used" and own: "frames_used E used m0 A"
  shows "clone_pages E (pt m0) area vs m = (Ok (), m') \<Longrightarrow> fork_inv E used m0 A D m \<Longrightarrow>
    \<forall>w \<in> D. alloc_page A w \<Longrightarrow> \<forall>v \<in> set vs. alloc_page A v \<Longrightarrow> fork_inv E used m0 A (D \<union> set vs) m'"
proof (induction vs arbitrary: m D)
  case (Cons v vs)
  have v: "alloc_page A v" using Cons.prems(4) by simp
  have next_page: "fork_inv E used m0 A (D \<union> set (v # vs)) m'"
    if "clone_pages E (pt m0) area vs m1 = (Ok (), m')" "fork_inv E used m0 A (insert v D) m1" for m1
    using Cons.IH[OF that] Cons.prems(3,4) v by simp
  show ?case
  proof (cases "pt_query (PT E) (pt m0) v")
    case (Ok z)
    obtain pa fl where z: "z = (pa, fl)" by (cases z)
    note old = Ok[unfolded z]
    have u: "phys_to_virt E pa \<in> used (al m0)" using own v old unfolding frames_used_def by blast
    have copy: "fork_inv E used m0 A (D \<union> set (v # vs)) m'"
      if "clone_pages E (pt m0) area vs (m1\<lparr>mem := copy_page (phys_to_virt E pa) (phys_to_virt E pb) (mem m1)\<rparr>) = (Ok (), m')"
        "fork_inv E used m0 A D m1" "pt_query (PT E) (pt m1) v = Ok (pb, fl')" for m1 pb fl'
      using next_page[OF that(1)] fork_inv_copy_page[OF that(2) laws v Cons.prems(3) old u that(3)] by simp
    show ?thesis
    proof (cases "pt_query (PT E) (pt m) v")
      case (Ok y)
      obtain pb fl' where y: "y = (pb, fl')" by (cases y)
      show ?thesis by (rule copy[OF _ Cons.prems(2) Ok[unfolded y]]) (use Cons.prems(1) old Ok y in \<open>simp add: Let_def\<close>)
    next
      case (Err e)
      with Cons.prems(1) old have e: "e = NotMapped" by (cases e) (auto simp: Let_def)
      obtain ok m1 where pf: "backend_handle_page_fault E (ar_backend area) v (ar_flags area) m = (ok, m1)" by fastforce
      with Cons.prems(1) old Err e obtain pb fl' where pb: "ok" "pt_query (PT E) (pt m1) v = Ok (pb, fl')"
        "clone_pages E (pt m0) area vs (m1\<lparr>mem := copy_page (phys_to_virt E pa) (phys_to_virt E pb) (mem m1)\<rparr>) = (Ok (), m')"
        by (auto simp: Let_def split: bool.splits result.splits prod.splits)
      obtain f m2 p' where al: "alloc_frame E True m = (Some f, m2)"
        "pt_map (PT E) v f (ar_flags area) (pt m2) = (True, p')" "m1 = m2\<lparr>pt := p'\<rparr>"
        using pf pb(1) by (cases "ar_backend area")
          (auto simp: handle_page_fault_alloc_def Let_def split: if_splits prod.splits option.splits)
      have "v \<notin> D"
      proof
        assume "v \<in> D"
        then show False using Cons.prems(2) old Err unfolding fork_inv_def by fastforce
      qed
      then have "fork_inv E used m0 A D m1"
        using fork_inv_map_page[OF Cons.prems(2) laws v _ Cons.prems(3) al(1,2)] al(3) by simp
      then show ?thesis using copy[OF pb(3) _ pb(2)] by simp
    next
      case Panic
      then show ?thesis using Cons.prems(1) old by (simp add: Let_def)
    qed
  next
    case (Err e)
    with Cons.prems(1) have "clone_pages E (pt m0) area vs m = (Ok (), m')" by (cases e) auto
    moreover have "fork_inv E used m0 A (insert v D) m" by (rule fork_inv_skip[OF Cons.prems(2)]) (simp add: Err)
    ultimately show ?thesis by (rule next_page)
  next
    case Panic
    then show ?thesis using Cons.prems(1) by simp
  qed
qed simp

lemma page_iter_set:
  assumes "va_laws V" "a mod 4096 = 0" "c mod 4096 = 0" "a \<le> c"
  obtains pages where "page_iter_4k V a c = Some pages" "set pages = {v. v mod 4096 = 0 \<and> a \<le> v \<and> v < c}"
proof -
  obtain x y where xy: "a = 4096 * x" "c = 4096 * y" using assms(2,3) by (auto simp: mod_eq_0_iff_dvd dvd_def)
  have "set (map (\<lambda>k. 4096 * x + 4096 * k) [0..<y - x]) = {v. v mod 4096 = 0 \<and> 4096 * x \<le> v \<and> v < 4096 * y}"
  proof (intro set_eqI iffI)
    fix v assume "v \<in> set (map (\<lambda>k. 4096 * x + 4096 * k) [0..<y - x])"
    then show "v \<in> {v. v mod 4096 = 0 \<and> 4096 * x \<le> v \<and> v < 4096 * y}" by auto
  next
    fix v assume v: "v \<in> {v. v mod 4096 = 0 \<and> 4096 * x \<le> v \<and> v < 4096 * y}"
    then obtain z where z: "v = 4096 * z" by (auto simp: mod_eq_0_iff_dvd dvd_def)
    then have "v = 4096 * x + 4096 * (z - x)" "z - x < y - x" using v by auto
    then show "v \<in> set (map (\<lambda>k. 4096 * x + 4096 * k) [0..<y - x])" by (auto simp: image_iff)
  qed
  moreover have "(c - a) div 4096 = y - x" unfolding xy by (simp flip: diff_mult_distrib2)
  ultimately show ?thesis using that va_lawsD(9)[OF assms] by (simp add: xy)
qed

lemma area_pages:
  assumes "va_laws (VA E)" "area_aligned a"
  obtains pages where "page_iter_4k (VA E) (ar_start a) (ar_end a) = Some pages" "set pages = {v. v mod 4096 = 0 \<and> covers a v}"
proof -
  have "ar_start a mod 4096 = 0" "ar_end a mod 4096 = 0" "ar_start a \<le> ar_end a"
    using assms(2) by (simp_all add: area_aligned_def ar_end_def mod_add_eq[symmetric])
  from page_iter_set[OF assms(1) this] show ?thesis using that unfolding covers_def by blast
qed

lemma areas_ok_append:
  "areas_ok (xs @ ys) \<longleftrightarrow> areas_ok xs \<and> areas_ok ys \<and> (\<forall>a \<in> set xs. \<forall>b \<in> set ys. ar_end a \<le> ar_start b)"
  by (induction xs) auto

lemma areas_disjoint:
  assumes "areas_ok (pre @ a # as)" "b \<in> set pre \<union> set as" "covers a x"
  shows "\<not> covers b x"
  using assms by (auto simp: areas_ok_append covers_def)

lemma fork_inv_cong:
  assumes "fork_inv E used m0 A D m" "\<And>v. alloc_page A v \<Longrightarrow> pt_query (PT E) (pt m') v = pt_query (PT E) (pt m) v"
    "al m' = al m" "mem m' = mem m" "\<forall>w \<in> D. alloc_page A w"
  shows "fork_inv E used m0 A D m'"
  using assms unfolding fork_inv_def by simp

lemma backend_map_inv:
  assumes laws: "mm_laws E used" and run: "backend_map E (ar_backend a) (ar_start a) (ar_size a) (ar_flags a) m = (Some True, m')"
    and inv: "fork_inv E used m0 A D m" and ok: "areas_ok (pre @ a # as)" "A = set (pre @ a # as)" "area_aligned a"
    and D: "D = {v. alloc_page (set pre) v}"
  shows "fork_inv E used m0 A D m'"
proof -
  have va: "va_laws (VA E)" and pl: "pt_laws (PT E)" using laws by (simp_all add: mm_laws_def)
  have DA: "\<forall>w \<in> D. alloc_page A w" using D ok(2) by (auto simp: alloc_page_def)
  show ?thesis
  proof (cases "ar_backend a")
    case (Linear off)
    with run obtain p' where p': "pt_map_region (PT E) (ar_start a) (\<lambda>va. wsub va off) (ar_size a) (ar_flags a) (pt m) = (True, p')"
      "m' = m\<lparr>pt := p'\<rparr>" by (auto simp: backend_map_linear_def Let_def split: prod.splits)
    have "pt_query (PT E) p' v = pt_query (PT E) (pt m) v" if "alloc_page A v" for v
    proof -
      have "\<not> covers a v"
        using that areas_disjoint[OF ok(1), of _ v] Linear ok(2) by (auto simp: alloc_page_def)
      then have "\<not> (ar_start a \<le> v \<and> v < ar_start a + ar_size a)" by (simp add: covers_def ar_end_def)
      then show ?thesis using pl p'(1) unfolding pt_laws_def by blast
    qed
    then show ?thesis using fork_inv_cong[OF inv, of m'] p'(2) DA by simp
  next
    case (Alloc populate)
    obtain pages where pages: "page_iter_4k (VA E) (ar_start a) (ar_end a) = Some pages"
      "set pages = {v. v mod 4096 = 0 \<and> covers a v}" by (rule area_pages[OF va ok(3)])
    have "\<forall>v \<in> set pages. alloc_page A v \<and> v \<notin> D"
      using pages(2) ok(2) Alloc areas_disjoint[OF ok(1)] D by (auto simp: alloc_page_def)
    moreover have "m' = m \<or> map_alloc_pages E (ar_flags a) pages m = (True, m')"
      using run Alloc pages(1) by (auto simp: backend_map_alloc_def ar_end_def Let_def split: if_splits prod.splits)
    ultimately show ?thesis using map_alloc_pages_inv[OF laws DA, of "ar_flags a" pages m m'] inv by blast
  qed
qed

lemma alloc_page_snoc:
  "alloc_page (set (pre @ [a])) v \<longleftrightarrow> alloc_page (set pre) v \<or> is_alloc (ar_backend a) \<and> v mod 4096 = 0 \<and> covers a v"
  by (auto simp: alloc_page_def)

lemma alloc_page_mono: "alloc_page A v \<Longrightarrow> A \<subseteq> B \<Longrightarrow> alloc_page B v"
  by (auto simp: alloc_page_def)

lemma clone_areas_inv:
  assumes laws: "mm_laws E used" and own: "frames_used E used m0 A"
  shows "clone_areas E (pt m0) as n = (Ok (), n') \<Longrightarrow> areas_ok (pre @ as) \<Longrightarrow> A = set (pre @ as) \<Longrightarrow>
    \<forall>a \<in> A. area_aligned a \<Longrightarrow> fork_inv E used m0 A {v. alloc_page (set pre) v} (as_m n) \<Longrightarrow>
    fork_inv E used m0 A {v. alloc_page A v} (as_m n') \<and>
    set (ms_iter (MS E) (areas n')) = set (ms_iter (MS E) (areas n)) \<union> set as \<and> va_range n' = va_range n"
proof (induction as arbitrary: n pre)
  case (Cons a as)
  have va: "va_laws (VA E)" and ml: "ms_laws (MS E)" using laws by (simp_all add: mm_laws_def)
  obtain r ms m1 where call: "ms_map (MS E) (backend_map E) a (areas n) (as_m n) = (r, ms, m1)" by (cases rule: prod_cases3)
  define n1 where "n1 = n\<lparr>areas := ms, as_m := m1\<rparr>"
  have on: "on_areas (ms_map (MS E) (backend_map E) a) n = (map_err mapping_err_to_ax_err r, n1)"
    by (simp add: on_areas_def call n1_def)
  then have r: "r = Ok ()" using Cons.prems(1) by (cases r) auto
  from ml call r have cb: "backend_map E (ar_backend a) (ar_start a) (ar_size a) (ar_flags a) (as_m n) = (Some True, m1)"
    and iter: "set (ms_iter (MS E) ms) = insert a (set (ms_iter (MS E) (areas n)))"
    unfolding ms_laws_def by blast+
  have aA: "area_aligned a" using Cons.prems(3,4) by simp
  have inv1: "fork_inv E used m0 A {v. alloc_page (set pre) v} m1"
    by (rule backend_map_inv[OF laws cb Cons.prems(5,2,3) aA refl])
  have rest: "fork_inv E used m0 A {v. alloc_page A v} (as_m n') \<and>
      set (ms_iter (MS E) (areas n')) = set (ms_iter (MS E) (areas n)) \<union> set (a # as) \<and> va_range n' = va_range n"
    if "clone_areas E (pt m0) as (n1\<lparr>as_m := m2\<rparr>) = (Ok (), n')" "fork_inv E used m0 A {v. alloc_page (set (pre @ [a])) v} m2" for m2
    using Cons.IH[OF that(1), of "pre @ [a]"] that(2) Cons.prems(2-4) iter by (auto simp: n1_def)
  show ?case
  proof (cases "ar_backend a")
    case (Linear off)
    have "{v. alloc_page (set (pre @ [a])) v} = {v. alloc_page (set pre) v}" unfolding alloc_page_snoc using Linear by simp
    moreover have "n1\<lparr>as_m := m1\<rparr> = n1" by (simp add: n1_def)
    ultimately show ?thesis using rest[of m1] inv1 Cons.prems(1) on r Linear by simp
  next
    case (Alloc populate)
    obtain pages where pages: "page_iter_4k (VA E) (ar_start a) (ar_end a) = Some pages"
      "set pages = {v. v mod 4096 = 0 \<and> covers a v}" by (rule area_pages[OF va aA])
    obtain x m2 where cl: "clone_pages E (pt m0) a pages m1 = (x, m2)" by fastforce
    with Cons.prems(1) on r Alloc pages(1) have x: "x = Ok ()" "clone_areas E (pt m0) as (n1\<lparr>as_m := m2\<rparr>) = (Ok (), n')"
      by (auto simp: n1_def split: result.splits)
    have "fork_inv E used m0 A ({v. alloc_page (set pre) v} \<union> set pages) m2"
      by (rule clone_pages_inv[OF laws own cl[unfolded x(1)] inv1])
        (use Cons.prems(3) Alloc pages(2) alloc_page_mono[of "set pre" _ A] in \<open>auto simp: alloc_page_def\<close>)
    moreover have "{v. alloc_page (set pre) v} \<union> set pages = {v. alloc_page (set (pre @ [a])) v}"
      unfolding alloc_page_snoc using pages(2) Alloc by auto
    ultimately show ?thesis using rest[OF x(2)] by simp
  qed
qed (simp add: fork_inv_D)

section \<open>The child has a copy of its own\<close>

lemma clone_or_err_inv:
  assumes laws: "mm_laws E used" and run: "clone_or_err E s = (Ok n, m')"
    and ok: "areas_ok (ms_iter (MS E) (areas s))" "\<forall>a \<in> set (ms_iter (MS E) (areas s)). area_aligned a"
    and own: "frames_used E used (as_m s) (set (ms_iter (MS E) (areas s)))"
  shows "fork_inv E used (as_m s) (set (ms_iter (MS E) (areas s))) {v. alloc_page (set (ms_iter (MS E) (areas s))) v} (as_m n)"
    "set (ms_iter (MS E) (areas n)) = set (ms_iter (MS E) (areas s))" "m' = (as_m n)\<lparr>pt := pt (as_m s)\<rparr>"
proof -
  let ?A = "set (ms_iter (MS E) (areas s))"
  have pl: "pt_laws (PT E)" and ml: "ms_laws (MS E)" using laws by (simp_all add: mm_laws_def)
  from run obtain n0 where new: "new_empty E (fst (va_range s)) (snd (va_range s) - fst (va_range s)) (as_m s) = Ok n0"
    and cl: "clone_areas E (pt (as_m s)) (ms_iter (MS E) (areas s)) n0 = (Ok (), n)" and m': "m' = (as_m n)\<lparr>pt := pt (as_m s)\<rparr>"
    by (auto simp: clone_or_err_def split: result.splits prod.splits)
  from new obtain p where p: "pt_try_new (PT E) = Some p" "areas n0 = ms_new (MS E)" "as_m n0 = (as_m s)\<lparr>pt := p\<rparr>"
    by (auto simp: new_empty_def split: option.splits)
  have un: "pt_query (PT E) p v = Err NotMapped" for v using pl p(1) unfolding pt_laws_def by blast
  have no: "alloc_page (set []) v \<longleftrightarrow> False" for v by (simp add: alloc_page_def)
  have "fork_inv E used (as_m s) ?A {v. alloc_page (set []) v} (as_m n0)"
    unfolding fork_inv_def no by (simp add: p(3) un)
  from clone_areas_inv[OF laws own cl, of "[]"] this ok
  have "fork_inv E used (as_m s) ?A {v. alloc_page ?A v} (as_m n) \<and> set (ms_iter (MS E) (areas n)) = set (ms_iter (MS E) (areas n0)) \<union> ?A"
    by simp
  moreover have "ms_iter (MS E) (areas n0) = []" using ml p(2) by (simp add: ms_laws_def)
  ultimately show "fork_inv E used (as_m s) ?A {v. alloc_page ?A v} (as_m n)"
    "set (ms_iter (MS E) (areas n)) = ?A" "m' = (as_m n)\<lparr>pt := pt (as_m s)\<rparr>"
    using m' by simp_all
qed

text \<open>
  C2: A successful \<open>clone_or_err\<close> gives the child the same areas as the parent. Every page of an allocated
  area that is mapped in the parent is mapped in the child, holds the same 4096 bytes, and lies in a frame
  that nobody used before and that no other page of the child has. The parent keeps its page table and
  every byte of every frame in use, so that neither process can see what the other writes later.\<close>

theorem clone_copies_memory:
  assumes "mm_laws E used" "clone_or_err E s = (Ok n, m')"
    and "areas_ok (ms_iter (MS E) (areas s))" "\<forall>a \<in> set (ms_iter (MS E) (areas s)). area_aligned a"
    and "frames_used E used (as_m s) (set (ms_iter (MS E) (areas s)))"
  shows "set (ms_iter (MS E) (areas n)) = set (ms_iter (MS E) (areas s)) \<and>
    (\<forall>v pa fl. alloc_page (set (ms_iter (MS E) (areas s))) v \<longrightarrow> pt_query (PT E) (pt (as_m s)) v = Ok (pa, fl) \<longrightarrow>
       (\<exists>pa' fl'. pt_query (PT E) (pt (as_m n)) v = Ok (pa', fl') \<and> phys_to_virt E pa' \<notin> used (al (as_m s)) \<and>
          (\<forall>j < 4096. mem m' (phys_to_virt E pa' + j) = mem (as_m s) (phys_to_virt E pa + j)))) \<and>
    (\<forall>v w pa fl fl'. alloc_page (set (ms_iter (MS E) (areas s))) v \<longrightarrow> alloc_page (set (ms_iter (MS E) (areas s))) w \<longrightarrow>
       pt_query (PT E) (pt (as_m n)) v = Ok (pa, fl) \<longrightarrow> pt_query (PT E) (pt (as_m n)) w = Ok (pa, fl') \<longrightarrow> v = w) \<and>
    pt m' = pt (as_m s) \<and> (\<forall>f \<in> used (al (as_m s)). \<forall>j < 4096. mem m' (f + j) = mem (as_m s) (f + j))"
proof -
  let ?A = "set (ms_iter (MS E) (areas s))"
  note c = clone_or_err_inv[OF assms]
  have I: "\<And>h j. h \<in> used (al (as_m s)) \<Longrightarrow> j < 4096 \<Longrightarrow> mem (as_m n) (h + j) = mem (as_m s) (h + j)"
    "\<And>w pa fl. alloc_page ?A w \<Longrightarrow> pt_query (PT E) (pt (as_m n)) w = Ok (pa, fl) \<Longrightarrow> phys_to_virt E pa \<notin> used (al (as_m s))"
    "\<And>v w pa fl fl'. alloc_page ?A v \<Longrightarrow> alloc_page ?A w \<Longrightarrow> pt_query (PT E) (pt (as_m n)) v = Ok (pa, fl) \<Longrightarrow>
        pt_query (PT E) (pt (as_m n)) w = Ok (pa, fl') \<Longrightarrow> v = w"
    "\<And>w pa fl. alloc_page ?A w \<Longrightarrow> pt_query (PT E) (pt (as_m s)) w = Ok (pa, fl) \<Longrightarrow>
        \<exists>pa' fl'. pt_query (PT E) (pt (as_m n)) w = Ok (pa', fl') \<and>
           (\<forall>j < 4096. mem (as_m n) (phys_to_virt E pa' + j) = mem (as_m s) (phys_to_virt E pa + j))"
    using c(1) unfolding fork_inv_def by blast+
  have "\<exists>pa' fl'. pt_query (PT E) (pt (as_m n)) v = Ok (pa', fl') \<and> phys_to_virt E pa' \<notin> used (al (as_m s)) \<and>
      (\<forall>j < 4096. mem m' (phys_to_virt E pa' + j) = mem (as_m s) (phys_to_virt E pa + j))"
    if "alloc_page ?A v" "pt_query (PT E) (pt (as_m s)) v = Ok (pa, fl)" for v pa fl
  proof -
    from I(4)[OF that] obtain pa' fl' where "pt_query (PT E) (pt (as_m n)) v = Ok (pa', fl')"
      "\<forall>j < 4096. mem (as_m n) (phys_to_virt E pa' + j) = mem (as_m s) (phys_to_virt E pa + j)" by blast
    then show ?thesis using I(2)[OF that(1)] c(3) by auto
  qed
  moreover have "pt m' = pt (as_m s)" "mem m' = mem (as_m n)" using c(3) by simp_all
  ultimately show ?thesis using c(2) I(1,3) by (intro conjI allI ballI impI) (simp, blast, blast, simp, simp)
qed

section \<open>Two pages in the instance\<close>

lemma ex_mm_laws: "mm_laws (ex_mm limit) ex_used"
  by (simp add: mm_laws_def ex_va_laws ex_pt_laws ex_fa_laws ex_ms_laws)

lemma ex_clone_ok: "is_ok (fst (clone_or_err (ex_mm 8) ex_as2))"
  by (simp add: clone_or_err_def new_empty_def ex_mm_def ex_va_def ex_as2_def ex_as_def ex_pt_ops_def ex_ms_def
      ex_result_def on_areas_def backend_map_alloc_def ar_end_def upt_rec Let_def ex_query_def handle_page_fault_alloc_def
      alloc_frame_def ex_fa_def virt_to_phys_def)

lemma ex_as2_frames: "frames_used (ex_mm 8) ex_used (as_m ex_as2) (set (ms_iter (MS (ex_mm 8)) (areas ex_as2)))"
  by (auto simp: frames_used_def alloc_page_def ex_mm_def ex_as2_def ex_pt_ops_def ex_query_def phys_to_virt_def ex_used_def
      split: if_splits option.splits)

theorem clone_copies_memory_witness:
  "\<exists>n m' pa fl. clone_or_err (ex_mm 8) ex_as2 = (Ok n, m') \<and> pt_query (PT (ex_mm 8)) (pt (as_m n)) 4096 = Ok (pa, fl) \<and>
     phys_to_virt (ex_mm 8) pa \<notin> ex_used 2"
proof -
  obtain n m' where run: "clone_or_err (ex_mm 8) ex_as2 = (Ok n, m')" using ex_clone_ok by (auto simp: is_ok_iff prod_eq_iff)
  have A: "ms_iter (MS (ex_mm 8)) (areas ex_as2) = areas ex_as" by (simp add: ex_mm_def ex_ms_def ex_as2_def)
  have ok: "areas_ok (areas ex_as)" "\<forall>a \<in> set (areas ex_as). area_aligned a" "alloc_page (set (areas ex_as)) 4096"
    by (auto simp: ex_as_def ar_end_def area_aligned_def alloc_page_def covers_def)
  have q: "pt_query (PT (ex_mm 8)) (pt (as_m ex_as2)) 4096 = Ok (4096, {F_READ, F_WRITE, F_USER})" "al (as_m ex_as2) = 2"
    by (simp_all add: ex_mm_def ex_as2_def ex_pt_ops_def ex_query_def)
  from clone_copies_memory[OF ex_mm_laws run _ _ ex_as2_frames] ok A q run show ?thesis by fastforce
qed

end
