(* ===== verification/Populate.thy ===== *)
theory Populate
  imports Fork
begin

text \<open>
  Filling an address space with frames: page faults (\<open>handle_page_fault\<close>) and \<open>populate_area\<close> of
  \<open>axmm/src/aspace.rs\<close>.
\<close>

section \<open>Page faults\<close>

lemma page_fault_cases:
  assumes laws: "mm_laws E used" and pf: "backend_handle_page_fault E b v fl m = (True, m')"
  obtains f where "b = Alloc False" "f mod 4096 = 0" "phys_to_virt E f \<notin> used (al m)"
    "used (al m') = insert (phys_to_virt E f) (used (al m))" "mem m' = write_zero (phys_to_virt E f) (mem m)"
    "\<And>w. pt_query (PT E) (pt m') w = (if w div 4096 = v div 4096 then Ok (f + w mod 4096, fl) else pt_query (PT E) (pt m) w)"
proof -
  have fa: "fa_laws (FA E) (PHYS_VIRT_OFFSET E) used" and pl: "pt_laws (PT E)" using laws by (simp_all add: mm_laws_def)
  from pf obtain f m1 p' where c: "b = Alloc False" "alloc_frame E True m = (Some f, m1)"
    "pt_map (PT E) v f fl (pt m1) = (True, p')" "m' = m1\<lparr>pt := p'\<rparr>"
    by (cases b) (auto simp: handle_page_fault_alloc_def Let_def split: if_splits prod.splits option.splits)
  note new = alloc_frame_fresh[OF fa c(2)]
  show ?thesis by (rule that[OF c(1) new(1,2)]) (simp_all add: c(4) new pt_map_query[OF pl c(3) new(1)])
qed

lemma handle_page_fault_cases:
  assumes laws: "mm_laws E used" and run: "handle_page_fault E v fl s = (True, s')"
  obtains a f where "a \<in> set (ms_iter (MS E) (areas s))" "covers a v" "fl \<subseteq> ar_flags a" "ar_backend a = Alloc False"
    "phys_to_virt E f \<notin> used (al (as_m s))" "f mod 4096 = 0"
    "\<forall>w. pt_query (PT E) (pt (as_m s')) w =
       (if w div 4096 = v div 4096 then Ok (f + w mod 4096, ar_flags a) else pt_query (PT E) (pt (as_m s)) w)"
    "mem (as_m s') = write_zero (phys_to_virt E f) (mem (as_m s))" "phys_to_virt E f mod 4096 = 0" "areas s' = areas s"
proof -
  have fa: "fa_laws (FA E) (PHYS_VIRT_OFFSET E) used" and ml: "ms_laws (MS E)" using laws by (simp_all add: mm_laws_def)
  from run obtain a m' where a: "ms_find (MS E) (areas s) v = Some a" "fl \<subseteq> ar_flags a"
    "backend_handle_page_fault E (ar_backend a) v (ar_flags a) (as_m s) = (True, m')" "s' = s\<lparr>as_m := m'\<rparr>"
    by (auto simp: handle_page_fault_def Let_def split: if_splits option.splits prod.splits)
  have ain: "a \<in> set (ms_iter (MS E) (areas s))" "covers a v" using ml a(1) unfolding ms_laws_def by blast+
  from page_fault_cases[OF laws a(3)] obtain f where f: "ar_backend a = Alloc False" "f mod 4096 = 0"
    "phys_to_virt E f \<notin> used (al (as_m s))" "used (al m') = insert (phys_to_virt E f) (used (al (as_m s)))"
    "mem m' = write_zero (phys_to_virt E f) (mem (as_m s))"
    "\<forall>w. pt_query (PT E) (pt m') w =
      (if w div 4096 = v div 4096 then Ok (f + w mod 4096, ar_flags a) else pt_query (PT E) (pt (as_m s)) w)"
    by metis
  have "phys_to_virt E f mod 4096 = 0" using fa_used_aligned[OF fa, of _ "al m'"] f(4) by simp
  then show ?thesis using that[OF ain a(2) f(1,3,2)] f(5,6) a(4) by simp
qed

text \<open>
  C12: A page fault is handled only at an address of an area that allows the access and allocates
  on demand. Then the page of the address is mapped, with the flags of the area, to a frame that nobody used;
  the frame is filled with zeros. No other page and no other byte of memory in use changes.\<close>

theorem handle_page_fault_maps_zeroes:
  assumes laws: "mm_laws E used" and run: "handle_page_fault E v fl s = (True, s')"
  shows "\<exists>a f. a \<in> set (ms_iter (MS E) (areas s)) \<and> covers a v \<and> fl \<subseteq> ar_flags a \<and> ar_backend a = Alloc False \<and>
     phys_to_virt E f \<notin> used (al (as_m s)) \<and> f mod 4096 = 0 \<and>
     (\<forall>w. pt_query (PT E) (pt (as_m s')) w =
        (if w div 4096 = v div 4096 then Ok (f + w mod 4096, ar_flags a) else pt_query (PT E) (pt (as_m s)) w)) \<and>
     (\<forall>j < 4096. mem (as_m s') (phys_to_virt E f + j) = 0) \<and>
     (\<forall>h \<in> used (al (as_m s)). \<forall>j < 4096. mem (as_m s') (h + j) = mem (as_m s) (h + j)) \<and>
     areas s' = areas s"
proof -
  have fa: "fa_laws (FA E) (PHYS_VIRT_OFFSET E) used" using laws by (simp add: mm_laws_def)
  obtain a f where c: "a \<in> set (ms_iter (MS E) (areas s))" "covers a v" "fl \<subseteq> ar_flags a" "ar_backend a = Alloc False"
    "phys_to_virt E f \<notin> used (al (as_m s))" "f mod 4096 = 0"
    "\<forall>w. pt_query (PT E) (pt (as_m s')) w =
       (if w div 4096 = v div 4096 then Ok (f + w mod 4096, ar_flags a) else pt_query (PT E) (pt (as_m s)) w)"
    "mem (as_m s') = write_zero (phys_to_virt E f) (mem (as_m s))" "phys_to_virt E f mod 4096 = 0" "areas s' = areas s"
    by (rule handle_page_fault_cases[OF laws run])
  have "mem (as_m s') (h + j) = mem (as_m s) (h + j)" if h: "h \<in> used (al (as_m s))" "j < 4096" for h j
  proof -
    have "h \<noteq> phys_to_virt E f" using h(1) c(5) by blast
    then show ?thesis
      using page_disjoint[OF c(9) fa_used_aligned[OF fa h(1)] _ h(2)] by (auto simp: c(8) write_zero_def)
  qed
  then show ?thesis using c by (intro exI[of _ a] exI[of _ f]) (simp add: write_zero_def)
qed

theorem handle_page_fault_maps_zeroes_witness:
  "\<exists>s'. handle_page_fault (ex_mm 8) 12300 {F_READ} ex_as2 = (True, s') \<and>
     (\<exists>pa fl. pt_query (PT (ex_mm 8)) (pt (as_m s')) 12300 = Ok (pa, fl))"
proof -
  have "fst (handle_page_fault (ex_mm 8) 12300 {F_READ} ex_as2)"
    by (simp add: handle_page_fault_def ex_mm_def ex_va_def ex_ms_def ex_as2_def ex_as_def covers_def ar_end_def
        handle_page_fault_alloc_def alloc_frame_def ex_fa_def ex_pt_ops_def Let_def)
  then obtain s' where run: "handle_page_fault (ex_mm 8) 12300 {F_READ} ex_as2 = (True, s')" by (metis prod.collapse)
  from handle_page_fault_maps_zeroes[OF ex_mm_laws run] run show ?thesis by auto
qed

section \<open>Populating a range\<close>

lemma populate_pages_maps:
  assumes laws: "mm_laws E used"
  shows "populate_pages E a vs m = (Ok (), m') \<Longrightarrow>
    (\<forall>v. is_ok (pt_query (PT E) (pt m) v) \<longrightarrow> is_ok (pt_query (PT E) (pt m') v)) \<and>
    (\<forall>v \<in> set vs. is_ok (pt_query (PT E) (pt m') v))"
proof (induction vs arbitrary: m)
  case (Cons v vs)
  show ?case
  proof (cases "pt_query (PT E) (pt m) v")
    case (Ok z)
    then show ?thesis using Cons by simp
  next
    case (Err e)
    with Cons.prems have e: "e = NotMapped" by (cases e) auto
    obtain ok m1 where pf: "backend_handle_page_fault E (ar_backend a) v (ar_flags a) m = (ok, m1)" by fastforce
    with Cons.prems Err e have ok: "ok" "populate_pages E a vs m1 = (Ok (), m')" by (cases ok; simp)+
    from page_fault_cases[OF laws pf[simplified ok(1)]] obtain f
      where "\<forall>w. pt_query (PT E) (pt m1) w =
        (if w div 4096 = v div 4096 then Ok (f + w mod 4096, ar_flags a) else pt_query (PT E) (pt m) w)" by metis
    then show ?thesis using Cons.IH[OF ok(2)] by auto
  next
    case Panic
    then show ?thesis using Cons.prems by simp
  qed
qed simp

lemma populate_one_maps:
  assumes laws: "mm_laws E used" and run: "populate_one E a start e m = (Ok (), m')"
    and al: "start mod 4096 = 0" "ar_end a mod 4096 = 0" "e mod 4096 = 0" "start < ar_end a" "start \<le> e"
  shows "(\<forall>v. is_ok (pt_query (PT E) (pt m) v) \<longrightarrow> is_ok (pt_query (PT E) (pt m') v)) \<and>
    (ar_backend a = Alloc False \<longrightarrow> (\<forall>v. v mod 4096 = 0 \<and> start \<le> v \<and> v < ar_end a \<and> v < e \<longrightarrow> is_ok (pt_query (PT E) (pt m') v)))"
proof (cases "ar_backend a = Alloc False")
  case True
  have va: "va_laws (VA E)" using laws by (simp add: mm_laws_def)
  have "min (ar_end a) e mod 4096 = 0" "start \<le> min (ar_end a) e" using al by (simp_all add: min_def)
  from page_iter_set[OF va al(1) this] obtain pages where pages: "page_iter_4k (VA E) start (min (ar_end a) e) = Some pages"
    "set pages = {v. v mod 4096 = 0 \<and> start \<le> v \<and> v < min (ar_end a) e}" by blast
  have "populate_pages E a pages m = (Ok (), m')" using run True pages(1) by (simp add: populate_one_def)
  from populate_pages_maps[OF laws this] pages(2) show ?thesis by auto
next
  case False
  then have "m' = m" using run by (auto simp: populate_one_def split: Backend.splits if_splits)
  then show ?thesis using False by simp
qed

text \<open>The loop moves forward in every round, so that the distance to the end is fuel enough.\<close>

lemma populate_loop_fuel:
  assumes laws: "mm_laws E used"
  shows "e - start < n \<Longrightarrow> populate_loop (n + k) E start e s = populate_loop n E start e s"
proof (induction n arbitrary: start s)
  case (Suc n)
  have ml: "ms_laws (MS E)" using laws by (simp add: mm_laws_def)
  show ?case
  proof (cases "ms_find (MS E) (areas s) start")
    case (Some a)
    then have "start < ar_end a" using ml unfolding ms_laws_def covers_def by blast
    then have "\<not> e \<le> ar_end a \<Longrightarrow> e - ar_end a < n" using Suc.prems by linarith
    then show ?thesis using Some Suc.IH[of "ar_end a"] by (simp split: prod.split result.split add: Let_def)
  qed simp
qed simp

lemma populate_loop_maps:
  assumes laws: "mm_laws E used" and e: "e mod 4096 = 0"
  shows "populate_loop n E start e s = (Ok reached, s') \<Longrightarrow> start mod 4096 = 0 \<Longrightarrow> start \<le> e \<Longrightarrow>
    areas s' = areas s \<and> (\<forall>v. is_ok (pt_query (PT E) (pt (as_m s)) v) \<longrightarrow> is_ok (pt_query (PT E) (pt (as_m s')) v)) \<and>
    (\<forall>v. v mod 4096 = 0 \<and> start \<le> v \<and> v < reached \<and> v < e \<longrightarrow>
       (\<exists>a \<in> set (ms_iter (MS E) (areas s)). covers a v \<and>
          (ar_backend a = Alloc False \<longrightarrow> is_ok (pt_query (PT E) (pt (as_m s')) v))))"
proof (induction n arbitrary: start s)
  case (Suc n)
  have ml: "ms_laws (MS E)" and va: "va_laws (VA E)" using laws by (simp_all add: mm_laws_def)
  show ?case
  proof (cases "ms_find (MS E) (areas s) start")
    case None
    then show ?thesis using Suc.prems(1) by auto
  next
    case (Some a)
    then have a: "a \<in> set (ms_iter (MS E) (areas s))" "covers a start" using ml unfolding ms_laws_def by blast+
    obtain x m1 where one: "populate_one E a start e (as_m s) = (x, m1)" by fastforce
    define s1 where "s1 = s\<lparr>as_m := m1\<rparr>"
    from Suc.prems(1) Some one have x: "x = Ok ()" "ar_end a mod 4096 = 0"
      "if e \<le> ar_end a then reached = ar_end a \<and> s' = s1 else populate_loop n E (ar_end a) e s1 = (Ok reached, s')"
      by (auto simp: Let_def va_lawsD(3)[OF va] s1_def split: result.splits if_splits)
    have lt: "start < ar_end a" using a(2) by (simp add: covers_def)
    note one' = populate_one_maps[OF laws one[unfolded x(1)] Suc.prems(2) x(2) e lt Suc.prems(3)]
    note mono = conjunct1[OF one']
    have here: "ar_backend a = Alloc False \<Longrightarrow> v mod 4096 = 0 \<Longrightarrow> start \<le> v \<Longrightarrow> v < ar_end a \<Longrightarrow> v < e \<Longrightarrow>
        is_ok (pt_query (PT E) (pt m1) v)" for v
      using conjunct2[OF one'] by simp
    show ?thesis
    proof (cases "e \<le> ar_end a")
      case True
      then have "s' = s1" using x(3) by simp
      moreover have "\<exists>b \<in> set (ms_iter (MS E) (areas s)). covers b v \<and> (ar_backend b = Alloc False \<longrightarrow> is_ok (pt_query (PT E) (pt m1) v))"
        if v: "v mod 4096 = 0 \<and> start \<le> v \<and> v < reached \<and> v < e" for v
      proof -
        have "covers a v" "v < ar_end a" using v a(2) True by (simp_all add: covers_def)
        then show ?thesis using here[of v] v by (intro bexI[of _ a] a(1)) simp
      qed
      ultimately show ?thesis using mono by (simp add: s1_def)
    next
      case False
      then have run: "populate_loop n E (ar_end a) e s1 = (Ok reached, s')" using x(3) by simp
      from Suc.IH[OF this x(2)] False have IH: "areas s' = areas s"
        "\<forall>v. is_ok (pt_query (PT E) (pt m1) v) \<longrightarrow> is_ok (pt_query (PT E) (pt (as_m s')) v)"
        "\<forall>v. v mod 4096 = 0 \<and> ar_end a \<le> v \<and> v < reached \<and> v < e \<longrightarrow>
          (\<exists>a \<in> set (ms_iter (MS E) (areas s)). covers a v \<and>
             (ar_backend a = Alloc False \<longrightarrow> is_ok (pt_query (PT E) (pt (as_m s')) v)))"
        by (simp_all add: s1_def)
      have "\<exists>b \<in> set (ms_iter (MS E) (areas s)). covers b v \<and> (ar_backend b = Alloc False \<longrightarrow> is_ok (pt_query (PT E) (pt (as_m s')) v))"
        if v: "v mod 4096 = 0 \<and> start \<le> v \<and> v < reached \<and> v < e" for v
      proof (cases "v < ar_end a")
        case True
        then have "covers a v" using a(2) v by (simp add: covers_def)
        then show ?thesis using here[of v] IH(2) v True by (intro bexI[of _ a] a(1)) simp
      qed (use IH(3) v in auto)
      then show ?thesis using IH(1,2) mono by blast
    qed
  qed
qed simp

lemma populate_area_maps:
  assumes laws: "mm_laws E used" and run: "fst (populate_area E start sz s) = Ok ()"
  shows "areas (snd (populate_area E start sz s)) = areas s"
    "is_ok (pt_query (PT E) (pt (as_m s)) v) \<Longrightarrow> is_ok (pt_query (PT E) (pt (as_m (snd (populate_area E start sz s)))) v)"
    "v mod 4096 = 0 \<Longrightarrow> start \<le> v \<Longrightarrow> v < start + sz \<Longrightarrow> \<exists>a \<in> set (ms_iter (MS E) (areas s)). covers a v \<and>
       (ar_backend a = Alloc False \<longrightarrow> is_ok (pt_query (PT E) (pt (as_m (snd (populate_area E start sz s)))) v))"
proof -
  obtain s' where run': "populate_area E start sz s = (Ok (), s')" using run by (metis prod.collapse)
  have va: "va_laws (VA E)" using laws by (simp add: mm_laws_def)
  from run' obtain reached where v: "validate_region E s start sz = Ok ()"
    and loop: "populate_loop (Suc sz) E start (start + sz) s = (Ok reached, s')" "start + sz \<le> reached"
    by (auto simp: populate_area_def ok_iff simp del: populate_loop.simps split: if_splits)
  have al: "start mod 4096 = 0" "sz mod 4096 = 0"
    using v by (auto simp: validate_region_def ok_iff va_lawsD(3)[OF va] split: if_splits)
  then have "(start + sz) mod 4096 = 0" using mod_add_eq[of start 4096 sz] by simp
  note all = populate_loop_maps[OF laws this loop(1) al(1) le_add1]
  show "areas (snd (populate_area E start sz s)) = areas s"
    "is_ok (pt_query (PT E) (pt (as_m s)) v) \<Longrightarrow> is_ok (pt_query (PT E) (pt (as_m (snd (populate_area E start sz s)))) v)"
    "v mod 4096 = 0 \<Longrightarrow> start \<le> v \<Longrightarrow> v < start + sz \<Longrightarrow> \<exists>a \<in> set (ms_iter (MS E) (areas s)). covers a v \<and>
       (ar_backend a = Alloc False \<longrightarrow> is_ok (pt_query (PT E) (pt (as_m (snd (populate_area E start sz s)))) v))"
    using all loop(2) run' by simp_all
qed


lemmas populate_loop_numeral = populate_loop.simps(2)[of "pred_numeral k" for k, folded numeral_eq_Suc]


end
