(* ===== verification/UserMem.thy ===== *)
theory UserMem
  imports Io Populate
begin

text \<open>
  What the system calls do with the memory of a process: \<open>imp/mm/mmap.rs\<close>, \<open>imp/mm/brk.rs\<close>, the checked
  pointers of \<open>api/src/ptr.rs\<close> and the page fault handler \<open>src/src/mm.rs\<close>. The numbers of the Linux
  interface come from outside (\<open>mm_abi\<close>).
\<close>

section \<open>Memory mappings\<close>

record mm_abi =
  PROT_READ :: u32
  PROT_WRITE :: u32
  PROT_EXEC :: u32
  PROT_GROWSDOWN :: u32
  PROT_GROWSUP :: u32
  MAP_SHARED :: u32
  MAP_PRIVATE :: u32
  MAP_FIXED :: u32
  MAP_ANONYMOUS :: u32
  MAP_NORESERVE :: u32
  MAP_STACK :: u32

text \<open>The bit sets of the \<open>bitflags\<close> macro.\<close>

definition bits_contain :: "u32 \<Rightarrow> u32 \<Rightarrow> bool" where
  "bits_contain v c \<longleftrightarrow> v AND c = c"

definition MmapProt :: "mm_abi \<Rightarrow> u32" where
  "MmapProt A = PROT_READ A OR PROT_WRITE A OR PROT_EXEC A OR PROT_GROWSDOWN A OR PROT_GROWSUP A"

definition MmapFlags :: "mm_abi \<Rightarrow> u32" where
  "MmapFlags A = MAP_SHARED A OR MAP_PRIVATE A OR MAP_FIXED A OR MAP_ANONYMOUS A OR MAP_NORESERVE A OR MAP_STACK A"

definition prot_to_flags :: "mm_abi \<Rightarrow> u32 \<Rightarrow> MappingFlags" where
  "prot_to_flags A v =
     {F_USER} \<union> (if bits_contain v (PROT_READ A) then {F_READ} else {}) \<union>
     (if bits_contain v (PROT_WRITE A) then {F_WRITE} else {}) \<union>
     (if bits_contain v (PROT_EXEC A) then {F_EXECUTE} else {})"

text \<open>A process as these calls see it: its address space, and the files.\<close>

record ('ms, 'pt, 'al, 't, 'n, 'f, 'w, 's, 'c) ums =
  um_as :: "('ms, 'pt, 'al) AddrSpace"
  um_io :: "('t, 'n, 'f, 'w, 's, 'c) ios"

definition on_as ::
  "(AxError \<Rightarrow> LinuxError) \<Rightarrow> (('ms, 'pt, 'al) AddrSpace, AxError, 'a) io
   \<Rightarrow> (('ms, 'pt, 'al, 't, 'n, 'f, 'w, 's, 'c) ums, LinuxError, 'a) io" where
  "on_as lx f u = (let (r, s) = f (um_as u) in (map_err lx r, u\<lparr>um_as := s\<rparr>))"

text \<open>The contents of a file mapping, read into the pages at once.\<close>

definition mmap_file ::
  "('ms, 'pt, 'al) mm_env \<Rightarrow> ('t, 'n, 'f, 'w, 's, 'c) sysenv \<Rightarrow> nat \<Rightarrow> i32 \<Rightarrow> i64 \<Rightarrow> nat \<Rightarrow> nat
   \<Rightarrow> (('ms, 'pt, 'al, 't, 'n, 'f, 'w, 's, 'c) ums, LinuxError, unit) io" where
  "mmap_file E S c fd offset len start_addr u =
     (case file_from_fd (FO S) c fd (ft (um_io u)) of
        (Err e, f1) \<Rightarrow> (Err e, u\<lparr>um_io := (um_io u)\<lparr>ft := f1\<rparr>\<rparr>)
      | (Panic, f1) \<Rightarrow> (Panic, u\<lparr>um_io := (um_io u)\<lparr>ft := f1\<rparr>\<rparr>)
      | (Ok a, f1) \<Rightarrow>
          let u1 = u\<lparr>um_io := (um_io u)\<lparr>ft := f1\<rparr>\<rparr>; lx = ax_to_linux (PE S); fsy = fs (pfs (um_io u1));
              (r, u2) = (case arc_get (objs f1) a of
                  Some (File f) \<Rightarrow>
                    (case file_get_attr (VO S) (of_inner f) fsy of
                       Err e \<Rightarrow> (Err (lx e), u1)
                     | Panic \<Rightarrow> (Panic, u1)
                     | Ok attr \<Rightarrow>
                         let file_size = unat (attr_size attr)
                         in if sint offset < 0 \<or> file_size \<le> unat offset then (Err EINVAL, u1)
                            else let n = min len (file_size - unat offset)
                                 in case file_read_at (VO S) (of_inner f) offset n fsy of
                                      Err e \<Rightarrow> (Err (lx e), u1)
                                    | Panic \<Rightarrow> (Panic, u1)
                                    | Ok bytes \<Rightarrow> on_as lx (as_write E start_addr (bytes @ replicate (n - length bytes) 0)) u1)
                | _ \<Rightarrow> (Panic, u1))
          in (r, u2\<lparr>um_io := (um_io u2)\<lparr>ft := drop_file a (ft (um_io u2))\<rparr>\<rparr>))"

text \<open>Where the mapping goes.\<close>

definition mmap_place ::
  "('ms, 'pt, 'al) mm_env \<Rightarrow> (AxError \<Rightarrow> LinuxError) \<Rightarrow> mm_abi \<Rightarrow> u32 \<Rightarrow> nat \<Rightarrow> nat
   \<Rightarrow> (('ms, 'pt, 'al, 't, 'n, 'f, 'w, 's, 'c) ums, LinuxError, nat) io" where
  "mmap_place E lx A map_flags start aligned_length =
     (if bits_contain map_flags (MAP_FIXED A)
      then if start = 0 then errS EINVAL
           else bindS (on_as lx (as_unmap E start aligned_length)) (\<lambda>_. okS start)
      else getS (\<lambda>u. let s = um_as u; limit = va_range s
                     in ok_or ENOMEM (case find_free_area E start aligned_length limit s of
                          Some a \<Rightarrow> Some a
                        | None \<Rightarrow> find_free_area E (fst (va_range s)) aligned_length limit s)))"

definition sys_mmap ::
  "('ms, 'pt, 'al) mm_env \<Rightarrow> ('t, 'n, 'f, 'w, 's, 'c) sysenv \<Rightarrow> mm_abi \<Rightarrow> nat \<Rightarrow> usize \<Rightarrow> usize \<Rightarrow> u32 \<Rightarrow> u32 \<Rightarrow> i32 \<Rightarrow> i64
   \<Rightarrow> (('ms, 'pt, 'al, 't, 'n, 'f, 'w, 's, 'c) ums, LinuxError, i64) io" where
  "sys_mmap E S A c addr len prot flags fd offset =
     (let lx = ax_to_linux (PE S); permission_flags = prot AND MmapProt A; map_flags = flags AND MmapFlags A;
          start = align_down_4k (VA E) (unat addr); end_addr = align_up_4k (VA E) (unat (addr + len));
          aligned_length = wsub end_addr start;
          populate = (if fd = - 1 then False else \<not> bits_contain map_flags (MAP_ANONYMOUS A))
      in bindS (mmap_place E lx A map_flags start aligned_length) (\<lambda>start_addr.
         bindS (on_as lx (map_alloc E start_addr aligned_length (prot_to_flags A permission_flags) populate)) (\<lambda>_.
         bindS (if populate then mmap_file E S c fd offset (unat len) start_addr else okS ()) (\<lambda>_.
           okS (of_nat start_addr)))))"

definition sys_munmap ::
  "('ms, 'pt, 'al) mm_env \<Rightarrow> (AxError \<Rightarrow> LinuxError) \<Rightarrow> usize \<Rightarrow> usize
   \<Rightarrow> (('ms, 'pt, 'al, 't, 'n, 'f, 'w, 's, 'c) ums, LinuxError, i64) io" where
  "sys_munmap E lx addr len =
     bindS (on_as lx (as_unmap E (unat addr) (align_up_4k (VA E) (unat len)))) (\<lambda>_. okS 0)"

definition sys_mprotect ::
  "('ms, 'pt, 'al) mm_env \<Rightarrow> (AxError \<Rightarrow> LinuxError) \<Rightarrow> mm_abi \<Rightarrow> usize \<Rightarrow> usize \<Rightarrow> u32
   \<Rightarrow> (('ms, 'pt, 'al, 't, 'n, 'f, 'w, 's, 'c) ums, LinuxError, i64) io" where
  "sys_mprotect E lx A addr len prot =
     (if prot AND NOT (MmapProt A) \<noteq> 0 then errS EINVAL
      else if bits_contain prot (PROT_GROWSDOWN A OR PROT_GROWSUP A) then errS EINVAL
      else bindS (on_as lx (as_protect E (unat addr) (align_up_4k (VA E) (unat len)) (prot_to_flags A prot))) (\<lambda>_. okS 0))"

text \<open>The heap of a process: \<open>heap_bottom\<close> and \<open>heap_top\<close> of its data.\<close>

record heap =
  heap_bottom :: usize
  heap_top :: usize

definition sys_brk :: "usize \<Rightarrow> usize \<Rightarrow> heap \<Rightarrow> i64 LinuxResult \<times> heap" where
  "sys_brk user_heap_size addr h =
     (if addr \<noteq> 0 \<and> heap_bottom h \<le> addr \<and> addr \<le> heap_bottom h + user_heap_size
      then (Ok addr, h\<lparr>heap_top := addr\<rparr>)
      else (Ok (heap_top h), h))"

section \<open>Page faults of the kernel and of user code\<close>

datatype fault = Unhandled | Handled | Killed

definition trap_page_fault ::
  "('ms, 'pt, 'al) mm_env \<Rightarrow> nat \<Rightarrow> MappingFlags \<Rightarrow> bool \<Rightarrow> bool \<Rightarrow> ('ms, 'pt, 'al) AddrSpace \<Rightarrow> fault \<times> ('ms, 'pt, 'al) AddrSpace" where
  "trap_page_fault E vaddr access_flags is_user accessing_user_memory s =
     (if \<not> is_user \<and> \<not> accessing_user_memory then (Unhandled, s)
      else let (ok, s1) = handle_page_fault E vaddr access_flags s in (if ok then Handled else Killed, s1))"

text \<open>
  A volatile read of \<open>w\<close> bytes at a user address while \<open>access_user_memory\<close> is in force: a page that is not
  mapped traps; \<open>None\<close> says that the task exits.
\<close>

definition user_bytes :: "('ms, 'pt, 'al) mm_env \<Rightarrow> ('ms, 'pt, 'al) AddrSpace \<Rightarrow> nat \<Rightarrow> nat \<Rightarrow> u8 list" where
  "user_bytes E s v w = map (\<lambda>i. mem (as_m s) (byte_addr E (pt (as_m s)) (v + i))) [0..<w]"

definition read_user ::
  "('ms, 'pt, 'al) mm_env \<Rightarrow> nat \<Rightarrow> nat \<Rightarrow> ('ms, 'pt, 'al) AddrSpace \<Rightarrow> (u8 list \<times> ('ms, 'pt, 'al) AddrSpace) option" where
  "read_user E v w s =
     (if mapped E (pt (as_m s)) v then Some (user_bytes E s v w, s)
      else case trap_page_fault E v {F_READ} False True s of
             (Handled, s1) \<Rightarrow> Some (user_bytes E s1 v w, s1)
           | _ \<Rightarrow> None)"

section \<open>Checked user pointers\<close>

definition UserPtr_ACCESS_FLAGS :: MappingFlags where
  "UserPtr_ACCESS_FLAGS = {F_READ, F_WRITE}"

definition UserConstPtr_ACCESS_FLAGS :: MappingFlags where
  "UserConstPtr_ACCESS_FLAGS = {F_READ}"

definition check_region ::
  "('ms, 'pt, 'al) mm_env \<Rightarrow> (AxError \<Rightarrow> LinuxError) \<Rightarrow> usize \<Rightarrow> usize \<Rightarrow> nat \<Rightarrow> MappingFlags
   \<Rightarrow> (('ms, 'pt, 'al) AddrSpace, LinuxError, unit) io" where
  "check_region E lx start align sz access_flags s =
     (if start AND (align - 1) \<noteq> 0 then (Err EFAULT, s)
      else case from_start_size (VA E) (unat start) sz of
             None \<Rightarrow> (Panic, s)
           | Some r \<Rightarrow>
               if \<not> check_region_access E s r access_flags then (Err EFAULT, s)
               else let page_start = align_down_4k (VA E) (unat start);
                        page_end = align_up_4k (VA E) (unat start + sz);
                        (x, s1) = populate_area E page_start (wsub page_end page_start) s
                    in (map_err lx x, s1))"

text \<open>The loop of \<open>check_null_terminated\<close> over the pages up to \<open>ptr\<close>.\<close>

function check_pages ::
  "('ms, 'pt, 'al) mm_env \<Rightarrow> ('ms, 'pt, 'al) AddrSpace \<Rightarrow> MappingFlags \<Rightarrow> nat \<Rightarrow> nat \<Rightarrow> nat LinuxResult" where
  "check_pages E s access_flags ptr page =
     (if page \<le> ptr
      then case from_start_size (VA E) page 4096 of
             None \<Rightarrow> Panic
           | Some r \<Rightarrow> if check_region_access E s r access_flags then check_pages E s access_flags ptr (page + 4096)
                       else Err EFAULT
      else Ok page)"
  by auto
termination by (relation "measure (\<lambda>(_, _, _, ptr, page). Suc ptr - page)") auto

declare check_pages.simps [simp del]

text \<open>The loop over the elements of \<open>w\<close> bytes, for a number of rounds.\<close>

datatype 'a outcome = Ret 'a | Exited | Running

fun null_terminated_loop ::
  "nat \<Rightarrow> ('ms, 'pt, 'al) mm_env \<Rightarrow> MappingFlags \<Rightarrow> nat \<Rightarrow> nat \<Rightarrow> nat \<Rightarrow> nat \<Rightarrow> ('ms, 'pt, 'al) AddrSpace
   \<Rightarrow> (nat LinuxResult \<times> ('ms, 'pt, 'al) AddrSpace) outcome" where
  "null_terminated_loop 0 E access_flags w start page len s = Running"
| "null_terminated_loop (Suc n) E access_flags w start page len s =
     (case check_pages E s access_flags (start + len * w) page of
        Err e \<Rightarrow> Ret (Err e, s)
      | Panic \<Rightarrow> Ret (Panic, s)
      | Ok page1 \<Rightarrow>
          (case read_user E (start + len * w) w s of
             None \<Rightarrow> Exited
           | Some (bs, s1) \<Rightarrow>
               if \<forall>b \<in> set bs. b = 0 then Ret (Ok len, s1)
               else null_terminated_loop n E access_flags w start page1 (Suc len) s1))"

definition check_null_terminated ::
  "nat \<Rightarrow> ('ms, 'pt, 'al) mm_env \<Rightarrow> usize \<Rightarrow> nat \<Rightarrow> MappingFlags \<Rightarrow> ('ms, 'pt, 'al) AddrSpace
   \<Rightarrow> (nat LinuxResult \<times> ('ms, 'pt, 'al) AddrSpace) outcome" where
  "check_null_terminated fuel E start w access_flags s =
     (if start AND (of_nat w - 1) \<noteq> 0 then Ret (Err EFAULT, s)
      else null_terminated_loop fuel E access_flags w (unat start) (align_down_4k (VA E) (unat start)) 0 s)"

text \<open>
  The methods of \<open>UserPtr\<close> and \<open>UserConstPtr\<close> for elements of \<open>w\<close> bytes aligned to \<open>align\<close>. An array may occupy
  \<open>isize::MAX\<close> bytes at most, or its layout cannot be built.
\<close>

definition layout_array :: "nat \<Rightarrow> nat \<Rightarrow> nat \<Rightarrow> nat option" where
  "layout_array w align len = (if 2 ^ 63 - 1 < len * w + (align - 1) then None else Some (len * w))"

definition get_as_mut ::
  "('ms, 'pt, 'al) mm_env \<Rightarrow> (AxError \<Rightarrow> LinuxError) \<Rightarrow> nat \<Rightarrow> nat \<Rightarrow> usize \<Rightarrow> (('ms, 'pt, 'al) AddrSpace, LinuxError, unit) io" where
  "get_as_mut E lx w align p = check_region E lx p (of_nat align) w UserPtr_ACCESS_FLAGS"

definition get_as_mut_slice ::
  "('ms, 'pt, 'al) mm_env \<Rightarrow> (AxError \<Rightarrow> LinuxError) \<Rightarrow> nat \<Rightarrow> nat \<Rightarrow> usize \<Rightarrow> nat \<Rightarrow> (('ms, 'pt, 'al) AddrSpace, LinuxError, unit) io" where
  "get_as_mut_slice E lx w align p len =
     (case layout_array w align len of
        None \<Rightarrow> panicS
      | Some n \<Rightarrow> check_region E lx p (of_nat align) n UserPtr_ACCESS_FLAGS)"

definition get_as_mut_null_terminated ::
  "nat \<Rightarrow> ('ms, 'pt, 'al) mm_env \<Rightarrow> nat \<Rightarrow> usize \<Rightarrow> ('ms, 'pt, 'al) AddrSpace
   \<Rightarrow> (nat LinuxResult \<times> ('ms, 'pt, 'al) AddrSpace) outcome" where
  "get_as_mut_null_terminated fuel E w p = check_null_terminated fuel E p w UserPtr_ACCESS_FLAGS"

definition get_as_ref ::
  "('ms, 'pt, 'al) mm_env \<Rightarrow> (AxError \<Rightarrow> LinuxError) \<Rightarrow> nat \<Rightarrow> nat \<Rightarrow> usize \<Rightarrow> (('ms, 'pt, 'al) AddrSpace, LinuxError, unit) io" where
  "get_as_ref E lx w align p = check_region E lx p (of_nat align) w UserConstPtr_ACCESS_FLAGS"

definition get_as_slice ::
  "('ms, 'pt, 'al) mm_env \<Rightarrow> (AxError \<Rightarrow> LinuxError) \<Rightarrow> nat \<Rightarrow> nat \<Rightarrow> usize \<Rightarrow> nat \<Rightarrow> (('ms, 'pt, 'al) AddrSpace, LinuxError, unit) io" where
  "get_as_slice E lx w align p len =
     (case layout_array w align len of
        None \<Rightarrow> panicS
      | Some n \<Rightarrow> check_region E lx p (of_nat align) n UserConstPtr_ACCESS_FLAGS)"

definition get_as_null_terminated ::
  "nat \<Rightarrow> ('ms, 'pt, 'al) mm_env \<Rightarrow> nat \<Rightarrow> usize \<Rightarrow> ('ms, 'pt, 'al) AddrSpace
   \<Rightarrow> (nat LinuxResult \<times> ('ms, 'pt, 'al) AddrSpace) outcome" where
  "get_as_null_terminated fuel E w p = check_null_terminated fuel E p w UserConstPtr_ACCESS_FLAGS"

definition get_as_str ::
  "nat \<Rightarrow> ('ms, 'pt, 'al) mm_env \<Rightarrow> (u8 list \<Rightarrow> bool) \<Rightarrow> usize \<Rightarrow> ('ms, 'pt, 'al) AddrSpace
   \<Rightarrow> (u8 list LinuxResult \<times> ('ms, 'pt, 'al) AddrSpace) outcome" where
  "get_as_str fuel E valid_utf8 p s =
     (case get_as_null_terminated fuel E 1 p s of
        Running \<Rightarrow> Running
      | Exited \<Rightarrow> Exited
      | Ret (Err e, s1) \<Rightarrow> Ret (Err e, s1)
      | Ret (Panic, s1) \<Rightarrow> Ret (Panic, s1)
      | Ret (Ok len, s1) \<Rightarrow>
          let bs = user_bytes E s1 (unat p) len in Ret (if valid_utf8 bs then Ok bs else Err EILSEQ, s1))"

text \<open>The \<open>nullable!\<close> macro.\<close>

definition nullable :: "usize \<Rightarrow> ('s, LinuxError, 'a) io \<Rightarrow> ('s, LinuxError, 'a option) io" where
  "nullable p f = (if p = 0 then okS None else bindS f (\<lambda>x. okS (Some x)))"

section \<open>A checked region is accessible\<close>

lemma area_unique:
  assumes "areas_ok as" "a \<in> set as" "b \<in> set as" "covers a x" "covers b x"
  shows "a = b"
  using assms by (induction as) (auto simp: covers_def)

lemma wsub_le: "b \<le> a \<Longrightarrow> a < 2 ^ 64 \<Longrightarrow> wsub a b = a - b"
  by (simp add: wsub_def mod_if)

lemma covers_page:
  assumes "area_aligned a" "covers a (x - x mod 4096)"
  shows "covers a x"
proof -
  have "ar_end a mod 4096 = 0" using assms(1) mod_add_eq[of "ar_start a" 4096 "ar_size a"] by (simp add: area_aligned_def ar_end_def)
  then obtain k where k: "ar_end a = 4096 * k" by (auto simp: mod_eq_0_iff_dvd dvd_def)
  have "x - x mod 4096 = 4096 * (x div 4096)" by (simp add: minus_mod_eq_mult_div)
  then have "x div 4096 < k" using assms(2) k by (simp add: covers_def)
  then have "x < 4096 * k" by (metis div_less_iff_less_mult zero_less_numeral mult.commute)
  then show ?thesis using assms(2) k by (auto simp: covers_def)
qed


lemma ex_as2_areas:
  "ms_iter (MS (ex_mm 8)) (areas ex_as2) = areas ex_as" "areas_ok (areas ex_as)" "\<forall>a \<in> set (areas ex_as). area_aligned a"
  by (auto simp: ex_mm_def ex_ms_def ex_as2_def ex_as_def ar_end_def area_aligned_def)


section \<open>Strings from user space\<close>

definition accessible :: "('ms, 'pt, 'al) mm_env \<Rightarrow> ('ms, 'pt, 'al) AddrSpace \<Rightarrow> MappingFlags \<Rightarrow> nat \<Rightarrow> bool" where
  "accessible E s fl x \<longleftrightarrow> (\<exists>a \<in> set (ms_iter (MS E) (areas s)). covers a x \<and> fl \<subseteq> ar_flags a)"

lemma check_pages_Ok:
  assumes va: "va_laws (VA E)" and ok: "areas_ok (ms_iter (MS E) (areas s))"
  shows "check_pages E s fl ptr page = Ok page' \<Longrightarrow> ptr < page' \<and> page \<le> page' \<and> (\<forall>x. page \<le> x \<and> x < page' \<longrightarrow> accessible E s fl x)"
proof (induction "Suc ptr - page" arbitrary: page rule: less_induct)
  case less
  show ?case
  proof (cases "page \<le> ptr")
    case True
    from less.prems True obtain r where r: "from_start_size (VA E) page 4096 = Some r" "check_region_access E s r fl"
      "check_pages E s fl ptr (page + 4096) = Ok page'"
      by (subst (asm) check_pages.simps) (auto split: option.splits if_splits)
    have "r = (page, page + 4096)" using r(1) va_lawsD(5,6)[OF va, of page 4096] by (cases "page + 4096 < 2 ^ 64") auto
    then have "\<forall>x. page \<le> x \<and> x < page + 4096 \<longrightarrow> accessible E s fl x"
      using r(2) check_region_loop_iff[OF ok, of page "page + 4096" fl] by (simp add: check_region_access_def accessible_def)
    moreover have "ptr < page' \<and> page + 4096 \<le> page' \<and> (\<forall>x. page + 4096 \<le> x \<and> x < page' \<longrightarrow> accessible E s fl x)"
      using less.hyps[OF _ r(3)] True by simp
    ultimately show ?thesis using not_le by auto
  next
    case False
    then show ?thesis using less.prems by (auto simp: check_pages.simps)
  qed
qed

lemma element_in_page:
  fixes v w :: nat
  assumes "0 < w" "w dvd 4096" "v mod w = 0"
  shows "v mod 4096 + w \<le> 4096"
proof -
  obtain k where k: "4096 = w * k" using assms(2) by (auto simp: dvd_def)
  have "w dvd v mod 4096" using assms(2,3) by (simp add: dvd_mod mod_0_imp_dvd)
  then obtain j where j: "v mod 4096 = w * j" by (auto simp: dvd_def)
  have "w * j < w * k" using j k mod_less_divisor[of 4096 v] by linarith
  then have "j < k" by simp
  then have "w * Suc j \<le> w * k" by (intro mult_le_mono2) simp
  then show ?thesis using j k by simp
qed

lemma read_user_cases:
  assumes laws: "mm_laws E used" and run: "read_user E v w s = Some (bs, s')" and page: "v mod 4096 + w \<le> 4096"
  shows "bs = user_bytes E s' v w" "areas s' = areas s" "s' = s \<and> mapped E (pt (as_m s)) v \<or> (\<forall>b \<in> set bs. b = 0)"
proof -
  show bs: "bs = user_bytes E s' v w"
    using run by (auto simp: read_user_def split: if_splits prod.splits fault.splits)
  have "areas s' = areas s \<and> (s' = s \<and> mapped E (pt (as_m s)) v \<or> (\<forall>b \<in> set bs. b = 0))"
  proof (cases "mapped E (pt (as_m s)) v")
    case True
    then have "s' = s" using run by (simp add: read_user_def)
    then show ?thesis using True by auto
  next
    case False
    then have pf: "handle_page_fault E v {F_READ} s = (True, s')"
      using run by (auto simp: read_user_def trap_page_fault_def split: prod.splits if_splits fault.splits)
    obtain a f where "a \<in> set (ms_iter (MS E) (areas s))" "covers a v" "{F_READ} \<subseteq> ar_flags a" "ar_backend a = Alloc False"
      "phys_to_virt E f \<notin> used (al (as_m s))" and c: "f mod 4096 = 0"
      "\<forall>x. pt_query (PT E) (pt (as_m s')) x =
         (if x div 4096 = v div 4096 then Ok (f + x mod 4096, ar_flags a) else pt_query (PT E) (pt (as_m s)) x)"
      "mem (as_m s') = write_zero (phys_to_virt E f) (mem (as_m s))" "phys_to_virt E f mod 4096 = 0" "areas s' = areas s"
      by (rule handle_page_fault_cases[OF laws pf])
    have "mem (as_m s') (byte_addr E (pt (as_m s')) (v + i)) = 0" if "i < w" for i
    proof -
      define d where "d = v mod 4096"
      have v: "v + i = 4096 * (v div 4096) + (d + i)" "d + i < 4096" using that page by (simp_all add: d_def)
      then have m: "(v + i) mod 4096 = d + i" by (metis mod_less mod_mult_self4)
      then have "v + i - (v + i) mod 4096 = 4096 * (v div 4096)" using v(1) by linarith
      then have "byte_addr E (pt (as_m s')) (v + i) = phys_to_virt E f + (d + i)"
        by (simp add: byte_addr_def c(2) m phys_to_virt_def)
      then show ?thesis using v(2) by (simp add: c(3) write_zero_def)
    qed
    then show ?thesis using c(5) by (auto simp: bs user_bytes_def)
  qed
  then show "areas s' = areas s" "s' = s \<and> mapped E (pt (as_m s)) v \<or> (\<forall>b \<in> set bs. b = 0)" by simp_all
qed

text \<open>The loop does not run for longer than there are addresses below the end of the last area.\<close>

lemma null_terminated_loop_returns:
  assumes laws: "mm_laws E used" and w: "0 < w" "w dvd 4096" "start mod w = 0"
    and B: "\<forall>a \<in> set (ms_iter (MS E) (areas s)). ar_end a \<le> B"
  shows "areas_ok (ms_iter (MS E) (areas s)) \<Longrightarrow> \<forall>x. start \<le> x \<and> x < page \<longrightarrow> accessible E s fl x \<Longrightarrow>
    B - (start + len * w) < n \<Longrightarrow> null_terminated_loop n E fl w start page len s \<noteq> Running"
  using B
proof (induction n arbitrary: page len s)
  case (Suc n)
  have va: "va_laws (VA E)" using laws by (simp add: mm_laws_def)
  let ?p = "start + len * w"
  show ?case
  proof (cases "check_pages E s fl ?p page")
    case (Ok page1)
    note pg = check_pages_Ok[OF va Suc.prems(1) Ok]
    then have all: "\<forall>x. start \<le> x \<and> x < page1 \<longrightarrow> accessible E s fl x" using Suc.prems(2) by (meson not_le)
    then have "accessible E s fl ?p" using pg by simp
    then have lt: "?p < B" using Suc.prems(4) by (auto simp: accessible_def covers_def)
    show ?thesis
    proof (cases "read_user E ?p w s")
      case (Some z)
      obtain bs s1 where z: "z = (bs, s1)" by (cases z)
      have "?p mod w = 0" using w(3) by simp
      then have "?p mod 4096 + w \<le> 4096" by (rule element_in_page[OF w(1,2)])
      note rd = read_user_cases[OF laws Some[unfolded z] this]
      show ?thesis
      proof (cases "\<forall>b \<in> set bs. b = 0")
        case False
        have "B - (start + Suc len * w) < n" using Suc.prems(3) lt w(1) by simp
        then have "null_terminated_loop n E fl w start page1 (Suc len) s1 \<noteq> Running"
          using Suc.IH[of s1 page1 "Suc len"] Suc.prems(1,4) all rd(2) by (simp add: accessible_def)
        then show ?thesis using Ok Some z False by simp
      qed (use Ok Some z in simp)
    qed (use Ok in simp)
  qed simp_all
qed simp

lemma null_terminated_loop_Ok:
  assumes laws: "mm_laws E used" and w: "0 < w" "w dvd 4096" "start mod w = 0"
  shows "null_terminated_loop n E fl w start page len s = Ret (Ok m, s') \<Longrightarrow> areas_ok (ms_iter (MS E) (areas s)) \<Longrightarrow>
    \<forall>x. start \<le> x \<and> x < page \<longrightarrow> accessible E s fl x \<Longrightarrow>
    len \<le> m \<and> areas s' = areas s \<and> (\<forall>x. start \<le> x \<and> x \<le> start + m * w \<longrightarrow> accessible E s fl x) \<and>
    (\<forall>i. len \<le> i \<and> i < m \<longrightarrow> mapped E (pt (as_m s)) (start + i * w) \<and> (\<exists>b \<in> set (user_bytes E s (start + i * w) w). b \<noteq> 0)) \<and>
    (\<forall>b \<in> set (user_bytes E s' (start + m * w) w). b = 0)"
proof (induction n arbitrary: page len s)
  case (Suc n)
  have va: "va_laws (VA E)" using laws by (simp add: mm_laws_def)
  let ?p = "start + len * w"
  from Suc.prems(1) obtain page1 bs s1 where st: "check_pages E s fl ?p page = Ok page1" "read_user E ?p w s = Some (bs, s1)"
    by (auto split: result.splits option.splits)
  have st3: "if \<forall>b \<in> set bs. b = 0 then m = len \<and> s' = s1 else null_terminated_loop n E fl w start page1 (Suc len) s1 = Ret (Ok m, s')"
    using Suc.prems(1) by (auto simp: st split: if_splits)
  note pg = check_pages_Ok[OF va Suc.prems(2) st(1)]
  then have all: "\<forall>x. start \<le> x \<and> x < page1 \<longrightarrow> accessible E s fl x" using Suc.prems(3) by (meson not_le)
  have "?p mod w = 0" using w(3) by simp
  then have "?p mod 4096 + w \<le> 4096" by (rule element_in_page[OF w(1,2)])
  note rd = read_user_cases[OF laws st(2) this]
  show ?case
  proof (cases "\<forall>b \<in> set bs. b = 0")
    case True
    then have "m = len" "s' = s1" using st3 by simp_all
    then show ?thesis using True rd(1,2) all pg by auto
  next
    case False
    then have same: "s1 = s" "mapped E (pt (as_m s)) ?p" using rd(3) by blast+
    then have run: "null_terminated_loop n E fl w start page1 (Suc len) s = Ret (Ok m, s')" using st3 False by simp
    note IH = Suc.IH[OF run Suc.prems(2) all]
    have here: "mapped E (pt (as_m s)) (start + i * w) \<and> (\<exists>b \<in> set (user_bytes E s (start + i * w) w). b \<noteq> 0)"
      if "len \<le> i \<and> i < m" for i
    proof (cases "i = len")
      case True
      then show ?thesis using same False rd(1) by auto
    qed (use IH that in simp)
    then show ?thesis using IH by simp
  qed
qed simp

lemma aligned_mod:
  fixes x :: usize
  assumes "k \<le> 12"
  shows "x AND (of_nat (2 ^ k) - 1) = 0 \<longleftrightarrow> unat x mod 2 ^ k = 0"
proof -
  have "x AND (of_nat (2 ^ k) - 1) = take_bit k x" by (simp add: take_bit_eq_mask mask_eq_exp_minus_1)
  moreover have "unat (take_bit k x) = unat x mod 2 ^ k" by (simp only: unsigned_take_bit_eq) (simp add: take_bit_eq_mod)
  ultimately show ?thesis by (simp flip: unat_eq_0)
qed

text \<open>
  C23: The scan for the terminator of a string or pointer array in user memory ends: as many rounds as
  there are addresses below the end of the last area are enough, whatever is in memory. When it returns a
  length, every address up to the terminator is accessible with the flags asked for, no earlier element
  is zero, the element at that index is zero, and only the terminator may have been paged in.\<close>

theorem check_null_terminated_correct:
  assumes laws: "mm_laws E used" and ok: "areas_ok (ms_iter (MS E) (areas s))" and k: "k \<le> 12"
    and B: "\<forall>a \<in> set (ms_iter (MS E) (areas s)). ar_end a \<le> B"
  shows "(B < n \<longrightarrow> check_null_terminated n E start (2 ^ k) fl s \<noteq> Running) \<and>
    (\<forall>m s'. check_null_terminated n E start (2 ^ k) fl s = Ret (Ok m, s') \<longrightarrow>
      areas s' = areas s \<and> (\<forall>x. unat start \<le> x \<and> x \<le> unat start + m * 2 ^ k \<longrightarrow> accessible E s fl x) \<and>
      (\<forall>i < m. mapped E (pt (as_m s)) (unat start + i * 2 ^ k) \<and>
         (\<exists>b \<in> set (user_bytes E s (unat start + i * 2 ^ k) (2 ^ k)). b \<noteq> 0)) \<and>
      (\<forall>b \<in> set (user_bytes E s' (unat start + m * 2 ^ k) (2 ^ k)). b = 0))"
proof (cases "unat start mod 2 ^ k = 0")
  case False
  then show ?thesis unfolding check_null_terminated_def using aligned_mod[OF k, of start] by simp
next
  case True
  have va: "va_laws (VA E)" using laws by (simp add: mm_laws_def)
  have w: "0 < (2 ^ k :: nat)" "2 ^ k dvd (4096 :: nat)"
    using k le_imp_power_dvd[of k 12 "2 :: nat"] by simp_all
  have run: "check_null_terminated n E start (2 ^ k) fl s =
    null_terminated_loop n E fl (2 ^ k) (unat start) (unat start - unat start mod 4096) 0 s"
    unfolding check_null_terminated_def using aligned_mod[OF k, of start] True by (simp add: va_lawsD(1)[OF va])
  have none: "\<forall>x. unat start \<le> x \<and> x < unat start - unat start mod 4096 \<longrightarrow> accessible E s fl x" by auto
  show ?thesis
    using null_terminated_loop_returns[OF laws w True B ok none, of 0 n]
      null_terminated_loop_Ok[OF laws w True _ ok none] unfolding run by auto
qed

theorem check_null_terminated_correct_witness:
  "check_null_terminated 20000 (ex_mm 8) 4096 (2 ^ 0) {F_READ} ex_as2 \<noteq> Running"
proof -
  have A: "areas_ok (ms_iter (MS (ex_mm 8)) (areas ex_as2))" using ex_as2_areas by simp
  have B: "\<forall>a \<in> set (ms_iter (MS (ex_mm 8)) (areas ex_as2)). ar_end a \<le> 16384"
    unfolding ex_as2_areas(1) by (simp add: ex_as_def ar_end_def)
  note terminates = conjunct1[OF check_null_terminated_correct[OF ex_mm_laws A le0 B]]
  show ?thesis by (rule mp[OF terminates]) simp
qed

section \<open>Mappings\<close>

lemma on_as_Ok [ok_iff]:
  "on_as lx f u = (Ok x, u') \<longleftrightarrow> (\<exists>s. f (um_as u) = (Ok x, s) \<and> u' = u\<lparr>um_as := s\<rparr>)"
  by (auto simp: on_as_def Let_def ok_iff split: prod.splits)

lemma map_alloc_Ok:
  assumes laws: "mm_laws E used" and run: "map_alloc E start sz fl pop s = (Ok (), s')"
  shows "start mod 4096 = 0" "sz mod 4096 = 0" "start + sz < 2 ^ 64" "in_range s start sz" "va_range s' = va_range s"
    "set (ms_iter (MS E) (areas s')) =
       insert \<lparr>ar_start = start, ar_size = sz, ar_flags = fl, ar_backend = Alloc pop\<rparr> (set (ms_iter (MS E) (areas s)))"
proof -
  have va: "va_laws (VA E)" and ml: "ms_laws (MS E)" using laws by (simp_all add: mm_laws_def)
  let ?a = "\<lparr>ar_start = start, ar_size = sz, ar_flags = fl, ar_backend = Alloc pop\<rparr>"
  from run have v: "validate_region E s start sz = Ok ()"
    and m: "on_areas (ms_map (MS E) (backend_map E) ?a) s = (Ok (), s')"
    by (auto simp: map_alloc_def ok_iff)
  from m obtain ms m1 where call: "ms_map (MS E) (backend_map E) ?a (areas s) (as_m s) = (Ok (), ms, m1)"
    "s' = s\<lparr>areas := ms, as_m := m1\<rparr>"
    by (auto simp: on_areas_def Let_def ok_iff split: prod.splits)
  show "start + sz < 2 ^ 64"
    using v va_lawsD(6)[OF va, of start sz]
    by (auto simp: validate_region_def as_contains_range_def ok_iff split: option.splits)
  then show "start mod 4096 = 0" "sz mod 4096 = 0" "in_range s start sz"
    using v by (auto simp: validate_region_def as_contains_range_def ok_iff va_lawsD(3,5,7)[OF va] in_range_def split: if_splits)
  show "va_range s' = va_range s" using call(2) by simp
  show "set (ms_iter (MS E) (areas s')) = insert ?a (set (ms_iter (MS E) (areas s)))"
    using ml call unfolding ms_laws_def by auto
qed

lemma mmap_file_areas: "areas (um_as (snd (mmap_file E S c fd offset len start u))) = areas (um_as u)"
  "va_range (um_as (snd (mmap_file E S c fd offset len start u))) = va_range (um_as u)"
  by (auto simp: mmap_file_def on_as_def as_write_def Let_def split: prod.splits result.splits option.splits FileLike.splits)

lemma mmap_place_Ok:
  "mmap_place E lx A mf start n u = (Ok x, u') \<Longrightarrow> bits_contain mf (MAP_FIXED A) \<Longrightarrow> x = start"
  by (auto simp: mmap_place_def ok_iff split: if_splits)

lemma mmap_steps:
  assumes "sys_mmap E S A c addr len prot flags fd offset u = (Ok a, u')"
  obtains start_addr s1 s2 where
    "bits_contain (flags AND MmapFlags A) (MAP_FIXED A) \<longrightarrow> start_addr = align_down_4k (VA E) (unat addr)"
    "map_alloc E start_addr (wsub (align_up_4k (VA E) (unat (addr + len))) (align_down_4k (VA E) (unat addr)))
       (prot_to_flags A (prot AND MmapProt A)) (fd \<noteq> - 1 \<and> \<not> bits_contain (flags AND MmapFlags A) (MAP_ANONYMOUS A)) s1 = (Ok (), s2)"
    "areas (um_as u') = areas s2" "va_range (um_as u') = va_range s2" "a = of_nat start_addr"
proof -
  define pop n mf st where d: "pop = (fd \<noteq> - 1 \<and> \<not> bits_contain (flags AND MmapFlags A) (MAP_ANONYMOUS A))"
    "n = wsub (align_up_4k (VA E) (unat (addr + len))) (align_down_4k (VA E) (unat addr))"
    "mf = flags AND MmapFlags A" "st = align_down_4k (VA E) (unat addr)"
  have "(if fd = - 1 then False else \<not> bits_contain (flags AND MmapFlags A) (MAP_ANONYMOUS A)) = pop" by (simp add: d)
  with assms have "bindS (mmap_place E (ax_to_linux (PE S)) A mf st n) (\<lambda>x.
      bindS (on_as (ax_to_linux (PE S)) (map_alloc E x n (prot_to_flags A (prot AND MmapProt A)) pop)) (\<lambda>_.
      bindS (if pop then mmap_file E S c fd offset (unat len) x else okS ()) (\<lambda>_. okS (of_nat x)))) u = (Ok a, u')"
    by (simp only: sys_mmap_def Let_def d(2-))
  then obtain x u1 y u2 z where st: "mmap_place E (ax_to_linux (PE S)) A mf st n u = (Ok x, u1)"
    "on_as (ax_to_linux (PE S)) (map_alloc E x n (prot_to_flags A (prot AND MmapProt A)) pop) u1 = (Ok y, u2)"
    "(if pop then mmap_file E S c fd offset (unat len) x else okS ()) u2 = (Ok z, u')" "a = of_nat x"
    unfolding bindS_Ok_iff io_simps prod.inject result.inject by blast
  have "areas (um_as u') = areas (um_as u2)" "va_range (um_as u') = va_range (um_as u2)"
    using st(3) mmap_file_areas[of E S c fd offset "unat len" x u2] by (cases pop; simp)+
  moreover obtain s2 where "map_alloc E x n (prot_to_flags A (prot AND MmapProt A)) pop (um_as u1) = (Ok (), s2)" "um_as u2 = s2"
    using st(2) by (auto simp: on_as_Ok)
  ultimately show ?thesis using that[of x "um_as u1" s2] mmap_place_Ok[OF st(1)] st(4) by (simp add: d)
qed


definition linux_mm_abi :: mm_abi where
  "linux_mm_abi = \<lparr>PROT_READ = 1, PROT_WRITE = 2, PROT_EXEC = 4, PROT_GROWSDOWN = 0x01000000, PROT_GROWSUP = 0x02000000,
     MAP_SHARED = 1, MAP_PRIVATE = 2, MAP_FIXED = 0x10, MAP_ANONYMOUS = 0x20, MAP_NORESERVE = 0x4000, MAP_STACK = 0x20000\<rparr>"


end
