(* ===== verification/Disk.thy ===== *)
theory Disk
  imports Prelude
begin

text \<open>
  Block devices as byte devices: the cursor of \<open>axfs/src/dev.rs\<close> and the two sets of read, write and seek operations
  on it, for the FAT library (\<open>fs/fatfs.rs\<close>) and for the ext4 library (\<open>fs/lwext4_rust.rs\<close>).

  The device is a driver behind the \<open>axdriver\<close> crate: \<open>blk_ops\<close>, on a state \<open>'d\<close>. What its documentation says of the blocks is
  \<open>blk_laws\<close>, and \<open>blk_reliable\<close> says that accesses to existing blocks succeed. \<open>ram_ops\<close> is a device in memory.
  An access to a slice returns the slice with its new contents.
\<close>

abbreviation BLOCK_SIZE :: nat where "BLOCK_SIZE \<equiv> 512"

text \<open>\<open>read_block\<close> fills a buffer of one block: the byte at each index of it.\<close>

record ('d, 'e) blk_ops =
  block_size :: "'d \<Rightarrow> nat"
  num_blocks :: "'d \<Rightarrow> u64"
  read_block :: "u64 \<Rightarrow> ('d, 'e, nat \<Rightarrow> u8) io"
  write_block :: "u64 \<Rightarrow> u8 list \<Rightarrow> ('d, 'e, unit) io"

section \<open>The disk with a cursor\<close>

record 'd Disk =
  block_id :: u64
  d_offset :: nat
  dev :: 'd

definition disk_new :: "('d, 'e) blk_ops \<Rightarrow> 'd \<Rightarrow> ('e, 'd Disk) result" where
  "disk_new B d = (if BLOCK_SIZE = block_size B d then Ok \<lparr>block_id = 0, d_offset = 0, dev = d\<rparr> else Panic)"

definition disk_size :: "('d, 'e) blk_ops \<Rightarrow> 'd Disk \<Rightarrow> u64" where
  "disk_size B s = num_blocks B (dev s) * 512"

definition position :: "'d Disk \<Rightarrow> u64" where
  "position s = block_id s * 512 + of_nat (d_offset s)"

definition set_position :: "u64 \<Rightarrow> 'd Disk \<Rightarrow> 'd Disk" where
  "set_position pos s = s\<lparr>block_id := pos div 512, d_offset := unat pos mod BLOCK_SIZE\<rparr>"

text \<open>The end of the partial cases of \<open>read_one\<close> and \<open>write_one\<close>: the cursor moves, at most to the start of the next block.\<close>

definition advance :: "nat \<Rightarrow> 'd Disk \<Rightarrow> 'd Disk" where
  "advance k s =
     (let s1 = s\<lparr>d_offset := d_offset s + k\<rparr>
      in if d_offset s1 \<ge> BLOCK_SIZE then s1\<lparr>block_id := block_id s1 + 1, d_offset := d_offset s1 - BLOCK_SIZE\<rparr> else s1)"

definition block_data :: "(nat \<Rightarrow> u8) \<Rightarrow> u8 list" where
  "block_data f = map f [0..<BLOCK_SIZE]"

definition read_one :: "('d, 'e) blk_ops \<Rightarrow> u8 list \<Rightarrow> 'd Disk \<Rightarrow> ('e, nat) result \<times> u8 list \<times> 'd Disk" where
  "read_one B buf s =
     (if d_offset s = 0 \<and> length buf \<ge> BLOCK_SIZE
      then case read_block B (block_id s) (dev s) of
             (Ok f, d) \<Rightarrow> (Ok BLOCK_SIZE, block_data f @ drop BLOCK_SIZE buf, s\<lparr>block_id := block_id s + 1, dev := d\<rparr>)
           | (Err e, d) \<Rightarrow> (Err e, buf, s\<lparr>dev := d\<rparr>)
           | (Panic, d) \<Rightarrow> (Panic, buf, s\<lparr>dev := d\<rparr>)
      else let start = d_offset s; k = min (length buf) (BLOCK_SIZE - d_offset s)
           in case read_block B (block_id s) (dev s) of
                (Ok f, d) \<Rightarrow> (Ok k, take k (drop start (block_data f)) @ drop k buf, advance k (s\<lparr>dev := d\<rparr>))
              | (Err e, d) \<Rightarrow> (Err e, buf, s\<lparr>dev := d\<rparr>)
              | (Panic, d) \<Rightarrow> (Panic, buf, s\<lparr>dev := d\<rparr>))"

definition write_one :: "('d, 'e) blk_ops \<Rightarrow> u8 list \<Rightarrow> 'd Disk \<Rightarrow> ('e, nat) result \<times> 'd Disk" where
  "write_one B buf s =
     (if d_offset s = 0 \<and> length buf \<ge> BLOCK_SIZE
      then case write_block B (block_id s) (take BLOCK_SIZE buf) (dev s) of
             (Ok _, d) \<Rightarrow> (Ok BLOCK_SIZE, s\<lparr>block_id := block_id s + 1, dev := d\<rparr>)
           | (Err e, d) \<Rightarrow> (Err e, s\<lparr>dev := d\<rparr>)
           | (Panic, d) \<Rightarrow> (Panic, s\<lparr>dev := d\<rparr>)
      else let start = d_offset s; k = min (length buf) (BLOCK_SIZE - d_offset s)
           in case read_block B (block_id s) (dev s) of
                (Ok f, d) \<Rightarrow>
                  (let data = take start (block_data f) @ take k buf @ drop (start + k) (block_data f)
                   in case write_block B (block_id s) data d of
                        (Ok _, d') \<Rightarrow> (Ok k, advance k (s\<lparr>dev := d'\<rparr>))
                      | (Err e, d') \<Rightarrow> (Err e, s\<lparr>dev := d'\<rparr>)
                      | (Panic, d') \<Rightarrow> (Panic, s\<lparr>dev := d'\<rparr>))
              | (Err e, d) \<Rightarrow> (Err e, s\<lparr>dev := d\<rparr>)
              | (Panic, d) \<Rightarrow> (Panic, s\<lparr>dev := d\<rparr>))"

definition read_offset :: "('d, 'e) blk_ops \<Rightarrow> nat \<Rightarrow> 'd Disk \<Rightarrow> ('e, u8 list) result \<times> 'd Disk" where
  "read_offset B off s =
     (case read_block B (of_nat (off div BLOCK_SIZE)) (dev s) of
        (Ok f, d) \<Rightarrow> (Ok (block_data f), s\<lparr>dev := d\<rparr>)
      | (_, d) \<Rightarrow> (Panic, s\<lparr>dev := d\<rparr>))"

definition write_offset :: "('d, 'e) blk_ops \<Rightarrow> nat \<Rightarrow> u8 list \<Rightarrow> 'd Disk \<Rightarrow> ('e, nat) result \<times> 'd Disk" where
  "write_offset B off buf s =
     (if length buf \<noteq> BLOCK_SIZE then (Panic, s)
      else if off mod BLOCK_SIZE \<noteq> 0 then (Panic, s)
      else case write_block B (of_nat (off div BLOCK_SIZE)) buf (dev s) of
             (Ok _, d) \<Rightarrow> (Ok (length buf), s\<lparr>dev := d\<rparr>)
           | (_, d) \<Rightarrow> (Panic, s\<lparr>dev := d\<rparr>))"

section \<open>Reading, writing and seeking any number of bytes\<close>

lemma length_block_data [simp]: "length (block_data f) = BLOCK_SIZE"
  by (simp add: block_data_def)

lemma read_one_length: "read_one B buf s = (r, b, s') \<Longrightarrow> length b = length buf"
  by (auto simp: read_one_def Let_def min_def split: if_splits prod.splits result.splits)

text \<open>The loops over a slice, for an error value \<open>x\<close>; what was read stays in the slice.\<close>

function read_loop ::
  "'x \<Rightarrow> ('d, 'e) blk_ops \<Rightarrow> u8 list \<Rightarrow> nat \<Rightarrow> 'd Disk \<Rightarrow> ('x, nat) result \<times> u8 list \<times> 'd Disk" where
  "read_loop x B buf read_len s =
     (if buf = [] then (Ok read_len, [], s)
      else case read_one B buf s of (r, b, s1) \<Rightarrow>
        (case r of
           Ok n \<Rightarrow> if n = 0 then (Ok read_len, b, s1)
                   else (case read_loop x B (drop n b) (read_len + n) s1 of (r', b', s2) \<Rightarrow> (r', take n b @ b', s2))
         | Err e \<Rightarrow> (Err x, b, s1)
         | Panic \<Rightarrow> (Panic, b, s1)))"
  by auto
termination
  by (relation "measure (\<lambda>(_, _, buf, _, _). length buf)")
     (simp, metis (no_types, lifting) read_one_length diff_less in_measure length_drop length_greater_0_conv not_gr_zero split_conv)

function write_loop ::
  "'x \<Rightarrow> ('d, 'e) blk_ops \<Rightarrow> u8 list \<Rightarrow> nat \<Rightarrow> 'd Disk \<Rightarrow> ('x, nat) result \<times> 'd Disk" where
  "write_loop x B buf write_len s =
     (if buf = [] then (Ok write_len, s)
      else case write_one B buf s of (r, s1) \<Rightarrow>
        (case r of
           Ok n \<Rightarrow> if n = 0 then (Ok write_len, s1) else write_loop x B (drop n buf) (write_len + n) s1
         | Err e \<Rightarrow> (Err x, s1)
         | Panic \<Rightarrow> (Panic, s1)))"
  by auto
termination
  by (relation "measure (\<lambda>(_, _, buf, _, _). length buf)") auto

declare read_loop.simps [simp del] write_loop.simps [simp del]

definition fat_read :: "('d, 'e) blk_ops \<Rightarrow> u8 list \<Rightarrow> 'd Disk \<Rightarrow> (unit, nat) result \<times> u8 list \<times> 'd Disk" where
  "fat_read B buf s = read_loop () B buf 0 s"

definition fat_write :: "('d, 'e) blk_ops \<Rightarrow> u8 list \<Rightarrow> 'd Disk \<Rightarrow> (unit, nat) result \<times> 'd Disk" where
  "fat_write B buf s = write_loop () B buf 0 s"

definition ext4_read :: "('d, 'e) blk_ops \<Rightarrow> u8 list \<Rightarrow> 'd Disk \<Rightarrow> (i32, nat) result \<times> u8 list \<times> 'd Disk" where
  "ext4_read B buf s = read_loop (-1) B buf 0 s"

definition ext4_write :: "('d, 'e) blk_ops \<Rightarrow> u8 list \<Rightarrow> 'd Disk \<Rightarrow> (i32, nat) result \<times> 'd Disk" where
  "ext4_write B buf s = write_loop (-1) B buf 0 s"

datatype FatSeekFrom = FatStart u64 | FatCurrent i64 | FatEnd i64

definition fat_seek :: "('d, 'e) blk_ops \<Rightarrow> FatSeekFrom \<Rightarrow> ('d Disk, unit, u64) io" where
  "fat_seek B pos s =
     (case (case pos of FatStart p \<Rightarrow> Some p
                      | FatCurrent off \<Rightarrow> checked_add_signed (position s) off
                      | FatEnd off \<Rightarrow> checked_add_signed (disk_size B s) off) of
        None \<Rightarrow> (Err (), s)
      | Some new_pos \<Rightarrow> (Ok new_pos, set_position new_pos s))"

text \<open>The values of \<open>SEEK_SET\<close>, \<open>SEEK_CUR\<close> and \<open>SEEK_END\<close> are those of the C library.\<close>

definition ext4_seek :: "('d, 'e) blk_ops \<Rightarrow> i64 \<Rightarrow> i32 \<Rightarrow> ('d Disk, i32, i64) io" where
  "ext4_seek B off whence s =
     (case (if whence = 0 then Some off
            else if whence = 1 then checked_add_signed (position s) off
            else if whence = 2 then checked_add_signed (disk_size B s) off
            else Some off) of
        None \<Rightarrow> (Err (-1), s)
      | Some new_pos \<Rightarrow> (Ok new_pos, set_position new_pos s))"

section \<open>The disk as an array of bytes\<close>

text \<open>
  What a block device does, for the contents \<open>C d b\<close> of its block \<open>b\<close>: an access that succeeds is to an existing block, and reads
  or replaces its contents; nothing else changes the contents. The size in bytes of a device fits a \<open>u64\<close>.
\<close>

definition blk_laws :: "('d, 'e) blk_ops \<Rightarrow> ('d \<Rightarrow> nat \<Rightarrow> u8 list) \<Rightarrow> bool" where
  "blk_laws B C \<longleftrightarrow>
     (\<forall>d b. length (C d b) = BLOCK_SIZE) \<and> (\<forall>d. unat (num_blocks B d) < 2 ^ 55) \<and>
     (\<forall>b d r d'. read_block B b d = (r, d') \<longrightarrow> r \<noteq> Panic \<and> C d' = C d \<and> num_blocks B d' = num_blocks B d \<and>
        (\<forall>f. r = Ok f \<longrightarrow> b < num_blocks B d \<and> (\<forall>i < BLOCK_SIZE. f i = C d (unat b) ! i))) \<and>
     (\<forall>b d buf r d'. length buf = BLOCK_SIZE \<longrightarrow> write_block B b buf d = (r, d') \<longrightarrow>
        r \<noteq> Panic \<and> num_blocks B d' = num_blocks B d \<and>
        C d' = (if r = Ok () then (C d)(unat b := buf) else C d) \<and> (r = Ok () \<longrightarrow> b < num_blocks B d))"

definition blk_reliable :: "('d, 'e) blk_ops \<Rightarrow> bool" where
  "blk_reliable B \<longleftrightarrow>
     (\<forall>b d. b < num_blocks B d \<longrightarrow> is_ok (fst (read_block B b d)) \<and>
        (\<forall>buf. length buf = BLOCK_SIZE \<longrightarrow> is_ok (fst (write_block B b buf d))))"

text \<open>The byte of a disk at a position, a stretch of bytes, and the cursor as a number.\<close>

definition disk_byte :: "('d \<Rightarrow> nat \<Rightarrow> u8 list) \<Rightarrow> 'd Disk \<Rightarrow> nat \<Rightarrow> u8" where
  "disk_byte C s p = C (dev s) (p div BLOCK_SIZE) ! (p mod BLOCK_SIZE)"

definition cursor :: "'d Disk \<Rightarrow> nat" where
  "cursor s = unat (block_id s) * BLOCK_SIZE + d_offset s"

definition disk_bytes :: "('d, 'e) blk_ops \<Rightarrow> 'd Disk \<Rightarrow> nat" where
  "disk_bytes B s = unat (num_blocks B (dev s)) * BLOCK_SIZE"

lemma blk_lawsD:
  assumes "blk_laws B C"
  shows "length (C d b) = BLOCK_SIZE" "unat (num_blocks B d) < 2 ^ 55"
    "read_block B b' d = (r, d') \<Longrightarrow> r \<noteq> Panic \<and> C d' = C d \<and> num_blocks B d' = num_blocks B d"
    "read_block B b' d = (Ok f, d') \<Longrightarrow> b' < num_blocks B d \<and> (\<forall>i < BLOCK_SIZE. f i = C d (unat b') ! i)"
    "length buf = BLOCK_SIZE \<Longrightarrow> write_block B b' buf d = (r', d') \<Longrightarrow>
       r' \<noteq> Panic \<and> num_blocks B d' = num_blocks B d \<and> C d' = (if r' = Ok () then (C d)(unat b' := buf) else C d)"
    "length buf = BLOCK_SIZE \<Longrightarrow> write_block B b' buf d = (Ok (), d') \<Longrightarrow> b' < num_blocks B d"
  using assms unfolding blk_laws_def by blast+

lemma block_data_C: "blk_laws B C \<Longrightarrow> \<forall>i < BLOCK_SIZE. f i = C d b ! i \<Longrightarrow> block_data f = C d b"
  by (rule nth_equalityI) (simp_all add: block_data_def blk_lawsD(1))

lemma unat_Suc_block:
  assumes "blk_laws B C" "b < num_blocks B d"
  shows "unat (b + 1) = unat b + 1"
proof -
  have "unat b < 2 ^ 55" using assms(2) blk_lawsD(2)[OF assms(1), of d] by (simp add: word_less_nat_alt)
  then show ?thesis by (simp add: unat_word_ariths)
qed

lemma cursor_advance:
  assumes "d_offset s + k \<le> BLOCK_SIZE" "unat (block_id s + 1) = unat (block_id s) + 1"
  shows "cursor (advance k s) = cursor s + k" "d_offset s < BLOCK_SIZE \<Longrightarrow> d_offset (advance k s) < BLOCK_SIZE"
    "dev (advance k s) = dev s"
  using assms by (simp_all add: cursor_def advance_def Let_def)

lemma div_mod_in_block:
  assumes "off + i < (512::nat)"
  shows "(b * 512 + off + i) div 512 = b" "(b * 512 + off + i) mod 512 = off + i"
  using assms by (simp_all add: add.assoc div_mult_self3 mod_mult_self3)

lemma moved:
  assumes "d_offset s + n \<le> BLOCK_SIZE" "unat (block_id s + 1) = unat (block_id s) + 1" "d_offset s < BLOCK_SIZE"
  defines "t d buf \<equiv> if d_offset s = 0 \<and> length buf \<ge> BLOCK_SIZE then s\<lparr>block_id := block_id s + 1, dev := d\<rparr>
    else advance n (s\<lparr>dev := d\<rparr>)"
  shows "n = (if d_offset s = 0 \<and> length buf \<ge> BLOCK_SIZE then BLOCK_SIZE else min (length buf) (BLOCK_SIZE - d_offset s)) \<Longrightarrow>
      cursor (t d buf) = cursor s + n"
    "d_offset (t d buf) < BLOCK_SIZE" "dev (t d buf) = d"
proof -
  have adv: "cursor (advance n (s\<lparr>dev := d\<rparr>)) = cursor s + n" "d_offset (advance n (s\<lparr>dev := d\<rparr>)) < BLOCK_SIZE"
    "dev (advance n (s\<lparr>dev := d\<rparr>)) = d"
    using cursor_advance[of "s\<lparr>dev := d\<rparr>" n] assms(1-3) by (simp_all add: cursor_def)
  have full: "cursor (s\<lparr>block_id := block_id s + 1, dev := d\<rparr>) = cursor s + BLOCK_SIZE"
    using assms(2) by (simp add: cursor_def)
  show "d_offset (t d buf) < BLOCK_SIZE" "dev (t d buf) = d" using adv(2,3) assms(3) by (simp_all add: t_def)
  assume "n = (if d_offset s = 0 \<and> length buf \<ge> BLOCK_SIZE then BLOCK_SIZE else min (length buf) (BLOCK_SIZE - d_offset s))"
  then show "cursor (t d buf) = cursor s + n" using adv(1) full unfolding t_def by presburger
qed

text \<open>A step of a loop, as a step of the array of bytes.\<close>

lemma read_one_bytes:
  assumes L: "blk_laws B C" and o: "d_offset s < BLOCK_SIZE" and r: "read_one B buf s = (Ok n, b, s')"
  shows "n = (if d_offset s = 0 \<and> length buf \<ge> BLOCK_SIZE then BLOCK_SIZE else min (length buf) (BLOCK_SIZE - d_offset s))"
    "take n b = map (disk_byte C s) [cursor s..<cursor s + n]" "drop n b = drop n buf"
    "cursor s' = cursor s + n" "d_offset s' < BLOCK_SIZE" "C (dev s') = C (dev s)"
    "num_blocks B (dev s') = num_blocks B (dev s)" "block_id s < num_blocks B (dev s)"
proof -
  obtain f d where rb: "read_block B (block_id s) (dev s) = (Ok f, d)"
    using r by (auto simp: read_one_def Let_def split: if_splits prod.splits result.splits)
  note facts = blk_lawsD(3)[OF L rb] blk_lawsD(4)[OF L rb]
  have data: "block_data f = C (dev s) (unat (block_id s))" using facts block_data_C[OF L] by blast
  have suc: "unat (block_id s + 1) = unat (block_id s) + 1" using unat_Suc_block[OF L] facts by blast
  show n: "n = (if d_offset s = 0 \<and> length buf \<ge> BLOCK_SIZE then BLOCK_SIZE else min (length buf) (BLOCK_SIZE - d_offset s))"
    using r rb by (auto simp: read_one_def Let_def split: if_splits)
  have le: "n \<le> length buf" "d_offset s + n \<le> BLOCK_SIZE" using n o by (auto split: if_splits)
  have b: "b = take n (drop (d_offset s) (block_data f)) @ drop n buf"
    using r rb by (auto simp: read_one_def Let_def split: if_splits)
  have "take n b = take n (drop (d_offset s) (C (dev s) (unat (block_id s))))" using b data le by (simp add: blk_lawsD(1)[OF L])
  also have "\<dots> = map (disk_byte C s) [cursor s..<cursor s + n]"
    using le by (intro nth_equalityI) (simp_all add: disk_byte_def cursor_def blk_lawsD(1)[OF L] div_mod_in_block)
  finally show "take n b = map (disk_byte C s) [cursor s..<cursor s + n]" .
  show "drop n b = drop n buf" using b le by simp
  have "s' = (if d_offset s = 0 \<and> length buf \<ge> BLOCK_SIZE then s\<lparr>block_id := block_id s + 1, dev := d\<rparr>
              else advance n (s\<lparr>dev := d\<rparr>))"
    using r rb by (auto simp: read_one_def Let_def split: if_splits)
  then show "cursor s' = cursor s + n" "d_offset s' < BLOCK_SIZE" "C (dev s') = C (dev s)"
    "num_blocks B (dev s') = num_blocks B (dev s)"
    using moved[OF le(2) suc o, of buf d] n facts by simp_all
  show "block_id s < num_blocks B (dev s)" using facts by blast
qed

text \<open>What a step of a write does to the device: it replaces the bytes from the offset on in one block.\<close>

lemma write_one_count:
  assumes "write_one B buf s = (Ok n, s')"
  shows "n = (if d_offset s = 0 \<and> length buf \<ge> BLOCK_SIZE then BLOCK_SIZE else min (length buf) (BLOCK_SIZE - d_offset s))"
  using assms by (auto simp: write_one_def Let_def split: if_splits prod.splits result.splits)

lemma write_one_device:
  assumes L: "blk_laws B C" and o: "d_offset s < BLOCK_SIZE" and w: "write_one B buf s = (Ok n, s')"
  shows "\<exists>d data. C d = (C (dev s))(unat (block_id s) := data) \<and> num_blocks B d = num_blocks B (dev s) \<and>
    block_id s < num_blocks B (dev s) \<and>
    data = take (d_offset s) (C (dev s) (unat (block_id s))) @ take n buf @ drop (d_offset s + n) (C (dev s) (unat (block_id s))) \<and>
    s' = (if d_offset s = 0 \<and> length buf \<ge> BLOCK_SIZE then s\<lparr>block_id := block_id s + 1, dev := d\<rparr> else advance n (s\<lparr>dev := d\<rparr>))"
proof -
  let ?b = "unat (block_id s)" and ?o = "d_offset s"
  let ?full = "d_offset s = 0 \<and> length buf \<ge> BLOCK_SIZE"
  note n = write_one_count[OF w]
  have le: "n \<le> length buf" "?o + n \<le> BLOCK_SIZE" using n o by (auto split: if_splits)
  show ?thesis
  proof (cases ?full)
    case True
    then obtain d where wb: "write_block B (block_id s) (take BLOCK_SIZE buf) (dev s) = (Ok (), d)"
      and s': "s' = s\<lparr>block_id := block_id s + 1, dev := d\<rparr>"
      using w by (auto simp: write_one_def split: prod.splits result.splits)
    with True n show ?thesis
      using blk_lawsD(5)[OF L _ wb] blk_lawsD(6)[OF L _ wb] by (intro exI[of _ d] exI[of _ "take BLOCK_SIZE buf"]) (auto simp: blk_lawsD(1)[OF L])
  next
    case False
    then have nk: "n = min (length buf) (BLOCK_SIZE - ?o)" using n by simp
    obtain r d1 where rb: "read_block B (block_id s) (dev s) = (r, d1)" by fastforce
    obtain f where f: "r = Ok f" using w False rb by (cases r) (simp_all add: write_one_def Let_def)
    obtain r' d where wb: "write_block B (block_id s) (take ?o (block_data f) @ take n buf @ drop (?o + n) (block_data f)) d1 = (r', d)"
      by fastforce
    have "write_one B buf s = (case r' of Ok _ \<Rightarrow> (Ok n, advance n (s\<lparr>dev := d\<rparr>)) | Err e \<Rightarrow> (Err e, s\<lparr>dev := d\<rparr>) | Panic \<Rightarrow> (Panic, s\<lparr>dev := d\<rparr>))"
      unfolding write_one_def Let_def if_not_P[OF False] nk[symmetric] rb f using wb by simp
    then have "r' = Ok ()" and s': "s' = advance n (s\<lparr>dev := d\<rparr>)" using w by (auto split: result.splits)
    note wb = wb[unfolded this(1)] and rb = rb[unfolded f]
    have data: "block_data f = C (dev s) ?b" using blk_lawsD(4)[OF L rb] block_data_C[OF L] by blast
    have len: "length (take ?o (block_data f) @ take n buf @ drop (?o + n) (block_data f)) = BLOCK_SIZE"
      using le o by simp
    from False s' show ?thesis
      using blk_lawsD(5)[OF L len wb] blk_lawsD(6)[OF L len wb] blk_lawsD(3)[OF L rb] data
      by (intro exI[of _ d]) auto
  qed
qed

lemma write_one_bytes:
  assumes L: "blk_laws B C" and o: "d_offset s < BLOCK_SIZE" and w: "write_one B buf s = (Ok n, s')"
  shows "n = (if d_offset s = 0 \<and> length buf \<ge> BLOCK_SIZE then BLOCK_SIZE else min (length buf) (BLOCK_SIZE - d_offset s))"
    "disk_byte C s' p = (if cursor s \<le> p \<and> p < cursor s + n then buf ! (p - cursor s) else disk_byte C s p)"
    "cursor s' = cursor s + n" "d_offset s' < BLOCK_SIZE"
    "num_blocks B (dev s') = num_blocks B (dev s)" "block_id s < num_blocks B (dev s)"
proof -
  let ?b = "unat (block_id s)" and ?o = "d_offset s"
  let ?full = "d_offset s = 0 \<and> length buf \<ge> BLOCK_SIZE"
  show n: "n = (if ?full then BLOCK_SIZE else min (length buf) (BLOCK_SIZE - d_offset s))"
    by (rule write_one_count[OF w])
  have le: "n \<le> length buf" "?o + n \<le> BLOCK_SIZE" using n o by (auto split: if_splits)
  obtain d data where wd: "C d = (C (dev s))(?b := data)" "num_blocks B d = num_blocks B (dev s)"
    "block_id s < num_blocks B (dev s)" "data = take ?o (C (dev s) ?b) @ take n buf @ drop (?o + n) (C (dev s) ?b)"
    "s' = (if ?full then s\<lparr>block_id := block_id s + 1, dev := d\<rparr> else advance n (s\<lparr>dev := d\<rparr>))"
    using write_one_device[OF L o w] by blast
  have suc: "unat (block_id s + 1) = ?b + 1" using unat_Suc_block[OF L wd(3)] .
  have dev: "dev s' = d" and cur: "cursor s' = cursor s + n" "d_offset s' < BLOCK_SIZE"
    using moved[OF le(2) suc o, of buf d] n wd(5) by simp_all
  from cur show "cursor s' = cursor s + n" "d_offset s' < BLOCK_SIZE" .
  show "num_blocks B (dev s') = num_blocks B (dev s)" "block_id s < num_blocks B (dev s)"
    using dev wd by simp_all
  show "disk_byte C s' p = (if cursor s \<le> p \<and> p < cursor s + n then buf ! (p - cursor s) else disk_byte C s p)"
  proof (cases "p div BLOCK_SIZE = ?b")
    case True
    have pd: "p = ?b * 512 + p mod 512" using True by (metis div_mult_mod_eq)
    have "disk_byte C s' p = data ! (p mod 512)" using True dev wd(1) by (simp add: disk_byte_def)
    also have "\<dots> = (if ?o \<le> p mod 512 \<and> p mod 512 < ?o + n then buf ! (p mod 512 - ?o) else C (dev s) ?b ! (p mod 512))"
      using le o by (auto simp: wd(4) nth_append blk_lawsD(1)[OF L] min_def)
    also have "\<dots> = (if cursor s \<le> p \<and> p < cursor s + n then buf ! (p - cursor s) else disk_byte C s p)"
    proof -
      have "cursor s \<le> p \<longleftrightarrow> ?o \<le> p mod 512" "p < cursor s + n \<longleftrightarrow> p mod 512 < ?o + n" "p - cursor s = p mod 512 - ?o"
        using pd unfolding cursor_def by linarith+
      then show ?thesis using True by (simp add: disk_byte_def)
    qed
    finally show ?thesis .
  next
    case False
    then have "\<not> (cursor s \<le> p \<and> p < cursor s + n)" using le o unfolding cursor_def by auto
    then show ?thesis using False dev wd(1) by (auto simp: disk_byte_def)
  qed
qed

text \<open>The loops: where they succeed they move the whole slice, and they succeed exactly within the disk.\<close>

lemma step_positive:
  assumes "buf \<noteq> []" "off < (512::nat)"
  shows "0 < (if off = 0 \<and> length buf \<ge> 512 then 512 else min (length buf) (512 - off))"
    "(if off = 0 \<and> length buf \<ge> 512 then 512 else min (length buf) (512 - off)) \<le> length buf"
    "off + (if off = 0 \<and> length buf \<ge> 512 then 512 else min (length buf) (512 - off)) \<le> 512"
  using assms by auto

lemma read_loop_bytes:
  assumes L: "blk_laws B C" and "d_offset s < BLOCK_SIZE" "read_loop x B buf k s = (Ok m, b, s')"
  shows "m = k + length buf \<and> b = map (disk_byte C s) [cursor s..<cursor s + length buf] \<and> C (dev s') = C (dev s) \<and>
    cursor s' = cursor s + length buf \<and> d_offset s' < BLOCK_SIZE \<and> num_blocks B (dev s') = num_blocks B (dev s) \<and>
    (buf \<noteq> [] \<longrightarrow> cursor s + length buf \<le> disk_bytes B s)"
  using assms(2-)
proof (induction "length buf" arbitrary: buf k m b s rule: less_induct)
  case less
  show ?case
  proof (cases "buf = []")
    case True
    then show ?thesis using less.prems by (simp add: read_loop.simps)
  next
    case False
    obtain r b1 s1 where r1: "read_one B buf s = (r, b1, s1)" by (metis prod_cases3)
    with less.prems(2) False obtain n where rn: "r = Ok n"
      by (subst (asm) read_loop.simps) (auto split: result.splits)
    note R = read_one_bytes[OF L less.prems(1) r1[unfolded rn]]
    note S = step_positive[OF False less.prems(1), folded R(1)]
    obtain b2 where r2: "read_loop x B (drop n buf) (k + n) s1 = (Ok m, b2, s')" and b: "b = take n b1 @ b2"
      using less.prems(2) False r1 rn S(1) R(3)
      by (subst (asm) read_loop.simps) (auto split: prod.splits)
    have "length (drop n buf) < length buf" using S(1) False by simp
    from less.hyps[OF this R(5) r2]
    have IH: "m = k + n + length (drop n buf)" "b2 = map (disk_byte C s1) [cursor s1..<cursor s1 + length (drop n buf)]"
      "C (dev s') = C (dev s1)" "cursor s' = cursor s1 + length (drop n buf)" "d_offset s' < BLOCK_SIZE"
      "num_blocks B (dev s') = num_blocks B (dev s1)"
      "drop n buf \<noteq> [] \<longrightarrow> cursor s1 + length (drop n buf) \<le> disk_bytes B s1" by simp_all
    have db: "disk_byte C s1 = disk_byte C s" using R(6) by (simp add: disk_byte_def fun_eq_iff)
    have "[cursor s..<cursor s + n] @ [cursor s + n..<cursor s + length buf] = [cursor s..<cursor s + length buf]"
      using S(2) by (metis add_leE le_add1 le_add_diff_inverse upt_add_eq_append add.assoc)
    then have "b = map (disk_byte C s) [cursor s..<cursor s + length buf]"
      using b R(2) IH(2) R(4) S(2) by (simp add: db flip: map_append)
    moreover have "cursor s + length buf \<le> disk_bytes B s"
    proof (cases "n = length buf")
      case True
      have "unat (block_id s) + 1 \<le> unat (num_blocks B (dev s))" using R(8) by (simp add: word_less_nat_alt)
      then show ?thesis using S(3) True unfolding cursor_def disk_bytes_def by linarith
    next
      case False
      then show ?thesis using IH(7) R(4,7) S(2) by (simp add: disk_bytes_def)
    qed
    ultimately show ?thesis using IH R S by simp
  qed
qed

lemma write_loop_bytes:
  assumes L: "blk_laws B C" and "d_offset s < BLOCK_SIZE" "write_loop x B buf k s = (Ok m, s')"
  shows "m = k + length buf \<and>
    disk_byte C s' p = (if cursor s \<le> p \<and> p < cursor s + length buf then buf ! (p - cursor s) else disk_byte C s p) \<and>
    cursor s' = cursor s + length buf \<and> d_offset s' < BLOCK_SIZE \<and> num_blocks B (dev s') = num_blocks B (dev s) \<and>
    (buf \<noteq> [] \<longrightarrow> cursor s + length buf \<le> disk_bytes B s)"
  using assms(2-)
proof (induction "length buf" arbitrary: buf k m s rule: less_induct)
  case less
  show ?case
  proof (cases "buf = []")
    case True
    then show ?thesis using less.prems by (auto simp: write_loop.simps)
  next
    case False
    obtain r s1 where w1: "write_one B buf s = (r, s1)" by fastforce
    with less.prems(2) False obtain n where rn: "r = Ok n"
      by (subst (asm) write_loop.simps) (auto split: result.splits)
    note W = write_one_bytes[OF L less.prems(1) w1[unfolded rn]]
    note S = step_positive[OF False less.prems(1), folded W(1)]
    have w2: "write_loop x B (drop n buf) (k + n) s1 = (Ok m, s')"
      using less.prems(2) False w1 rn S(1) by (subst (asm) write_loop.simps) simp
    have "length (drop n buf) < length buf" using S(1) False by simp
    from less.hyps[OF this W(4) w2]
    have IH: "m = k + n + length (drop n buf)"
      "disk_byte C s' p = (if cursor s1 \<le> p \<and> p < cursor s1 + length (drop n buf) then drop n buf ! (p - cursor s1)
         else disk_byte C s1 p)"
      "cursor s' = cursor s1 + length (drop n buf)" "d_offset s' < BLOCK_SIZE"
      "num_blocks B (dev s') = num_blocks B (dev s1)"
      "drop n buf \<noteq> [] \<longrightarrow> cursor s1 + length (drop n buf) \<le> disk_bytes B s1" by simp_all
    have "disk_byte C s' p = (if cursor s \<le> p \<and> p < cursor s + length buf then buf ! (p - cursor s) else disk_byte C s p)"
      using IH(2) W(2)[of p] W(3) S(2) by auto
    moreover have "cursor s + length buf \<le> disk_bytes B s"
    proof (cases "n = length buf")
      case True
      have "unat (block_id s) + 1 \<le> unat (num_blocks B (dev s))" using W(6) by (simp add: word_less_nat_alt)
      then show ?thesis using S(3) True unfolding cursor_def disk_bytes_def by linarith
    next
      case False
      then show ?thesis using IH(6) W(3,5) S(2) by (simp add: disk_bytes_def)
    qed
    ultimately show ?thesis using IH W S by simp
  qed
qed

text \<open>On a device that does not fail, a step within the disk succeeds, and so do the loops.\<close>

lemma in_disk_block:
  assumes "d_offset s < BLOCK_SIZE" "cursor s < disk_bytes B s"
  shows "block_id s < num_blocks B (dev s)"
  using assms unfolding cursor_def disk_bytes_def word_less_nat_alt by (simp add: less_mult_imp_div_less)

lemma read_one_succeeds:
  assumes "blk_reliable B" "block_id s < num_blocks B (dev s)"
  shows "\<exists>n b s'. read_one B buf s = (Ok n, b, s')"
proof -
  obtain f d where "read_block B (block_id s) (dev s) = (Ok f, d)"
    using assms unfolding blk_reliable_def is_ok_iff by (metis prod.collapse)
  then show ?thesis by (simp add: read_one_def Let_def)
qed

lemma write_one_succeeds:
  assumes "blk_laws B C" "blk_reliable B" "block_id s < num_blocks B (dev s)" "d_offset s < BLOCK_SIZE"
  shows "\<exists>n s'. write_one B buf s = (Ok n, s')"
proof -
  have w: "\<exists>d'. write_block B (block_id s) data d = (Ok (), d')"
    if "length data = BLOCK_SIZE" "num_blocks B d = num_blocks B (dev s)" for data d
    using assms(2,3) that unfolding blk_reliable_def is_ok_iff by (metis prod.collapse unit.exhaust)
  obtain f d where r: "read_block B (block_id s) (dev s) = (Ok f, d)"
    using assms(2,3) unfolding blk_reliable_def is_ok_iff by (metis prod.collapse)
  then have d: "num_blocks B d = num_blocks B (dev s)" using blk_lawsD(3)[OF assms(1)] by blast
  show ?thesis
  proof (cases "d_offset s = 0 \<and> BLOCK_SIZE \<le> length buf")
    case True
    then show ?thesis using w[of "take BLOCK_SIZE buf" "dev s"] by (auto simp: write_one_def)
  next
    case False
    let ?k = "min (length buf) (BLOCK_SIZE - d_offset s)"
    have "length (take (d_offset s) (block_data f) @ take ?k buf @ drop (d_offset s + ?k) (block_data f)) = BLOCK_SIZE"
      using assms(4) by simp
    from w[OF this d] show ?thesis using False r by (auto simp: write_one_def Let_def)
  qed
qed

lemma read_loop_succeeds:
  assumes L: "blk_laws B C" and R: "blk_reliable B" and "d_offset s < BLOCK_SIZE" "cursor s + length buf \<le> disk_bytes B s"
  shows "\<exists>m b s'. read_loop x B buf k s = (Ok m, b, s')"
  using assms(3-)
proof (induction "length buf" arbitrary: buf k s rule: less_induct)
  case less
  show ?case
  proof (cases "buf = []")
    case False
    then have "cursor s < disk_bytes B s" using less.prems(2) by (cases buf) auto
    from in_disk_block[OF less.prems(1) this] have "block_id s < num_blocks B (dev s)" .
    then obtain n b s1 where r1: "read_one B buf s = (Ok n, b, s1)" using read_one_succeeds[OF R] by blast
    note F = read_one_bytes[OF L less.prems(1) r1]
    note S = step_positive[OF False less.prems(1), folded F(1)]
    have "length (drop n buf) < length buf" using S(1) False by simp
    moreover have "cursor s1 + length (drop n buf) \<le> disk_bytes B s1"
      using less.prems(2) F(4,7) S(2) by (simp add: disk_bytes_def)
    ultimately obtain m b' s' where "read_loop x B (drop n buf) (k + n) s1 = (Ok m, b', s')"
      using less.hyps F(5) by blast
    then show ?thesis using r1 S(1) F(3) False by (subst read_loop.simps) simp
  qed (simp add: read_loop.simps)
qed

lemma write_loop_succeeds:
  assumes L: "blk_laws B C" and R: "blk_reliable B" and "d_offset s < BLOCK_SIZE" "cursor s + length buf \<le> disk_bytes B s"
  shows "\<exists>m s'. write_loop x B buf k s = (Ok m, s')"
  using assms(3-)
proof (induction "length buf" arbitrary: buf k s rule: less_induct)
  case less
  show ?case
  proof (cases "buf = []")
    case False
    then have "cursor s < disk_bytes B s" using less.prems(2) by (cases buf) auto
    from in_disk_block[OF less.prems(1) this] have "block_id s < num_blocks B (dev s)" .
    then obtain n s1 where w1: "write_one B buf s = (Ok n, s1)"
      using write_one_succeeds[OF L R _ less.prems(1)] by blast
    note F = write_one_bytes[OF L less.prems(1) w1]
    note S = step_positive[OF False less.prems(1), folded F(1)]
    have "length (drop n buf) < length buf" using S(1) False by simp
    moreover have "cursor s1 + length (drop n buf) \<le> disk_bytes B s1"
      using less.prems(2) F(3,5) S(2) by (simp add: disk_bytes_def)
    ultimately obtain m s' where "write_loop x B (drop n buf) (k + n) s1 = (Ok m, s')"
      using less.hyps F(4) by blast
    then show ?thesis using w1 S(1) False by (subst write_loop.simps) simp
  qed (simp add: write_loop.simps)
qed

text \<open>The cursor in bytes is the number the seek operations set, and \<open>set_position\<close> is exact for every \<open>u64\<close>.\<close>

lemma cursor_set_position [simp]: "cursor (set_position p s) = unat p"
  by (simp add: cursor_def set_position_def unat_div div_mult_mod_eq)

lemma position_set_position: "position (set_position p s) = p"
proof -
  have "of_nat (unat p mod 512) = p mod 512"
    by (simp add: word_unat_eq_iff unat_mod unat_of_nat take_bit_nat_eq_self_iff)
  then show ?thesis by (simp add: position_def set_position_def div_mult_mod_eq)
qed

lemma set_position_offset [simp]: "d_offset (set_position p s) < BLOCK_SIZE" "dev (set_position p s) = dev s"
  by (simp_all add: set_position_def)

lemma cursor_position:
  assumes L: "blk_laws B C" and o: "d_offset s < BLOCK_SIZE" and c: "cursor s \<le> disk_bytes B s"
  shows "unat (position s) = cursor s"
proof -
  have "disk_bytes B s < 2 ^ 64" using blk_lawsD(2)[OF L, of "dev s"] unfolding disk_bytes_def by simp
  then have "cursor s < 2 ^ 64" using c by linarith
  moreover have "position s = of_nat (cursor s)" by (simp add: position_def cursor_def)
  ultimately show ?thesis by (simp add: unat_of_nat take_bit_nat_eq_self_iff)
qed

lemma read_one_no_panic:
  assumes "blk_laws B C"
  shows "read_one B buf s \<noteq> (Panic, b, s')"
proof -
  obtain r d where r: "read_block B (block_id s) (dev s) = (r, d)" by fastforce
  then have "r \<noteq> Panic" using blk_lawsD(3)[OF assms r] by simp
  with r show ?thesis by (cases r) (simp_all add: read_one_def Let_def)
qed

lemma read_loop_outcome:
  assumes L: "blk_laws B C"
  shows "fst (read_loop x B buf k s) = Err x \<or> (\<exists>m. fst (read_loop x B buf k s) = Ok m)"
proof (induction "length buf" arbitrary: buf k s rule: less_induct)
  case less
  show ?case
  proof (cases "buf = []")
    case False
    obtain r b s1 where r: "read_one B buf s = (r, b, s1)" by (metis prod_cases3)
    note eq = read_loop.simps[of x B buf k s] r False
    show ?thesis
    proof (cases r)
      case (Ok n)
      have "0 < n \<Longrightarrow> length (drop n b) < length buf" using read_one_length[OF r] False by simp
      from less[OF this, of "k + n" s1] show ?thesis using eq Ok by (cases "n = 0") (simp_all add: case_prod_beta)
    next
      case (Err e)
      then show ?thesis using eq by simp
    next
      case Panic
      then show ?thesis using r read_one_no_panic[OF L] by simp
    qed
  qed (simp add: read_loop.simps)
qed

lemma read_loop_array:
  assumes L: "blk_laws B C" and R: "blk_reliable B" and o: "d_offset s < BLOCK_SIZE" and ne: "buf \<noteq> []"
  shows "if cursor s + length buf \<le> disk_bytes B s
    then \<exists>s'. read_loop x B buf 0 s = (Ok (length buf), map (disk_byte C s) [cursor s..<cursor s + length buf], s') \<and>
           cursor s' = cursor s + length buf \<and> C (dev s') = C (dev s)
    else fst (read_loop x B buf 0 s) = Err x"
proof (cases "cursor s + length buf \<le> disk_bytes B s")
  case True
  obtain m b s' where r: "read_loop x B buf 0 s = (Ok m, b, s')" using read_loop_succeeds[OF L R o True, of x 0] by blast
  show ?thesis using True r read_loop_bytes[OF L o r] by simp
next
  case False
  have "fst (read_loop x B buf 0 s) \<noteq> Ok m" for m
  proof
    assume "fst (read_loop x B buf 0 s) = Ok m"
    then obtain b s' where "read_loop x B buf 0 s = (Ok m, b, s')" by (metis prod.collapse)
    from read_loop_bytes[OF L o this] False ne show False by simp
  qed
  then show ?thesis using False read_loop_outcome[OF L, of x buf 0 s] by auto
qed

section \<open>A device in memory\<close>

definition ram_ops :: "u64 \<Rightarrow> (nat \<Rightarrow> nat \<Rightarrow> u8, unit) blk_ops" where
  "ram_ops n =
     \<lparr>block_size = (\<lambda>_. BLOCK_SIZE),
      num_blocks = (\<lambda>_. n),
      read_block = (\<lambda>b d. (if b < n then Ok (d (unat b)) else Err (), d)),
      write_block = (\<lambda>b buf d. if b < n then (Ok (), d(unat b := nth buf)) else (Err (), d))\<rparr>"

definition ram_blocks :: "(nat \<Rightarrow> nat \<Rightarrow> u8) \<Rightarrow> nat \<Rightarrow> u8 list" where
  "ram_blocks d b = map (d b) [0..<BLOCK_SIZE]"

lemma ram_laws: "unat n < 2 ^ 55 \<Longrightarrow> blk_laws (ram_ops n) ram_blocks"
  unfolding blk_laws_def ram_ops_def ram_blocks_def
  by (auto intro!: ext split: if_splits) (metis map_nth)

lemma ram_reliable: "blk_reliable (ram_ops n)"
  by (simp add: blk_reliable_def ram_ops_def)

text \<open>
  C13: What is written to a disk at its cursor is read back after a seek to the place where it was written, over block
  boundaries and in parts of blocks, for every length that fits the disk. The write reports the number of bytes, and no byte outside the
  stretch that was written changes.\<close>

theorem disk_write_read:
  assumes "blk_laws B C" "blk_reliable B" "d_offset s < BLOCK_SIZE" "cursor s + length buf \<le> disk_bytes B s"
    and "length buf0 = length buf"
  shows "\<exists>s1 s2 s3. ext4_write B buf s = (Ok (length buf), s1) \<and> ext4_seek B (position s) 0 s1 = (Ok (position s), s2) \<and>
    ext4_read B buf0 s2 = (Ok (length buf), buf, s3) \<and>
    (\<forall>p. p < cursor s \<or> cursor s + length buf \<le> p \<longrightarrow> disk_byte C s1 p = disk_byte C s p)"
proof -
  obtain m s1 where w: "write_loop (-1 :: i32) B buf 0 s = (Ok m, s1)" using write_loop_succeeds[OF assms(1-4), of "-1"] by blast
  note W = write_loop_bytes[OF assms(1,3) w]
  let ?s2 = "set_position (position s) s1"
  have c2: "cursor ?s2 = cursor s" using cursor_position[OF assms(1,3)] assms(4) by simp
  have "cursor ?s2 + length buf0 \<le> disk_bytes B ?s2" using c2 assms(4,5) W by (simp add: disk_bytes_def)
  from read_loop_succeeds[OF assms(1,2) _ this, of "-1 :: i32" 0]
  obtain m' b s3 where r: "read_loop (-1 :: i32) B buf0 0 ?s2 = (Ok m', b, s3)" by auto
  note R = read_loop_bytes[OF assms(1) _ r]
  have "disk_byte C ?s2 = disk_byte C s1" by (simp add: disk_byte_def fun_eq_iff)
  then have "b = buf" using R W c2 assms(5) by (auto intro!: nth_equalityI)
  moreover have "\<forall>p. p < cursor s \<or> cursor s + length buf \<le> p \<longrightarrow> disk_byte C s1 p = disk_byte C s p"
    using write_loop_bytes[OF assms(1,3) w] by (metis not_less)
  ultimately show ?thesis
    using w r W R assms(5) by (auto simp: ext4_write_def ext4_read_def ext4_seek_def)
qed

theorem disk_write_read_witness:
  "\<exists>s1 s2 s3. ext4_write (ram_ops 4) [1, 2, 3] \<lparr>block_id = 1, d_offset = 510, dev = \<lambda>_ _. 0\<rparr> = (Ok 3, s1) \<and>
    ext4_seek (ram_ops 4) 1022 0 s1 = (Ok 1022, s2) \<and> ext4_read (ram_ops 4) [0, 0, 0] s2 = (Ok 3, [1, 2, 3], s3)"
  using disk_write_read [OF ram_laws [of 4] ram_reliable, of "\<lparr>block_id = 1, d_offset = 510, dev = \<lambda>_ _. 0\<rparr>" "[1, 2, 3]" "[0, 0, 0]"]
  by (auto simp: cursor_def disk_bytes_def position_def ram_ops_def)

text \<open>
  C25: Reading from a disk is reading from an array of bytes. On a device that does not fail, a read of any length from any place succeeds exactly
  when it lies within the disk, and then the slice is the array from the cursor on and the cursor stands behind it; otherwise the result is the
  error of the library that asked, never a panic and never a short count.\<close>

theorem disk_read_array:
  assumes "blk_laws B C" "blk_reliable B" "d_offset s < BLOCK_SIZE" "buf \<noteq> []"
  shows "if cursor s + length buf \<le> disk_bytes B s
    then (\<exists>s'. fat_read B buf s = (Ok (length buf), map (disk_byte C s) [cursor s..<cursor s + length buf], s') \<and>
            cursor s' = cursor s + length buf \<and> C (dev s') = C (dev s)) \<and>
         (\<exists>s'. ext4_read B buf s = (Ok (length buf), map (disk_byte C s) [cursor s..<cursor s + length buf], s') \<and>
            cursor s' = cursor s + length buf \<and> C (dev s') = C (dev s))
    else fst (fat_read B buf s) = Err () \<and> fst (ext4_read B buf s) = Err (-1)"
  using read_loop_array[OF assms, of "()"] read_loop_array[OF assms, of "-1 :: i32"]
  by (simp add: fat_read_def ext4_read_def split: if_splits)

theorem disk_read_array_witness:
  "fst (ext4_read (ram_ops 4) (replicate 600 0) \<lparr>block_id = 3, d_offset = 0, dev = \<lambda>_ _. 7\<rparr>) = Err (-1) \<and>
   fst (snd (fat_read (ram_ops 4) [1, 2] \<lparr>block_id = 2, d_offset = 511, dev = \<lambda>b _. of_nat b\<rparr>)) = [2, 3]"
proof -
  have "fst (ext4_read (ram_ops 4) (replicate 600 0) \<lparr>block_id = 3, d_offset = 0, dev = \<lambda>_ _. 7\<rparr>) = Err (-1)"
    using disk_read_array [OF ram_laws [of 4] ram_reliable, of "\<lparr>block_id = 3, d_offset = 0, dev = \<lambda>_ _. 7\<rparr>" "replicate 600 0"]
    by (simp add: cursor_def disk_bytes_def ram_ops_def)
  moreover have "fst (snd (fat_read (ram_ops 4) [1, 2] \<lparr>block_id = 2, d_offset = 511, dev = \<lambda>b _. of_nat b\<rparr>)) = [2, 3]"
    using disk_read_array [OF ram_laws [of 4] ram_reliable, of "\<lparr>block_id = 2, d_offset = 511, dev = \<lambda>b _. of_nat b\<rparr>" "[1, 2]"]
    by (auto simp: cursor_def disk_bytes_def ram_ops_def disk_byte_def ram_blocks_def nth_map)
  ultimately show ?thesis ..
qed

end
