(* ===== verification/Futex.thy ===== *)
theory Futex
  imports SchedInv
begin

text \<open>
  Futexes: the table of wait queues (\<open>core/src/futex.rs\<close>) and the system call on it
  (\<open>api/src/imp/futex.rs\<close>), on top of the wait queues and tasks of the scheduler.

  The table maps an address to the \<open>Arc\<close> of a wait queue; the wait queue behind \<open>Arc\<close> number \<open>a\<close> is \<open>WaitQueue a\<close> of the scheduler. A
  \<open>WaitQueueGuard\<close> is the pair of the address and the \<open>Arc\<close>, and holds a count of it until \<open>guard_drop\<close>.
  What a user pointer points to is an argument, as the outcome of the checked access to it.
\<close>

section \<open>The table\<close>

record 'q futexes =
  fx_sched :: "'q sched"
  fx_table :: "usize \<Rightarrow> nat option"
  fx_heap :: "unit arcs"
  fx_next :: nat

type_synonym guard = "usize \<times> nat"

definition futex_table_new :: "'q sched \<Rightarrow> 'q futexes" where
  "futex_table_new st = \<lparr>fx_sched = st, fx_table = Map.empty, fx_heap = Map.empty, fx_next = 0\<rparr>"

definition futex_get :: "usize \<Rightarrow> 'q futexes \<Rightarrow> guard option \<times> 'q futexes" where
  "futex_get addr fx =
     (case fx_table fx addr of
        None \<Rightarrow> (None, fx)
      | Some a \<Rightarrow> (Some (addr, a), fx\<lparr>fx_heap := arc_clone a (fx_heap fx)\<rparr>))"

text \<open>A new queue is empty, with one reference in the table and one in the guard.\<close>

definition get_or_insert :: "usize \<Rightarrow> 'q futexes \<Rightarrow> guard \<times> 'q futexes" where
  "get_or_insert addr fx =
     (case fx_table fx addr of
        None \<Rightarrow>
          (let a = fx_next fx; s = fx_sched fx
           in ((addr, a),
               fx\<lparr>fx_table := (fx_table fx)(addr \<mapsto> a), fx_heap := (fx_heap fx)(a \<mapsto> (2, ())), fx_next := a + 1,
                  fx_sched := s\<lparr>wqs := (wqs s)(WaitQueue a := [])\<rparr>\<rparr>))
      | Some a \<Rightarrow> ((addr, a), fx\<lparr>fx_heap := arc_clone a (fx_heap fx)\<rparr>))"

text \<open>The body of \<open>drop\<close>, then the end of the guard's own reference.\<close>

definition guard_drop :: "guard \<Rightarrow> 'q futexes \<Rightarrow> 'q futexes" where
  "guard_drop g fx =
     (let (key, a) = g;
          fx1 = (if arc_count (fx_heap fx) a = 1 \<and> wqs (fx_sched fx) (WaitQueue a) = []
                 then case fx_table fx key of
                        None \<Rightarrow> fx
                      | Some b \<Rightarrow> fx\<lparr>fx_table := (fx_table fx)(key := None), fx_heap := snd (arc_drop b (fx_heap fx))\<rparr>
                 else fx)
      in fx1\<lparr>fx_heap := snd (arc_drop a (fx_heap fx1))\<rparr>)"

section \<open>The system call\<close>

record futex_abi =
  FUTEX_CMD_MASK :: u32
  FUTEX_WAIT :: u32
  FUTEX_WAKE :: u32
  FUTEX_REQUEUE :: u32
  FUTEX_CMP_REQUEUE :: u32

text \<open>
  A call returns a count, or has put its task to sleep with a guard and possibly a timeout, to go on with \<open>futex_wait_end\<close> when it is
  scheduled again.
\<close>

datatype futex_ret = Count nat | Sleeping guard bool

definition futex_wait_check :: "u32 LinuxResult \<Rightarrow> u32 \<Rightarrow> unit LinuxResult" where
  "futex_wait_check uval value = bindR uval (\<lambda>v. if v \<noteq> value then Err EAGAIN else Ok ())"

definition futex_wait_block ::
  "nat \<Rightarrow> u64 \<Rightarrow> usize \<Rightarrow> u64 option LinuxResult \<Rightarrow> ('q futexes, LinuxError, futex_ret) io" where
  "futex_wait_block c now addr timeout fx =
     (let (g, fx1) = get_or_insert addr fx; w = WaitQueue (snd g)
      in case timeout of
           Err e \<Rightarrow> (Err e, guard_drop g fx1)
         | Panic \<Rightarrow> (Panic, fx1)
         | Ok (Some dur) \<Rightarrow>
             (case wait_timeout_enter c w now dur (fx_sched fx1) of
                None \<Rightarrow> (Panic, fx1)
              | Some s \<Rightarrow> (Ok (Sleeping g True), fx1\<lparr>fx_sched := s\<rparr>))
         | Ok None \<Rightarrow>
             (case wait_enter c w (fx_sched fx1) of
                None \<Rightarrow> (Panic, fx1)
              | Some s \<Rightarrow> (Ok (Sleeping g False), fx1\<lparr>fx_sched := s\<rparr>)))"

definition futex_wait ::
  "nat \<Rightarrow> u64 \<Rightarrow> usize \<Rightarrow> u32 LinuxResult \<Rightarrow> u32 \<Rightarrow> u64 option LinuxResult \<Rightarrow> ('q futexes, LinuxError, futex_ret) io" where
  "futex_wait c now addr uval value timeout =
     bindS (getS (\<lambda>_. futex_wait_check uval value)) (\<lambda>_. futex_wait_block c now addr timeout)"

definition futex_wait_end :: "nat \<Rightarrow> guard \<Rightarrow> bool \<Rightarrow> 'q futexes \<Rightarrow> futex_ret \<times> 'q futexes" where
  "futex_wait_end c g timed fx =
     (let w = WaitQueue (snd g); s = fx_sched fx;
          s' = (if timed then snd (wait_timeout_leave c w s) else wait_leave c w s)
      in (Count 0, guard_drop g (fx\<lparr>fx_sched := s'\<rparr>)))"

text \<open>
  Up to \<open>n\<close> calls of \<open>notify_one\<close>, with \<open>k\<close> tasks woken so far; \<open>pick\<close> is the run queue chosen for each of them. A call ends when the task
  it wakes is off its CPU and in the run queue.
\<close>

fun wake_loop :: "'q scheduler_ops \<Rightarrow> nat \<Rightarrow> (nat \<Rightarrow> nat) \<Rightarrow> wq_id \<Rightarrow> nat \<Rightarrow> nat \<Rightarrow> 'q sched \<Rightarrow> nat \<times> 'q sched" where
  "wake_loop S c pick w 0 k st = (k, st)"
| "wake_loop S c pick w (Suc n) k st =
     (let (woken, st1) = notify_one S c (pick k) w False st
      in if \<not> woken then (k, st1) else wake_loop S c pick w n (k + 1) (finish_wake S c False st1))"

definition futex_wake ::
  "'q scheduler_ops \<Rightarrow> nat \<Rightarrow> (nat \<Rightarrow> nat) \<Rightarrow> usize \<Rightarrow> u32 \<Rightarrow> ('q futexes, LinuxError, futex_ret) io" where
  "futex_wake S c pick addr value fx =
     (let (wq, fx1) = futex_get addr fx;
          (k, fx2) = (case wq of
              None \<Rightarrow> (0, fx1)
            | Some g \<Rightarrow>
                let (k, s) = wake_loop S c pick (WaitQueue (snd g)) (unat value) 0 (fx_sched fx1)
                in (k, guard_drop g (fx1\<lparr>fx_sched := s\<rparr>)))
      in case yield_current S c (fx_sched fx2) of
           None \<Rightarrow> (Panic, fx2)
         | Some s \<Rightarrow> (Ok (Count k), fx2\<lparr>fx_sched := s\<rparr>))"

definition futex_requeue ::
  "'q scheduler_ops \<Rightarrow> nat \<Rightarrow> (nat \<Rightarrow> nat) \<Rightarrow> usize \<Rightarrow> u32 \<Rightarrow> usize \<Rightarrow> usize \<Rightarrow> 'q futexes \<Rightarrow> futex_ret \<times> 'q futexes" where
  "futex_requeue S c pick addr value timeout_addr addr2 fx =
     (let value2 = (ucast timeout_addr :: u32);
          (wq, fx1) = futex_get addr fx;
          (wq2, fx2) = get_or_insert addr2 fx1;
          (k, fx3) = (case wq of
              None \<Rightarrow> (0, fx2)
            | Some g \<Rightarrow>
                let (k, s) = wake_loop S c pick (WaitQueue (snd g)) (unat value) 0 (fx_sched fx2);
                    (k', s') = (if k = unat value
                                then let (n, s') = requeue (unat value2) (WaitQueue (snd g)) (WaitQueue (snd wq2)) s in (k + n, s')
                                else (k, s))
                in (k', guard_drop g (fx2\<lparr>fx_sched := s'\<rparr>)))
      in (Count k, guard_drop wq2 fx3))"

definition sys_futex ::
  "'q scheduler_ops \<Rightarrow> futex_abi \<Rightarrow> nat \<Rightarrow> u64 \<Rightarrow> (nat \<Rightarrow> nat) \<Rightarrow> usize \<Rightarrow> u32 LinuxResult \<Rightarrow> u32 \<Rightarrow> u32 \<Rightarrow> usize
   \<Rightarrow> u64 option LinuxResult \<Rightarrow> usize \<Rightarrow> u32 \<Rightarrow> ('q futexes, LinuxError, futex_ret) io" where
  "sys_futex S A c now pick addr uval futex_op value timeout_addr timeout addr2 value3 =
     (let command = futex_op AND FUTEX_CMD_MASK A
      in if command = FUTEX_WAIT A then futex_wait c now addr uval value timeout
         else if command = FUTEX_WAKE A then futex_wake S c pick addr value
         else if command = FUTEX_REQUEUE A \<or> command = FUTEX_CMP_REQUEUE A
         then bindS (getS (\<lambda>_. if command = FUTEX_CMP_REQUEUE A then futex_wait_check uval value3 else Ok ())) (\<lambda>_ fx.
                let (r, fx') = futex_requeue S c pick addr value timeout_addr addr2 fx in (Ok r, fx'))
         else errS ENOSYS)"

section \<open>The table never loses a queue\<close>

text \<open>
  What the table and the guards \<open>live\<close> hold: every reference is counted, no two addresses share a queue, and a guard refers to the queue
  that the table has for its address.
\<close>

definition fx_refs :: "guard list \<Rightarrow> 'q futexes \<Rightarrow> nat \<Rightarrow> nat" where
  "fx_refs live fx a = (if a \<in> ran (fx_table fx) then 1 else 0) + count_list (map snd live) a"

definition futex_inv :: "guard list \<Rightarrow> 'q futexes \<Rightarrow> bool" where
  "futex_inv live fx \<longleftrightarrow>
     arc_ok (fx_heap fx) (fx_refs live fx) \<and> inj_on (fx_table fx) (dom (fx_table fx)) \<and>
     (\<forall>a \<in> ran (fx_table fx). a < fx_next fx) \<and> (\<forall>g \<in> set live. fx_table fx (fst g) = Some (snd g))"

text \<open>The operations on the table by all tasks of the process, between which anything may happen to tasks and queues.\<close>

inductive futex_step :: "guard list \<times> 'q futexes \<Rightarrow> guard list \<times> 'q futexes \<Rightarrow> bool" where
  f_get: "futex_get addr fx = (Some g, fx') \<Longrightarrow> futex_step (live, fx) (g # live, fx')"
| f_insert: "get_or_insert addr fx = (g, fx') \<Longrightarrow> futex_step (live, fx) (g # live, fx')"
| f_drop: "g \<in> set live \<Longrightarrow> futex_step (live, fx) (remove1 g live, guard_drop g fx)"
| f_sched: "futex_step (live, fx) (live, fx\<lparr>fx_sched := s\<rparr>)"

lemma count_pos: "g \<in> set gs \<Longrightarrow> 0 < count_list (map snd gs) (snd g)"
  by (induction gs) auto

lemma count_remove1: "count_list (map snd (remove1 g gs)) a = count_list (map snd gs) a - (if g \<in> set gs \<and> snd g = a then 1 else 0)"
  by (induction gs) (auto dest: count_pos)

lemma futex_inv_get:
  assumes "futex_inv live fx" "fx_table fx addr = Some a"
  shows "futex_inv ((addr, a) # live) (fx\<lparr>fx_heap := arc_clone a (fx_heap fx)\<rparr>)"
proof -
  have "a \<in> ran (fx_table fx)" using assms(2) by (rule ranI)
  then have "0 < fx_refs live fx a" by (simp add: fx_refs_def)
  then have "fx_heap fx a \<noteq> None" using assms(1) arc_ok_live unfolding futex_inv_def by blast
  then have "arc_ok (arc_clone a (fx_heap fx)) (fx_refs ((addr, a) # live) (fx\<lparr>fx_heap := arc_clone a (fx_heap fx)\<rparr>))"
    using assms(1) arc_ok_clone[of "fx_heap fx" "fx_refs live fx" a] unfolding futex_inv_def by (simp add: fx_refs_def)
  then show ?thesis using assms unfolding futex_inv_def by simp
qed

lemma futex_inv_insert:
  assumes "futex_inv live fx" "get_or_insert addr fx = (g, fx')"
  shows "futex_inv (g # live) fx'" "fx_table fx k = Some a \<Longrightarrow> fx_table fx' k = Some a"
proof -
  show "fx_table fx k = Some a \<Longrightarrow> fx_table fx' k = Some a"
    using assms(2) by (auto simp: get_or_insert_def Let_def split: option.splits if_splits)
  show "futex_inv (g # live) fx'"
  proof (cases "fx_table fx addr")
    case (Some b)
    then show ?thesis using assms futex_inv_get[of live fx addr b] by (auto simp: get_or_insert_def)
  next
    case None
    let ?n = "fx_next fx"
    have fresh: "?n \<notin> ran (fx_table fx)" using assms(1) unfolding futex_inv_def by blast
    have "snd g' \<noteq> ?n" if "g' \<in> set live" for g'
    proof -
      have "fx_table fx (fst g') = Some (snd g')" using assms(1) that unfolding futex_inv_def by auto
      then show ?thesis using fresh by (metis ranI)
    qed
    then have "count_list (map snd live) ?n = 0" by (induction live) auto
    then have refs: "fx_refs (g # live) fx' a = (if a = ?n then 2 else fx_refs live fx a)" for a
      using assms(2) None fresh by (auto simp: get_or_insert_def Let_def fx_refs_def)
    have "arc_ok ((fx_heap fx)(?n \<mapsto> (2, ()))) (fx_refs (g # live) fx')"
      using assms(1) arc_ok_new[of "fx_heap fx" "fx_refs live fx" 2 "fx_refs (g # live) fx'" ?n "()"] refs
      unfolding futex_inv_def by simp
    moreover have "inj_on ((fx_table fx)(addr \<mapsto> ?n)) (insert addr (dom (fx_table fx)))"
      using assms(1) fresh unfolding futex_inv_def by (auto simp: inj_on_def ran_def)
    moreover have "\<forall>g' \<in> set live. fx_table fx (fst g') = Some (snd g') \<and> fst g' \<noteq> addr"
      using assms(1) None unfolding futex_inv_def by (metis option.distinct(1))
    moreover have "\<forall>a \<in> ran (fx_table fx). a < Suc ?n" using assms(1) unfolding futex_inv_def by (meson less_SucI)
    moreover have "g = (addr, ?n)" "fx_table fx' = (fx_table fx)(addr \<mapsto> ?n)" "fx_next fx' = Suc ?n"
      "fx_heap fx' = (fx_heap fx)(?n \<mapsto> (2, ()))"
      using assms(2) None by (auto simp: get_or_insert_def Let_def)
    ultimately show ?thesis using None unfolding futex_inv_def by simp
  qed
qed

text \<open>The table's own reference and the guard's make two: the entry stays.\<close>

lemma futex_inv_drop:
  assumes "futex_inv live fx" "g \<in> set live"
  shows "guard_drop g fx = fx\<lparr>fx_heap := snd (arc_drop (snd g) (fx_heap fx))\<rparr>" "futex_inv (remove1 g live) (guard_drop g fx)"
proof -
  have t: "fx_table fx (fst g) = Some (snd g)" using assms unfolding futex_inv_def by auto
  then have "snd g \<in> ran (fx_table fx)" by (rule ranI)
  then have "fx_refs live fx (snd g) \<ge> 2" using count_pos[OF assms(2)] by (simp add: fx_refs_def)
  then have "arc_count (fx_heap fx) (snd g) \<noteq> 1"
    using assms(1) arc_ok_count[of "fx_heap fx" "fx_refs live fx" "snd g"] unfolding futex_inv_def by simp
  then show eq: "guard_drop g fx = fx\<lparr>fx_heap := snd (arc_drop (snd g) (fx_heap fx))\<rparr>"
    by (cases g) (simp add: guard_drop_def Let_def)
  have "arc_ok (snd (arc_drop (snd g) (fx_heap fx))) (fx_refs (remove1 g live) (guard_drop g fx))"
    using assms(1) arc_ok_drop[of "fx_heap fx" "fx_refs live fx" "fx_refs (remove1 g live) (guard_drop g fx)" "snd g"]
      count_pos[OF assms(2)] assms(2) unfolding futex_inv_def by (simp add: eq fx_refs_def count_remove1)
  then show "futex_inv (remove1 g live) (guard_drop g fx)"
    using assms(1) set_remove1_subset[of g live] unfolding futex_inv_def by (simp add: eq) (meson subsetD)
qed

lemma futex_step_keeps:
  assumes "futex_inv live fx" "futex_step (live, fx) (live', fx')"
  shows "futex_inv live' fx'" "fx_table fx k = Some a \<Longrightarrow> fx_table fx' k = Some a"
proof -
  from assms(2) have "futex_inv live' fx' \<and> (fx_table fx k = Some a \<longrightarrow> fx_table fx' k = Some a)"
  proof (cases rule: futex_step.cases)
    case (f_get addr g)
    then obtain b where "fx_table fx addr = Some b" "g = (addr, b)" "fx' = fx\<lparr>fx_heap := arc_clone b (fx_heap fx)\<rparr>"
      by (auto simp: futex_get_def split: option.splits)
    then show ?thesis using futex_inv_get[OF assms(1)] f_get by simp
  next
    case (f_insert addr g)
    then show ?thesis using futex_inv_insert[OF assms(1)] by blast
  next
    case (f_drop g)
    then show ?thesis using futex_inv_drop[OF assms(1)] by simp
  next
    case (f_sched s)
    moreover have "fx_refs live (fx\<lparr>fx_sched := s\<rparr>) = fx_refs live fx" by (rule ext) (simp add: fx_refs_def)
    ultimately show ?thesis using assms(1) by (simp add: futex_inv_def)
  qed
  then show "futex_inv live' fx'" "fx_table fx k = Some a \<Longrightarrow> fx_table fx' k = Some a" by blast+
qed

lemma futex_steps_keep:
  assumes "futex_step\<^sup>*\<^sup>* p q" "futex_inv (fst p) (snd p)"
  shows "futex_inv (fst q) (snd q) \<and> (\<forall>k a. fx_table (snd p) k = Some a \<longrightarrow> fx_table (snd q) k = Some a)"
  using assms(1)
proof (induction rule: rtranclp_induct)
  case (step q r)
  then show ?case using futex_step_keeps[of "fst q" "snd q" "fst r" "snd r"] by simp
qed (use assms(2) in simp)

lemma futex_inv_new: "futex_inv [] (futex_table_new st)"
  by (simp add: futex_inv_def futex_table_new_def arc_ok_def arc_count_def fx_refs_def)

section \<open>Waking\<close>

text \<open>One task at the head of a queue is woken.\<close>

lemma notify_finish:
  assumes "sched_laws S" "wqs st w = t # ts" "t_state (tasks st t) = Blocked" "\<not> t_is_idle (tasks st t)" "\<not> t_on_cpu (tasks st t)"
    and "notify_one S c j w False st = (b, st1)"
  shows "b \<and> wqs (finish_wake S c False st1) = (wqs st)(w := ts) \<and>
    tasks (finish_wake S c False st1) = (tasks st)(t := (tasks st t)\<lparr>t_in_wait_queue := False, t_state := Ready\<rparr>) \<and>
    t \<in># sc_items S (queue (cpus (finish_wake S c False st1) j)) \<and>
    (\<forall>d. sc_items S (queue (cpus st d)) \<subseteq># sc_items S (queue (cpus (finish_wake S c False st1) d)))"
  using assms laws_put[OF assms(1)]
  by (auto simp: notify_one_def unblock_one_task_def unblock_task_def put_task_with_state_def transition_state_def
      finish_wake_def put_prev_def Let_def op_defs)

lemma wake_loop_fifo:
  assumes S: "sched_laws S"
  shows "distinct (wqs st w) \<Longrightarrow>
    \<forall>t \<in> set (wqs st w). t_state (tasks st t) = Blocked \<and> \<not> t_is_idle (tasks st t) \<and> \<not> t_on_cpu (tasks st t) \<Longrightarrow>
    wake_loop S c pick w n k st = (k', st') \<Longrightarrow>
    k' = k + min n (length (wqs st w)) \<and> wqs st' = (wqs st)(w := drop n (wqs st w)) \<and>
    (\<forall>t. tasks st' t = (if t \<in> set (take n (wqs st w))
                       then (tasks st t)\<lparr>t_in_wait_queue := False, t_state := Ready\<rparr> else tasks st t)) \<and>
    (\<forall>i < min n (length (wqs st w)). wqs st w ! i \<in># sc_items S (queue (cpus st' (pick (k + i))))) \<and>
    (\<forall>d. sc_items S (queue (cpus st d)) \<subseteq># sc_items S (queue (cpus st' d)))"
proof (induction n arbitrary: k st)
  case 0
  then show ?case by simp
next
  case (Suc n)
  show ?case
  proof (cases "wqs st w")
    case Nil
    then show ?thesis using Suc.prems by (auto simp: notify_one_def)
  next
    case (Cons t ts)
    obtain b st1 where n1: "notify_one S c (pick k) w False st = (b, st1)" by fastforce
    let ?st2 = "finish_wake S c False st1"
    have "b \<and> wqs ?st2 = (wqs st)(w := ts) \<and>
      tasks ?st2 = (tasks st)(t := (tasks st t)\<lparr>t_in_wait_queue := False, t_state := Ready\<rparr>) \<and>
      t \<in># sc_items S (queue (cpus ?st2 (pick k))) \<and>
      (\<forall>d. sc_items S (queue (cpus st d)) \<subseteq># sc_items S (queue (cpus ?st2 d)))"
      using Suc.prems(2) Cons by (intro notify_finish[OF S Cons _ _ _ n1]) auto
    note F = this
    have w2: "wqs ?st2 w = ts" using F by simp
    have dt: "t \<notin> set ts" "distinct ts" using Suc.prems(1) Cons by auto
    have "wake_loop S c pick w n (k + 1) ?st2 = (k', st')" using Suc.prems(3) n1 F by simp
    moreover have "\<forall>x \<in> set (wqs ?st2 w). t_state (tasks ?st2 x) = Blocked \<and> \<not> t_is_idle (tasks ?st2 x) \<and> \<not> t_on_cpu (tasks ?st2 x)"
      using Suc.prems(2) Cons F dt w2 by auto
    ultimately have IH: "k' = k + 1 + min n (length ts) \<and> wqs st' = (wqs ?st2)(w := drop n ts) \<and>
      (\<forall>x. tasks st' x = (if x \<in> set (take n ts) then (tasks ?st2 x)\<lparr>t_in_wait_queue := False, t_state := Ready\<rparr> else tasks ?st2 x)) \<and>
      (\<forall>i < min n (length ts). ts ! i \<in># sc_items S (queue (cpus st' (pick (k + 1 + i))))) \<and>
      (\<forall>d. sc_items S (queue (cpus ?st2 d)) \<subseteq># sc_items S (queue (cpus st' d)))"
      using Suc.IH[of ?st2 "k + 1"] dt unfolding w2 by blast
    have "\<forall>i < min (Suc n) (length (t # ts)). (t # ts) ! i \<in># sc_items S (queue (cpus st' (pick (k + i))))"
    proof (intro allI impI)
      fix i
      assume i: "i < min (Suc n) (length (t # ts))"
      show "(t # ts) ! i \<in># sc_items S (queue (cpus st' (pick (k + i))))"
        using i IH F by (cases i) (auto dest: mset_subset_eqD)
    qed
    moreover have "\<forall>d. sc_items S (queue (cpus st d)) \<subseteq># sc_items S (queue (cpus st' d))"
      using IH F by (meson subset_mset.order_trans)
    ultimately show ?thesis
      using IH F dt unfolding Cons by (auto dest: in_set_takeD)
  qed
qed

text \<open>
  C15: All calls on the futex at one address meet in one wait queue, whatever the tasks of the process do and in whatever order: once the table
  has a queue for an address it never loses it, no two addresses share one, and every guard refers to the queue of
  its address. The price is that \<open>drop\<close>, whose comparison of the count with one never succeeds, frees no queue.\<close>

theorem futex_queue_kept:
  assumes "futex_step\<^sup>*\<^sup>* ([], futex_table_new st) (live, fx)" "futex_step\<^sup>*\<^sup>* (live, fx) (live', fx')" "fx_table fx addr = Some a"
  shows "fx_table fx' addr = Some a \<and> (\<forall>addr'. fx_table fx' addr' = Some a \<longrightarrow> addr' = addr) \<and>
    (\<forall>g \<in> set live'. fst g = addr \<longrightarrow> snd g = a) \<and> fst (get_or_insert addr fx') = (addr, a)"
proof -
  have "futex_inv live fx" using futex_steps_keep[OF assms(1)] futex_inv_new[of st] by simp
  then have *: "futex_inv live' fx'" "fx_table fx' addr = Some a"
    using futex_steps_keep[OF assms(2)] assms(3) by simp_all
  have inj: "inj_on (fx_table fx') (dom (fx_table fx'))" and
    gs: "\<forall>g \<in> set live'. fx_table fx' (fst g) = Some (snd g)"
    using *(1) unfolding futex_inv_def by (rule conjunct2[THEN conjunct1], simp)
  have "addr' = addr" if "fx_table fx' addr' = Some a" for addr'
    using inj_onD[OF inj, of addr' addr] *(2) that by (simp add: domI)
  moreover have "snd g = a" if "g \<in> set live'" "fst g = addr" for g
    using bspec[OF gs that(1)] that(2) *(2) by simp
  moreover have "fst (get_or_insert addr fx') = (addr, a)" using *(2) by (simp add: get_or_insert_def)
  ultimately show ?thesis using *(2) by blast
qed

lemma guard_drop_sched [simp]: "fx_sched (guard_drop g fx) = fx_sched fx"
  by (cases g) (simp add: guard_drop_def Let_def split: option.split)

lemma yield_keeps:
  assumes "sched_laws S" "t_state (tasks st (current (cpus st c))) = Running"
  shows "\<exists>st'. yield_current S c st = Some st' \<and> wqs st' = wqs st \<and>
    (\<forall>t. t \<noteq> current (cpus st c) \<longrightarrow> tasks st' t = tasks st t) \<and>
    (\<forall>d. sc_items S (queue (cpus st d)) \<subseteq># sc_items S (queue (cpus st' d)))"
  using assms laws_put[OF assms(1)]
  by (auto simp: yield_current_def put_task_with_state_def transition_state_def put_prev_def set_phase_def Let_def op_defs)

lemma wake_loop_current: "current (cpus (snd (wake_loop S c pick w n k st)) d) = current (cpus st d)"
  by (induction n arbitrary: k st)
     (auto simp: notify_one_def unblock_one_task_def unblock_task_def put_task_with_state_def transition_state_def
       finish_wake_def put_prev_def Let_def op_defs split: list.split option.split prod.split)


text \<open>A process whose tasks 5 and 6 wait at the address 64, and another task runs.\<close>

definition ex_futexes :: "nat list futexes" where
  "ex_futexes =
     \<lparr>fx_sched =
        \<lparr>tasks = (\<lambda>t. if t = 5 \<or> t = 6 then new_common\<lparr>t_state := Blocked, t_in_wait_queue := True\<rparr> else new_common\<lparr>t_state := Running\<rparr>),
         cpus = (\<lambda>c. \<lparr>current = c + 1, rq_phase = Executing, waking = None, queue = [], idle_task = 0, exited_tasks = []\<rparr>),
         wqs = (\<lambda>_. [])(WaitQueue 0 := [5, 6]), timers = [], ticket_counter = 1, id_counter = 7\<rparr>,
      fx_table = [64 \<mapsto> 0], fx_heap = [0 \<mapsto> (1, ())], fx_next = 1\<rparr>"


theorem futex_queue_kept_witness:
  "\<exists>live' fx'. futex_step\<^sup>*\<^sup>* ([], futex_table_new (fx_sched ex_futexes)) (live', fx') \<and> live' = [] \<and> fx_table fx' 64 = Some 0"
proof -
  let ?f0 = "futex_table_new (fx_sched ex_futexes)"
  let ?f1 = "snd (get_or_insert 64 ?f0)" and ?g = "(64, 0) :: guard"
  have g: "get_or_insert 64 ?f0 = (?g, ?f1)" by (simp add: get_or_insert_def futex_table_new_def Let_def)
  have s1: "futex_step ([], ?f0) ([?g], ?f1)" by (rule f_insert[OF g])
  have s2: "futex_step ([?g], ?f1) ([], guard_drop ?g ?f1)" using f_drop[of ?g "[?g]" ?f1] by simp
  have t: "fx_table ?f1 64 = Some 0" by (simp add: get_or_insert_def futex_table_new_def Let_def)
  from futex_queue_kept[OF r_into_rtranclp[of futex_step, OF s1] r_into_rtranclp[of futex_step, OF s2] t]
  have "fx_table (guard_drop ?g ?f1) 64 = Some 0" by blast
  moreover have "futex_step\<^sup>*\<^sup>* ([], ?f0) ([], guard_drop ?g ?f1)" using s1 s2 by (meson converse_rtranclp_into_rtranclp rtranclp.rtrancl_refl)
  ultimately show ?thesis by blast
qed

text \<open>
  C36: The test of the value and the wait are not one step: a task that has found the expected value goes to sleep although the value was
  changed and \<open>FUTEX_WAKE\<close> called in between, which wakes nobody, and then nothing wakes it.\<close>

theorem futex_wait_misses_wake:
  assumes "sched_laws S" "uval = Ok value" "fx_table fx addr = None" "c \<noteq> d"
    and "t_state (tasks (fx_sched fx) (current (cpus (fx_sched fx) d))) = Running"
    and "t_state (tasks (fx_sched fx) (current (cpus (fx_sched fx) c))) = Running" "\<not> t_is_idle (tasks (fx_sched fx) (current (cpus (fx_sched fx) c)))"
    and "current (cpus (fx_sched fx) c) \<noteq> current (cpus (fx_sched fx) d)"
  shows "\<exists>fx1 g fx2. futex_wait_check uval value = Ok () \<and> futex_wake S d pick addr n fx = (Ok (Count 0), fx1) \<and>
    futex_wait_block c now addr (Ok None) fx1 = (Ok (Sleeping g False), fx2) \<and>
    t_state (tasks (fx_sched fx2) (current (cpus (fx_sched fx) c))) = Blocked \<and>
    wqs (fx_sched fx2) (WaitQueue (snd g)) = [current (cpus (fx_sched fx) c)]"
  using assms
  by (auto simp: futex_wait_check_def futex_wake_def futex_get_def yield_current_def put_task_with_state_def transition_state_def
      futex_wait_block_def get_or_insert_def wait_enter_def blocked_resched_def set_phase_def put_prev_def Let_def op_defs)

theorem futex_wait_misses_wake_witness:
  "\<exists>fx1 g fx2. futex_wake fifo_ops 1 (\<lambda>_. 0) 128 1 ex_futexes = (Ok (Count 0), fx1) \<and>
     futex_wait_block 0 0 128 (Ok None) fx1 = (Ok (Sleeping g False), fx2) \<and> t_state (tasks (fx_sched fx2) 1) = Blocked"
  using futex_wait_misses_wake [OF fifo_laws, of "Ok 0" 0 ex_futexes 128 0 1 "\<lambda>_. 0" 1 0]
  by (auto simp: ex_futexes_def new_common_def)



end
