(* ===== verification/Signals.thy ===== *)
theory Signals
  imports Prelude
begin

text \<open>
  Signals and the tables of processes: \<open>api/src/imp/signal.rs\<close>, \<open>api/src/signal.rs\<close> and the tables of \<open>core/src/task.rs\<close>.

  The tree of sessions, groups, processes and threads is kept by the \<open>axprocess\<close> crate, and the queues, masks and handlers of signals by the
  \<open>axsignal\<close> crate: \<open>proc_ops\<close> on a state \<open>'w\<close> and \<open>sig_ops\<close> on a state \<open>'g\<close>. Processes, groups and sessions are named by their numbers. A
  set of signals is a set of signal numbers. User pointers are passed as the outcome of the checked access, \<open>None\<close> for a null
  pointer where it is allowed; what a call stores through a pointer is part of its result.
\<close>

type_synonym Pid = u32
type_synonym Signo = u8
type_synonym SignalSet = "Signo set"

abbreviation SIGKILL :: Signo where "SIGKILL \<equiv> 9"
abbreviation SIGSTOP :: Signo where "SIGSTOP \<equiv> 19"

record SignalInfo =
  si_signo :: Signo
  si_code :: i32

datatype SignalOSAction = Terminate | CoreDump | Stop | Continue | Handler

record 'w proc_ops =
  thr_alive :: "Pid \<Rightarrow> 'w \<Rightarrow> bool"
  proc_alive :: "Pid \<Rightarrow> 'w \<Rightarrow> bool"
  group_alive :: "Pid \<Rightarrow> 'w \<Rightarrow> bool"
  session_alive :: "Pid \<Rightarrow> 'w \<Rightarrow> bool"
  thr_has_data :: "Pid \<Rightarrow> 'w \<Rightarrow> bool"
  proc_has_data :: "Pid \<Rightarrow> 'w \<Rightarrow> bool"
  thr_process :: "Pid \<Rightarrow> 'w \<Rightarrow> Pid"
  proc_group :: "Pid \<Rightarrow> 'w \<Rightarrow> Pid"
  group_session :: "Pid \<Rightarrow> 'w \<Rightarrow> Pid"
  group_processes :: "Pid \<Rightarrow> 'w \<Rightarrow> Pid list"
  is_init :: "Pid \<Rightarrow> 'w \<Rightarrow> bool"
  proc_threads :: "Pid \<Rightarrow> 'w \<Rightarrow> Pid list"
  proc_children :: "Pid \<Rightarrow> 'w \<Rightarrow> Pid list"
  proc_parent :: "Pid \<Rightarrow> 'w \<Rightarrow> Pid option"
  is_zombie :: "Pid \<Rightarrow> 'w \<Rightarrow> bool"
  proc_exit_code :: "Pid \<Rightarrow> 'w \<Rightarrow> i32"
  is_group_exited :: "Pid \<Rightarrow> 'w \<Rightarrow> bool"
  thr_exit :: "Pid \<Rightarrow> i32 \<Rightarrow> 'w \<Rightarrow> bool \<times> 'w"
  proc_exit :: "Pid \<Rightarrow> 'w \<Rightarrow> 'w"
  proc_group_exit :: "Pid \<Rightarrow> 'w \<Rightarrow> 'w"
  proc_free :: "Pid \<Rightarrow> 'w \<Rightarrow> (unit, 'w) result"

text \<open>\<open>'a\<close> is the disposition of a signal, \<open>'k\<close> its form in user memory, \<open>'tf\<close> the trap frame and \<open>'st\<close> a signal stack.\<close>

record ('g, 'a, 'k, 'tf, 'st) sig_ops =
  signo_valid :: "u8 \<Rightarrow> bool"
  sigset_size :: usize
  send_thread :: "Pid \<Rightarrow> SignalInfo \<Rightarrow> 'g \<Rightarrow> 'g"
  send_process :: "Pid \<Rightarrow> SignalInfo \<Rightarrow> 'g \<Rightarrow> 'g"
  get_blocked :: "Pid \<Rightarrow> 'g \<Rightarrow> SignalSet"
  set_blocked :: "Pid \<Rightarrow> SignalSet \<Rightarrow> 'g \<Rightarrow> 'g"
  sig_pending :: "Pid \<Rightarrow> 'g \<Rightarrow> SignalSet"
  get_action :: "Pid \<Rightarrow> Signo \<Rightarrow> 'g \<Rightarrow> 'a"
  set_action :: "Pid \<Rightarrow> Signo \<Rightarrow> 'a \<Rightarrow> 'g \<Rightarrow> 'g"
  to_ctype :: "'a \<Rightarrow> 'k"
  from_ctype :: "'k \<Rightarrow> 'a LinuxResult"
  sig_check :: "Pid \<Rightarrow> SignalSet option \<Rightarrow> 'tf \<Rightarrow> 'g \<Rightarrow> (SignalInfo \<times> SignalOSAction) option \<times> 'tf \<times> 'g"
  sig_restore :: "Pid \<Rightarrow> 'tf \<Rightarrow> 'g \<Rightarrow> 'tf \<times> 'g"
  tf_retval :: "'tf \<Rightarrow> usize"
  set_retval :: "usize \<Rightarrow> 'tf \<Rightarrow> 'tf"
  sig_dequeue :: "Pid \<Rightarrow> SignalSet \<Rightarrow> u64 option \<Rightarrow> 'g \<Rightarrow> SignalInfo option \<times> 'g"
  get_stack :: "Pid \<Rightarrow> 'g \<Rightarrow> 'st"
  set_stack :: "Pid \<Rightarrow> 'st \<Rightarrow> 'g \<Rightarrow> 'g"
  stack_size :: "'st \<Rightarrow> usize"

record sig_abi =
  SI_USER :: i32
  SI_TKILL :: i32
  SI_KERNEL :: i32
  SIG_BLOCK :: u32
  SIG_UNBLOCK :: u32
  SIG_SETMASK :: u32
  MINSIGSTKSZ :: usize
  EINTR_code :: usize

section \<open>The tables of threads, processes, groups and sessions\<close>

text \<open>A table keeps weak references by number, in the order of the numbers: an entry counts while what it refers to is alive.\<close>

record ('w, 'g) psys =
  ptree :: 'w
  psig :: 'g
  thread_table :: "Pid list"
  process_table :: "Pid list"
  process_group_table :: "Pid list"
  session_table :: "Pid list"

definition add_thread_to_table :: "'w proc_ops \<Rightarrow> Pid \<Rightarrow> ('w, 'g) psys \<Rightarrow> ('w, 'g) psys" where
  "add_thread_to_table P thr s =
     (let w = ptree s; s1 = s\<lparr>thread_table := insort_insert thr (thread_table s)\<rparr>; proc = thr_process P thr w
      in if proc \<in> set (process_table s1) \<and> proc_alive P proc w then s1
         else let s2 = s1\<lparr>process_table := insort_insert proc (process_table s1)\<rparr>; pg = proc_group P proc w
              in if pg \<in> set (process_group_table s2) \<and> group_alive P pg w then s2
                 else let s3 = s2\<lparr>process_group_table := insort_insert pg (process_group_table s2)\<rparr>; sid = group_session P pg w
                      in if sid \<in> set (session_table s3) \<and> session_alive P sid w then s3
                         else s3\<lparr>session_table := insort_insert sid (session_table s3)\<rparr>)"

definition processes :: "'w proc_ops \<Rightarrow> ('w, 'g) psys \<Rightarrow> Pid list" where
  "processes P s = filter (\<lambda>p. proc_alive P p (ptree s)) (process_table s)"

definition get_thread :: "'w proc_ops \<Rightarrow> Pid \<Rightarrow> ('w, 'g) psys \<Rightarrow> Pid LinuxResult" where
  "get_thread P t s = (if t \<in> set (thread_table s) \<and> thr_alive P t (ptree s) then Ok t else Err ESRCH)"

definition get_process :: "'w proc_ops \<Rightarrow> Pid \<Rightarrow> ('w, 'g) psys \<Rightarrow> Pid LinuxResult" where
  "get_process P p s = (if p \<in> set (process_table s) \<and> proc_alive P p (ptree s) then Ok p else Err ESRCH)"

definition get_process_group :: "'w proc_ops \<Rightarrow> Pid \<Rightarrow> ('w, 'g) psys \<Rightarrow> Pid LinuxResult" where
  "get_process_group P pg s = (if pg \<in> set (process_group_table s) \<and> group_alive P pg (ptree s) then Ok pg else Err ESRCH)"

definition get_session :: "'w proc_ops \<Rightarrow> Pid \<Rightarrow> ('w, 'g) psys \<Rightarrow> Pid LinuxResult" where
  "get_session P sid s = (if sid \<in> set (session_table s) \<and> session_alive P sid (ptree s) then Ok sid else Err ESRCH)"

section \<open>Sending\<close>

definition send_signal_thread ::
  "'w proc_ops \<Rightarrow> ('g, 'a, 'k, 'tf, 'st) sig_ops \<Rightarrow> Pid \<Rightarrow> SignalInfo \<Rightarrow> (('w, 'g) psys, LinuxError, unit) io" where
  "send_signal_thread P G thr sig s =
     (if \<not> thr_has_data P thr (ptree s) then (Err EPERM, s)
      else (Ok (), s\<lparr>psig := send_thread G thr sig (psig s)\<rparr>))"

definition send_signal_process ::
  "'w proc_ops \<Rightarrow> ('g, 'a, 'k, 'tf, 'st) sig_ops \<Rightarrow> Pid \<Rightarrow> SignalInfo \<Rightarrow> (('w, 'g) psys, LinuxError, unit) io" where
  "send_signal_process P G proc sig s =
     (if \<not> proc_has_data P proc (ptree s) then (Err EPERM, s)
      else (Ok (), s\<lparr>psig := send_process G proc sig (psig s)\<rparr>))"

fun send_loop ::
  "'w proc_ops \<Rightarrow> ('g, 'a, 'k, 'tf, 'st) sig_ops \<Rightarrow> SignalInfo \<Rightarrow> Pid list \<Rightarrow> nat \<Rightarrow> ('w, 'g) psys \<Rightarrow> nat \<times> ('w, 'g) psys" where
  "send_loop P G sig [] k s = (k, s)"
| "send_loop P G sig (p # ps) k s =
     (let (r, s1) = send_signal_process P G p sig s in send_loop P G sig ps (if is_ok r then k + 1 else k) s1)"

definition send_signal_process_group ::
  "'w proc_ops \<Rightarrow> ('g, 'a, 'k, 'tf, 'st) sig_ops \<Rightarrow> Pid \<Rightarrow> SignalInfo \<Rightarrow> ('w, 'g) psys \<Rightarrow> nat \<times> ('w, 'g) psys" where
  "send_signal_process_group P G pg sig s = send_loop P G sig (group_processes P pg (ptree s)) 0 s"

section \<open>System calls that send\<close>

definition check_sigset_size :: "('g, 'a, 'k, 'tf, 'st) sig_ops \<Rightarrow> usize \<Rightarrow> unit LinuxResult" where
  "check_sigset_size G sz = (if sz \<noteq> sigset_size G then Err EINVAL else Ok ())"

definition parse_signo :: "('g, 'a, 'k, 'tf, 'st) sig_ops \<Rightarrow> u32 \<Rightarrow> Signo LinuxResult" where
  "parse_signo G signo = (let x = (ucast signo :: u8) in if signo_valid G x then Ok x else Err EINVAL)"

definition make_siginfo :: "('g, 'a, 'k, 'tf, 'st) sig_ops \<Rightarrow> u32 \<Rightarrow> i32 \<Rightarrow> SignalInfo option LinuxResult" where
  "make_siginfo G signo code =
     (if signo = 0 then Ok None
      else bindR (parse_signo G signo) (\<lambda>x. Ok (Some \<lparr>si_signo = x, si_code = code\<rparr>)))"

text \<open>The loop of \<open>kill\<close> over all processes: it stops at the first failure.\<close>

fun kill_all ::
  "'w proc_ops \<Rightarrow> ('g, 'a, 'k, 'tf, 'st) sig_ops \<Rightarrow> SignalInfo \<Rightarrow> Pid list \<Rightarrow> nat \<Rightarrow> (('w, 'g) psys, LinuxError, nat) io" where
  "kill_all P G sig [] k s = (Ok k, s)"
| "kill_all P G sig (p # ps) k s =
     (if is_init P p (ptree s) then kill_all P G sig ps k s
      else bindS (send_signal_process P G p sig) (\<lambda>_. kill_all P G sig ps (k + 1)) s)"

text \<open>\<open>kill\<close> by a thread of the process \<open>me\<close>.\<close>

definition sys_kill ::
  "'w proc_ops \<Rightarrow> ('g, 'a, 'k, 'tf, 'st) sig_ops \<Rightarrow> sig_abi \<Rightarrow> Pid \<Rightarrow> i32 \<Rightarrow> u32 \<Rightarrow> (('w, 'g) psys, LinuxError, nat) io" where
  "sys_kill P G A me pid signo s =
     (case make_siginfo G signo (SI_USER A) of
        Err e \<Rightarrow> (Err e, s)
      | Panic \<Rightarrow> (Panic, s)
      | Ok None \<Rightarrow> (Ok 0, s)
      | Ok (Some sig) \<Rightarrow>
          if 1 \<le> sint pid
          then bindS (getS (get_process P pid)) (\<lambda>proc. bindS (send_signal_process P G proc sig) (\<lambda>_. okS 1)) s
          else if pid = 0
          then let (k, s1) = send_signal_process_group P G (proc_group P me (ptree s)) sig s in (Ok k, s1)
          else if pid = - 1 then kill_all P G sig (processes P s) 0 s
          else bindS (getS (get_process_group P (- pid))) (\<lambda>pg s0.
                 let (k, s1) = send_signal_process_group P G pg sig s0 in (Ok k, s1)) s)"

definition sys_tkill ::
  "'w proc_ops \<Rightarrow> ('g, 'a, 'k, 'tf, 'st) sig_ops \<Rightarrow> sig_abi \<Rightarrow> Pid \<Rightarrow> u32 \<Rightarrow> (('w, 'g) psys, LinuxError, nat) io" where
  "sys_tkill P G A tid signo s =
     (case make_siginfo G signo (SI_TKILL A) of
        Err e \<Rightarrow> (Err e, s)
      | Panic \<Rightarrow> (Panic, s)
      | Ok None \<Rightarrow> (Ok 0, s)
      | Ok (Some sig) \<Rightarrow> bindS (getS (get_thread P tid)) (\<lambda>thr. bindS (send_signal_thread P G thr sig) (\<lambda>_. okS 0)) s)"

definition find_thread_in_group :: "'w proc_ops \<Rightarrow> Pid \<Rightarrow> Pid \<Rightarrow> ('w, 'g) psys \<Rightarrow> Pid LinuxResult" where
  "find_thread_in_group P tgid tid s =
     bindR (get_thread P tid s) (\<lambda>thr. if thr_process P thr (ptree s) \<noteq> tgid then Err ESRCH else Ok thr)"

definition sys_tgkill ::
  "'w proc_ops \<Rightarrow> ('g, 'a, 'k, 'tf, 'st) sig_ops \<Rightarrow> sig_abi \<Rightarrow> Pid \<Rightarrow> Pid \<Rightarrow> u32 \<Rightarrow> (('w, 'g) psys, LinuxError, nat) io" where
  "sys_tgkill P G A tgid tid signo s =
     (case make_siginfo G signo (SI_TKILL A) of
        Err e \<Rightarrow> (Err e, s)
      | Panic \<Rightarrow> (Panic, s)
      | Ok None \<Rightarrow> (Ok 0, s)
      | Ok (Some sig) \<Rightarrow>
          bindS (getS (find_thread_in_group P tgid tid)) (\<lambda>thr. bindS (send_signal_thread P G thr sig) (\<lambda>_. okS 0)) s)"

definition make_queue_signal_info ::
  "('g, 'a, 'k, 'tf, 'st) sig_ops \<Rightarrow> sig_abi \<Rightarrow> Pid \<Rightarrow> Pid \<Rightarrow> u32 \<Rightarrow> SignalInfo LinuxResult \<Rightarrow> SignalInfo LinuxResult" where
  "make_queue_signal_info G A me tgid signo sigptr =
     bindR (parse_signo G signo) (\<lambda>x. bindR sigptr (\<lambda>sig0.
       let sig = sig0\<lparr>si_signo := x\<rparr>
       in if me \<noteq> tgid \<and> (0 \<le> sint (si_code sig) \<or> si_code sig = SI_TKILL A) then Err EPERM else Ok sig))"

definition sys_rt_sigqueueinfo ::
  "'w proc_ops \<Rightarrow> ('g, 'a, 'k, 'tf, 'st) sig_ops \<Rightarrow> sig_abi \<Rightarrow> Pid \<Rightarrow> Pid \<Rightarrow> u32 \<Rightarrow> SignalInfo LinuxResult \<Rightarrow> usize
   \<Rightarrow> (('w, 'g) psys, LinuxError, nat) io" where
  "sys_rt_sigqueueinfo P G A me tgid signo sigptr sigsetsize =
     bindS (getS (\<lambda>_. check_sigset_size G sigsetsize)) (\<lambda>_.
     bindS (getS (\<lambda>_. make_queue_signal_info G A me tgid signo sigptr)) (\<lambda>sig.
     bindS (getS (get_process P tgid)) (\<lambda>proc.
     bindS (send_signal_process P G proc sig) (\<lambda>_. okS 0))))"

definition sys_rt_tgsigqueueinfo ::
  "'w proc_ops \<Rightarrow> ('g, 'a, 'k, 'tf, 'st) sig_ops \<Rightarrow> sig_abi \<Rightarrow> Pid \<Rightarrow> Pid \<Rightarrow> Pid \<Rightarrow> u32 \<Rightarrow> SignalInfo LinuxResult \<Rightarrow> usize
   \<Rightarrow> (('w, 'g) psys, LinuxError, nat) io" where
  "sys_rt_tgsigqueueinfo P G A me tgid tid signo sigptr sigsetsize =
     bindS (getS (\<lambda>_. check_sigset_size G sigsetsize)) (\<lambda>_.
     bindS (getS (\<lambda>_. make_queue_signal_info G A me tgid signo sigptr)) (\<lambda>sig.
     bindS (getS (find_thread_in_group P tgid tid)) (\<lambda>thr.
     bindS (send_signal_thread P G thr sig) (\<lambda>_. okS 0))))"

section \<open>Masks, handlers and stacks\<close>

text \<open>For the thread \<open>me\<close>; \<open>oldset\<close> says whether the pointer is given, and the second part of the result is what is stored through it.\<close>

definition sys_rt_sigprocmask ::
  "('g, 'a, 'k, 'tf, 'st) sig_ops \<Rightarrow> sig_abi \<Rightarrow> Pid \<Rightarrow> u32 \<Rightarrow> SignalSet option LinuxResult \<Rightarrow> bool LinuxResult \<Rightarrow> usize \<Rightarrow> 'g
   \<Rightarrow> nat LinuxResult \<times> SignalSet option \<times> 'g" where
  "sys_rt_sigprocmask G A me how set_ptr oldset sigsetsize g =
     (case bindR (check_sigset_size G sigsetsize) (\<lambda>_. oldset) of
        Err e \<Rightarrow> (Err e, None, g)
      | Panic \<Rightarrow> (Panic, None, g)
      | Ok given \<Rightarrow>
          let blocked = get_blocked G me g; out = (if given then Some blocked else None)
          in case set_ptr of
               Err e \<Rightarrow> (Err e, out, g)
             | Panic \<Rightarrow> (Panic, out, g)
             | Ok None \<Rightarrow> (Ok 0, out, g)
             | Ok (Some X) \<Rightarrow>
                 if how = SIG_BLOCK A then (Ok 0, out, set_blocked G me (blocked \<union> X) g)
                 else if how = SIG_UNBLOCK A then (Ok 0, out, set_blocked G me (blocked - X) g)
                 else if how = SIG_SETMASK A then (Ok 0, out, set_blocked G me X g)
                 else (Err EINVAL, out, g))"

definition sys_rt_sigaction ::
  "('g, 'a, 'k, 'tf, 'st) sig_ops \<Rightarrow> Pid \<Rightarrow> u32 \<Rightarrow> 'k option LinuxResult \<Rightarrow> bool LinuxResult \<Rightarrow> usize \<Rightarrow> 'g
   \<Rightarrow> nat LinuxResult \<times> 'k option \<times> 'g" where
  "sys_rt_sigaction G me signo act oldact sigsetsize g =
     (case bindR (check_sigset_size G sigsetsize) (\<lambda>_. parse_signo G signo) of
        Err e \<Rightarrow> (Err e, None, g)
      | Panic \<Rightarrow> (Panic, None, g)
      | Ok x \<Rightarrow>
          if x = SIGKILL \<or> x = SIGSTOP then (Err EINVAL, None, g)
          else case oldact of
                 Err e \<Rightarrow> (Err e, None, g)
               | Panic \<Rightarrow> (Panic, None, g)
               | Ok given \<Rightarrow>
                   let out = (if given then Some (to_ctype G (get_action G me x g)) else None)
                   in case act of
                        Err e \<Rightarrow> (Err e, out, g)
                      | Panic \<Rightarrow> (Panic, out, g)
                      | Ok None \<Rightarrow> (Ok 0, out, g)
                      | Ok (Some k) \<Rightarrow>
                          (case from_ctype G k of
                             Err e \<Rightarrow> (Err e, out, g)
                           | Panic \<Rightarrow> (Panic, out, g)
                           | Ok a \<Rightarrow> (Ok 0, out, set_action G me x a g)))"

definition sys_rt_sigpending ::
  "('g, 'a, 'k, 'tf, 'st) sig_ops \<Rightarrow> Pid \<Rightarrow> unit LinuxResult \<Rightarrow> usize \<Rightarrow> 'g \<Rightarrow> SignalSet LinuxResult" where
  "sys_rt_sigpending G me set_ptr sigsetsize g =
     bindR (check_sigset_size G sigsetsize) (\<lambda>_. bindR set_ptr (\<lambda>_. Ok (sig_pending G me g)))"

definition sys_rt_sigreturn :: "('g, 'a, 'k, 'tf, 'st) sig_ops \<Rightarrow> Pid \<Rightarrow> 'tf \<Rightarrow> 'g \<Rightarrow> usize LinuxResult \<times> 'tf \<times> 'g" where
  "sys_rt_sigreturn G me tf g = (let (tf', g') = sig_restore G me tf g in (Ok (tf_retval G tf'), tf', g'))"

definition sys_rt_sigtimedwait ::
  "('g, 'a, 'k, 'tf, 'st) sig_ops \<Rightarrow> Pid \<Rightarrow> SignalSet LinuxResult \<Rightarrow> bool LinuxResult \<Rightarrow> u64 option LinuxResult \<Rightarrow> usize \<Rightarrow> 'g
   \<Rightarrow> nat LinuxResult \<times> SignalInfo option \<times> 'g" where
  "sys_rt_sigtimedwait G me set_ptr info timeout sigsetsize g =
     (case bindR (check_sigset_size G sigsetsize) (\<lambda>_. bindR set_ptr (\<lambda>X. bindR timeout (\<lambda>t. Ok (X, t)))) of
        Err e \<Rightarrow> (Err e, None, g)
      | Panic \<Rightarrow> (Panic, None, g)
      | Ok (X, t) \<Rightarrow>
          (case sig_dequeue G me X t g of
             (None, g1) \<Rightarrow> (Err EAGAIN, None, g1)
           | (Some sig, g1) \<Rightarrow>
               (case info of
                  Err e \<Rightarrow> (Err e, None, g1)
                | Panic \<Rightarrow> (Panic, None, g1)
                | Ok given \<Rightarrow> (Ok 0, if given then Some sig else None, g1))))"

definition sys_sigaltstack ::
  "('g, 'a, 'k, 'tf, 'st) sig_ops \<Rightarrow> sig_abi \<Rightarrow> Pid \<Rightarrow> 'st option LinuxResult \<Rightarrow> bool LinuxResult \<Rightarrow> unit LinuxResult \<Rightarrow> 'g
   \<Rightarrow> nat LinuxResult \<times> 'st option \<times> 'g" where
  "sys_sigaltstack G A me ss old_ss stack_region g =
     (case old_ss of
        Err e \<Rightarrow> (Err e, None, g)
      | Panic \<Rightarrow> (Panic, None, g)
      | Ok given \<Rightarrow>
          let out = (if given then Some (get_stack G me g) else None)
          in case ss of
               Err e \<Rightarrow> (Err e, out, g)
             | Panic \<Rightarrow> (Panic, out, g)
             | Ok None \<Rightarrow> (Ok 0, out, g)
             | Ok (Some st) \<Rightarrow>
                 if stack_size G st \<le> MINSIGSTKSZ A then (Err ENOMEM, out, g)
                 else case stack_region of
                        Err e \<Rightarrow> (Err e, out, g)
                      | Panic \<Rightarrow> (Panic, out, g)
                      | Ok _ \<Rightarrow> (Ok 0, out, set_stack G me st g))"

text \<open>
  \<open>check_signals\<close>: what the thread does about a signal that is due; \<open>Some code\<close> says that it calls \<open>do_exit\<close> for the whole process.
  \<open>sigsuspend\<close> replaces the mask and checks again after every wait: the list gives the changes while it waits.
\<close>

definition check_signals ::
  "('g, 'a, 'k, 'tf, 'st) sig_ops \<Rightarrow> Pid \<Rightarrow> SignalSet option \<Rightarrow> 'tf \<Rightarrow> 'g \<Rightarrow> bool \<times> i32 option \<times> 'tf \<times> 'g" where
  "check_signals G me restore_blocked tf g =
     (case sig_check G me restore_blocked tf g of
        (None, tf', g') \<Rightarrow> (False, None, tf', g')
      | (Some (sig, act), tf', g') \<Rightarrow>
          (True,
           case act of
             Terminate \<Rightarrow> Some (128 + ucast (si_signo sig))
           | CoreDump \<Rightarrow> Some (128 + ucast (si_signo sig))
           | Stop \<Rightarrow> Some 1
           | Continue \<Rightarrow> None
           | Handler \<Rightarrow> None,
           tf', g'))"

definition post_trap_callback ::
  "('g, 'a, 'k, 'tf, 'st) sig_ops \<Rightarrow> Pid \<Rightarrow> bool \<Rightarrow> 'tf \<Rightarrow> 'g \<Rightarrow> i32 option \<times> 'tf \<times> 'g" where
  "post_trap_callback G me from_user tf g =
     (if \<not> from_user then (None, tf, g) else snd (check_signals G me None tf g))"

datatype 'x suspended = Waits | Returns 'x | Exits i32

fun suspend_loop ::
  "('g, 'a, 'k, 'tf, 'st) sig_ops \<Rightarrow> Pid \<Rightarrow> SignalSet \<Rightarrow> ('g \<Rightarrow> 'g) list \<Rightarrow> 'tf \<Rightarrow> 'g \<Rightarrow> nat LinuxResult suspended \<times> 'tf \<times> 'g" where
  "suspend_loop G me old_blocked env tf g =
     (case check_signals G me (Some old_blocked) tf g of
        (True, Some code, tf', g') \<Rightarrow> (Exits code, tf', g')
      | (True, None, tf', g') \<Rightarrow> (Returns (Ok 0), tf', g')
      | (False, _, tf', g') \<Rightarrow>
          (case env of [] \<Rightarrow> (Waits, tf', g') | e # es \<Rightarrow> suspend_loop G me old_blocked es tf' (e g')))"

definition sys_rt_sigsuspend ::
  "('g, 'a, 'k, 'tf, 'st) sig_ops \<Rightarrow> sig_abi \<Rightarrow> Pid \<Rightarrow> SignalSet LinuxResult \<Rightarrow> usize \<Rightarrow> ('g \<Rightarrow> 'g) list \<Rightarrow> 'tf \<Rightarrow> 'g
   \<Rightarrow> nat LinuxResult suspended \<times> 'tf \<times> 'g" where
  "sys_rt_sigsuspend G A me set_ptr sigsetsize env tf g =
     (case bindR (check_sigset_size G sigsetsize) (\<lambda>_. set_ptr) of
        Err e \<Rightarrow> (Returns (Err e), tf, g)
      | Panic \<Rightarrow> (Returns Panic, tf, g)
      | Ok X \<Rightarrow>
          let old_blocked = get_blocked G me g
          in suspend_loop G me old_blocked env (set_retval G (- EINTR_code A) tf)
               (set_blocked G me (X - {SIGKILL} - {SIGSTOP}) g))"

section \<open>Who gets a signal\<close>

lemma send_loop_targets:
  "send_loop P G sig ps k s =
     (k + length (filter (\<lambda>p. proc_has_data P p (ptree s)) ps),
      s\<lparr>psig := fold (\<lambda>p. send_process G p sig) (filter (\<lambda>p. proc_has_data P p (ptree s)) ps) (psig s)\<rparr>)"
  by (induction ps arbitrary: k s) (simp_all add: send_signal_process_def)

lemma kill_all_targets:
  "\<forall>p \<in> set ps. is_init P p (ptree s) \<or> proc_has_data P p (ptree s) \<Longrightarrow>
   kill_all P G sig ps k s =
     (Ok (k + length (filter (\<lambda>p. \<not> is_init P p (ptree s)) ps)),
      s\<lparr>psig := fold (\<lambda>p. send_process G p sig) (filter (\<lambda>p. \<not> is_init P p (ptree s)) ps) (psig s)\<rparr>)"
proof (induction ps arbitrary: k s)
  case (Cons p ps)
  show ?case
  proof (cases "is_init P p (ptree s)")
    case False
    let ?s1 = "s\<lparr>psig := send_process G p sig (psig s)\<rparr>"
    have "send_signal_process P G p sig s = (Ok (), ?s1)" using Cons.prems False by (simp add: send_signal_process_def)
    then show ?thesis using Cons.IH[of ?s1 "k + 1"] Cons.prems False by simp
  qed (use Cons in simp)
qed simp

text \<open>The processes that \<open>kill\<close> is for.\<close>

definition kill_targets :: "'w proc_ops \<Rightarrow> Pid \<Rightarrow> i32 \<Rightarrow> ('w, 'g) psys \<Rightarrow> Pid list" where
  "kill_targets P me pid s =
     (if 1 \<le> sint pid then [pid]
      else if pid = 0 then group_processes P (proc_group P me (ptree s)) (ptree s)
      else if pid = - 1 then filter (\<lambda>p. \<not> is_init P p (ptree s)) (processes P s)
      else group_processes P (- pid) (ptree s))"

text \<open>A tree of processes for examples: processes 1 to 4, where 3 and 4 form a group; signals are logged.\<close>

definition ex_procs :: "unit proc_ops" where
  "ex_procs =
     \<lparr>thr_alive = (\<lambda>_ _. True), proc_alive = (\<lambda>_ _. True), group_alive = (\<lambda>_ _. True), session_alive = (\<lambda>_ _. True),
      thr_has_data = (\<lambda>_ _. True), proc_has_data = (\<lambda>_ _. True), thr_process = (\<lambda>t _. t),
      proc_group = (\<lambda>p _. if p = 4 then 3 else p), group_session = (\<lambda>_ _. 1),
      group_processes = (\<lambda>pg _. if pg = 3 then [3, 4] else [pg]), is_init = (\<lambda>p _. p = 1), proc_threads = (\<lambda>p _. [p]),
      proc_children = (\<lambda>_ _. []), proc_parent = (\<lambda>_ _. None), is_zombie = (\<lambda>_ _. False), proc_exit_code = (\<lambda>_ _. 0),
      is_group_exited = (\<lambda>_ _. False), thr_exit = (\<lambda>_ _ w. (True, w)), proc_exit = (\<lambda>_ w. w), proc_group_exit = (\<lambda>_ w. w),
      proc_free = (\<lambda>_ w. Ok w)\<rparr>"

definition log_sigs :: "((Pid \<times> Signo) list \<times> (Pid \<Rightarrow> SignalSet), unit, unit, usize, usize) sig_ops" where
  "log_sigs =
     \<lparr>signo_valid = (\<lambda>x. 1 \<le> x \<and> x \<le> 64), sigset_size = 8, send_thread = (\<lambda>t i (l, b). ((t, si_signo i) # l, b)),
      send_process = (\<lambda>p i (l, b). ((p, si_signo i) # l, b)), get_blocked = (\<lambda>t (l, b). b t), set_blocked = (\<lambda>t X (l, b). (l, b(t := X))),
      sig_pending = (\<lambda>_ _. {}), get_action = (\<lambda>_ _ _. ()), set_action = (\<lambda>_ _ _ g. g), to_ctype = (\<lambda>_. ()), from_ctype = Ok,
      sig_check = (\<lambda>_ _ tf g. (None, tf, g)), sig_restore = (\<lambda>_ tf g. (tf, g)), tf_retval = (\<lambda>tf. tf), set_retval = (\<lambda>v _. v),
      sig_dequeue = (\<lambda>_ _ _ g. (None, g)), get_stack = (\<lambda>_ _. 0), set_stack = (\<lambda>_ _ g. g), stack_size = (\<lambda>x. x)\<rparr>"

definition linux_sig :: sig_abi where
  "linux_sig = \<lparr>SI_USER = 0, SI_TKILL = - 6, SI_KERNEL = 128, SIG_BLOCK = 0, SIG_UNBLOCK = 1, SIG_SETMASK = 2, MINSIGSTKSZ = 2048, EINTR_code = 4\<rparr>"

definition ex_psys :: "(unit, (Pid \<times> Signo) list \<times> (Pid \<Rightarrow> SignalSet)) psys" where
  "ex_psys = \<lparr>ptree = (), psig = ([], \<lambda>_. {}), thread_table = [1, 2, 3, 4], process_table = [1, 2, 3, 4], process_group_table = [1, 2, 3],
     session_table = [1]\<rparr>"



text \<open>Only the low byte of the number of a signal counts: 265 is taken for \<open>SIGKILL\<close>.\<close>

lemma signal_number_truncated: "signo_valid G SIGKILL \<Longrightarrow> parse_signo G 265 = Ok SIGKILL"
proof -
  have low: "(ucast (265 :: u32) :: u8) = SIGKILL" by simp
  show "signo_valid G SIGKILL \<Longrightarrow> parse_signo G 265 = Ok SIGKILL" unfolding parse_signo_def Let_def low by simp
qed

text \<open>Nothing keeps \<open>SIGKILL\<close> and \<open>SIGSTOP\<close> out of the mask that \<open>sigprocmask\<close> sets.\<close>

lemma sigkill_can_be_blocked:
  assumes "\<forall>t X g. get_blocked G t (set_blocked G t X g) = X"
  shows "\<exists>g'. sys_rt_sigprocmask G A me (SIG_BLOCK A) (Ok (Some {SIGKILL, SIGSTOP})) (Ok True) (sigset_size G) g =
    (Ok 0, Some (get_blocked G me g), g') \<and> get_blocked G me g' = get_blocked G me g \<union> {SIGKILL, SIGSTOP}"
  using assms by (simp add: sys_rt_sigprocmask_def check_sigset_size_def Let_def)

end
