(* ===== verification/Exit.thy ===== *)
theory Exit
  imports Futex Signals FdTable
begin

text \<open>
  The end of threads and processes, and waiting for it: \<open>imp/task/exit.rs\<close>, \<open>imp/task/wait.rs\<close> and \<open>imp/task/thread.rs\<close>, on the tree of
  processes, the signals, the futexes of the process, the scheduler and the descriptor tables.

  \<open>ProcessData\<close> has what these calls read of the data of a process and what does not change: its exit signal, its
  wait queue for children, and the number of its descriptor table.
\<close>

record ProcessData =
  exit_signal :: "Signo option"
  child_exit_wq :: wq_id
  pd_fd_table :: nat

record ('w, 'g, 'q, 't, 'f, 'd, 's) exsys =
  x_ps :: "('w, 'g) psys"
  x_fx :: "'q futexes"
  x_files :: "('t, 'f, 'd, 's) files"
  x_clear_child_tid :: "Pid \<Rightarrow> usize"

definition on_tree :: "('w \<Rightarrow> 'w) \<Rightarrow> ('w, 'g, 'q, 't, 'f, 'd, 's) exsys \<Rightarrow> ('w, 'g, 'q, 't, 'f, 'd, 's) exsys" where
  "on_tree f e = e\<lparr>x_ps := (x_ps e)\<lparr>ptree := f (ptree (x_ps e))\<rparr>\<rparr>"

definition on_sched :: "('q sched \<Rightarrow> 'q sched) \<Rightarrow> ('w, 'g, 'q, 't, 'f, 'd, 's) exsys \<Rightarrow> ('w, 'g, 'q, 't, 'f, 'd, 's) exsys" where
  "on_sched f e = e\<lparr>x_fx := (x_fx e)\<lparr>fx_sched := f (fx_sched (x_fx e))\<rparr>\<rparr>"

abbreviation tree_of :: "('w, 'g, 'q, 't, 'f, 'd, 's) exsys \<Rightarrow> 'w" where "tree_of e \<equiv> ptree (x_ps e)"
abbreviation sched_of :: "('w, 'g, 'q, 't, 'f, 'd, 's) exsys \<Rightarrow> 'q sched" where "sched_of e \<equiv> fx_sched (x_fx e)"

section \<open>Threads\<close>

definition sys_getpid :: "'w proc_ops \<Rightarrow> Pid \<Rightarrow> 'w \<Rightarrow> Pid LinuxResult" where
  "sys_getpid P tid w = Ok (thr_process P tid w)"

definition sys_getppid :: "'w proc_ops \<Rightarrow> Pid \<Rightarrow> 'w \<Rightarrow> Pid LinuxResult" where
  "sys_getppid P tid w = (case proc_parent P (thr_process P tid w) w of None \<Rightarrow> Panic | Some p \<Rightarrow> Ok p)"

definition sys_gettid :: "Pid \<Rightarrow> Pid LinuxResult" where
  "sys_gettid tid = Ok tid"

definition sys_set_tid_address :: "Pid \<Rightarrow> usize \<Rightarrow> (('w, 'g, 'q, 't, 'f, 'd, 's) exsys, LinuxError, Pid) io" where
  "sys_set_tid_address tid addr e = (Ok tid, e\<lparr>x_clear_child_tid := (x_clear_child_tid e)(tid := addr)\<rparr>)"

section \<open>Exit\<close>

text \<open>\<open>WaitQueue::notify_all\<close>: the loop ends because every round takes a task out of the queue.\<close>

lemma finish_wake_wqs [simp]: "wqs (finish_wake S c b st) = wqs st"
  by (simp add: finish_wake_def put_prev_def op_defs split: option.split)

lemma notify_one_wqs:
  "notify_one S c j w b st = (woken, st1) \<Longrightarrow> wqs st1 = (wqs st)(w := tl (wqs st w)) \<and> (woken \<longleftrightarrow> wqs st w \<noteq> [])"
  by (auto simp: notify_one_def unblock_one_task_def unblock_task_def put_task_with_state_def transition_state_def Let_def op_defs
      split: list.splits)

lemma notify_one_shrinks: "notify_one S c j w b st = (True, st1) \<Longrightarrow> length (wqs st1 w) < length (wqs st w)"
  using notify_one_wqs[of S c j w b st True st1] by (cases "wqs st w") simp_all

function notify_all :: "'q scheduler_ops \<Rightarrow> nat \<Rightarrow> (nat \<Rightarrow> nat) \<Rightarrow> wq_id \<Rightarrow> nat \<Rightarrow> 'q sched \<Rightarrow> 'q sched" where
  "notify_all S c pick w k st =
     (case notify_one S c (pick k) w False st of
        (woken, st1) \<Rightarrow> if woken then notify_all S c pick w (k + 1) (finish_wake S c False st1) else st1)"
  by auto
termination
  by (relation "measure (\<lambda>(_, _, _, w, _, st). length (wqs st w))") (simp, clarsimp, rule notify_one_shrinks, rule sym)

declare notify_all.simps [simp del]

text \<open>
  The first part of \<open>do_exit\<close>, up to the yield: the word at \<open>clear_child_tid\<close> is cleared, if the pointer is good, and one task waiting for it is woken. The
  result is the address that was cleared.
\<close>

definition do_exit_clear ::
  "'q scheduler_ops \<Rightarrow> nat \<Rightarrow> nat \<Rightarrow> Pid \<Rightarrow> unit LinuxResult \<Rightarrow> (('w, 'g, 'q, 't, 'f, 'd, 's) exsys, LinuxError, usize option) io" where
  "do_exit_clear S c j tid ptr e =
     (case ptr of
        Ok _ \<Rightarrow>
          (let addr = x_clear_child_tid e tid;
               (guard, fx1) = futex_get addr (x_fx e);
               fx2 = (case guard of
                        None \<Rightarrow> fx1
                      | Some g \<Rightarrow>
                          guard_drop g (fx1\<lparr>fx_sched :=
                            (let (woken, st1) = notify_one S c j (WaitQueue (snd g)) False (fx_sched fx1)
                             in if woken then finish_wake S c False st1 else st1)\<rparr>))
           in case yield_current S c (fx_sched fx2) of
                None \<Rightarrow> (Panic, e\<lparr>x_fx := fx2\<rparr>)
              | Some st \<Rightarrow> (Ok (Some addr), e\<lparr>x_fx := fx2\<lparr>fx_sched := st\<rparr>\<rparr>))
      | _ \<Rightarrow> (Ok None, e))"

text \<open>What the last thread does for the process: it becomes a zombie, its parent is told, its descriptors are closed.\<close>

definition exit_process ::
  "'w proc_ops \<Rightarrow> ('g, 'a, 'k, 'tf, 'st) sig_ops \<Rightarrow> sig_abi \<Rightarrow> (Pid \<Rightarrow> ProcessData) \<Rightarrow> 'q scheduler_ops \<Rightarrow> 't flatten_ops
   \<Rightarrow> nat \<Rightarrow> (nat \<Rightarrow> nat) \<Rightarrow> Pid \<Rightarrow> ('w, 'g, 'q, 't, 'f, 'd, 's) exsys \<Rightarrow> ('w, 'g, 'q, 't, 'f, 'd, 's) exsys" where
  "exit_process P G A D S F c pick proc e =
     (let e1 = on_tree (proc_exit P proc) e;
          e2 = (case proc_parent P proc (tree_of e1) of
                  None \<Rightarrow> e1
                | Some parent \<Rightarrow>
                    (let e' = (case (if proc_has_data P proc (tree_of e1) then exit_signal (D proc) else None) of
                                 None \<Rightarrow> e1
                               | Some signo \<Rightarrow>
                                   e1\<lparr>x_ps := snd (send_signal_process P G parent \<lparr>si_signo = signo, si_code = SI_KERNEL A\<rparr> (x_ps e1))\<rparr>)
                     in if proc_has_data P parent (tree_of e')
                        then on_sched (notify_all S c pick (child_exit_wq (D parent)) 0) e' else e'));
          e3 = on_tree (proc_exit P proc) e2
      in e3\<lparr>x_files := clear F (pd_fd_table (D proc)) (x_files e3)\<rparr>)"

fun kill_threads ::
  "'w proc_ops \<Rightarrow> ('g, 'a, 'k, 'tf, 'st) sig_ops \<Rightarrow> SignalInfo \<Rightarrow> Pid list \<Rightarrow> ('w, 'g) psys \<Rightarrow> ('w, 'g) psys" where
  "kill_threads P G sig [] s = s"
| "kill_threads P G sig (t # ts) s = kill_threads P G sig ts (snd (send_signal_thread P G t sig s))"

definition exit_group ::
  "'w proc_ops \<Rightarrow> ('g, 'a, 'k, 'tf, 'st) sig_ops \<Rightarrow> sig_abi \<Rightarrow> Pid \<Rightarrow> ('w, 'g, 'q, 't, 'f, 'd, 's) exsys
   \<Rightarrow> ('w, 'g, 'q, 't, 'f, 'd, 's) exsys" where
  "exit_group P G A proc e =
     (let e1 = on_tree (proc_group_exit P proc) e
      in e1\<lparr>x_ps := kill_threads P G \<lparr>si_signo = SIGKILL, si_code = SI_KERNEL A\<rparr> (proc_threads P proc (tree_of e1)) (x_ps e1)\<rparr>)"

text \<open>The rest of \<open>do_exit\<close>, by the thread \<open>tid\<close> on CPU \<open>c\<close>; it ends in the scheduler.\<close>

definition do_exit ::
  "'w proc_ops \<Rightarrow> ('g, 'a, 'k, 'tf, 'st) sig_ops \<Rightarrow> sig_abi \<Rightarrow> (Pid \<Rightarrow> ProcessData) \<Rightarrow> 'q scheduler_ops \<Rightarrow> 't flatten_ops
   \<Rightarrow> nat \<Rightarrow> (nat \<Rightarrow> nat) \<Rightarrow> Pid \<Rightarrow> i32 \<Rightarrow> bool \<Rightarrow> (('w, 'g, 'q, 't, 'f, 'd, 's) exsys, LinuxError, unit) io" where
  "do_exit P G A D S F c pick tid exit_code group_exit e =
     (let proc = thr_process P tid (tree_of e);
          (last_thread, w) = thr_exit P tid exit_code (tree_of e);
          e1 = on_tree (\<lambda>_. w) e;
          e2 = (if last_thread then exit_process P G A D S F c pick proc e1 else e1);
          e3 = (if group_exit \<and> \<not> is_group_exited P proc (tree_of e2) then exit_group P G A proc e2 else e2)
      in case exit_begin c exit_code (sched_of e3) of
           None \<Rightarrow> (Panic, e3)
         | Some st \<Rightarrow> (Ok (), on_sched (\<lambda>_. st) e3))"

definition sys_exit ::
  "'w proc_ops \<Rightarrow> ('g, 'a, 'k, 'tf, 'st) sig_ops \<Rightarrow> sig_abi \<Rightarrow> (Pid \<Rightarrow> ProcessData) \<Rightarrow> 'q scheduler_ops \<Rightarrow> 't flatten_ops
   \<Rightarrow> nat \<Rightarrow> (nat \<Rightarrow> nat) \<Rightarrow> Pid \<Rightarrow> i32 \<Rightarrow> (('w, 'g, 'q, 't, 'f, 'd, 's) exsys, LinuxError, unit) io" where
  "sys_exit P G A D S F c pick tid exit_code = do_exit P G A D S F c pick tid (push_bit 8 exit_code) False"

definition sys_exit_group ::
  "'w proc_ops \<Rightarrow> ('g, 'a, 'k, 'tf, 'st) sig_ops \<Rightarrow> sig_abi \<Rightarrow> (Pid \<Rightarrow> ProcessData) \<Rightarrow> 'q scheduler_ops \<Rightarrow> 't flatten_ops
   \<Rightarrow> nat \<Rightarrow> (nat \<Rightarrow> nat) \<Rightarrow> Pid \<Rightarrow> i32 \<Rightarrow> (('w, 'g, 'q, 't, 'f, 'd, 's) exsys, LinuxError, unit) io" where
  "sys_exit_group P G A D S F c pick tid exit_code = do_exit P G A D S F c pick tid (push_bit 8 exit_code) True"

section \<open>Waiting for children\<close>

record wait_abi =
  WNOHANG :: u32
  WNOWAIT :: u32
  WALL :: u32
  WCLONE :: u32
  SIGCHLD :: Signo

definition wait_opt :: "u32 \<Rightarrow> u32 \<Rightarrow> bool" where
  "wait_opt options b \<longleftrightarrow> options AND b = b"

datatype WaitPid = WaitAny | WaitPid Pid | WaitPgid Pid

definition wait_target :: "'w proc_ops \<Rightarrow> Pid \<Rightarrow> i32 \<Rightarrow> 'w \<Rightarrow> WaitPid" where
  "wait_target P me pid w =
     (if pid = - 1 then WaitAny else if pid = 0 then WaitPgid (proc_group P me w)
      else if 0 < sint pid then WaitPid pid else WaitPgid (- pid))"

fun wait_apply :: "'w proc_ops \<Rightarrow> 'w \<Rightarrow> WaitPid \<Rightarrow> Pid \<Rightarrow> bool" where
  "wait_apply P w WaitAny child = True"
| "wait_apply P w (WaitPid pid) child = (child = pid)"
| "wait_apply P w (WaitPgid pgid) child = (proc_group P child w = pgid)"

definition is_clone_child :: "wait_abi \<Rightarrow> ProcessData \<Rightarrow> bool" where
  "is_clone_child W d \<longleftrightarrow> exit_signal d \<noteq> Some (SIGCHLD W)"

text \<open>The children a call is for; it panics at a child without data.\<close>

definition wait_children ::
  "'w proc_ops \<Rightarrow> (Pid \<Rightarrow> ProcessData) \<Rightarrow> wait_abi \<Rightarrow> Pid \<Rightarrow> i32 \<Rightarrow> u32 \<Rightarrow> 'w \<Rightarrow> Pid list LinuxResult" where
  "wait_children P D W me pid options w =
     (let cs = filter (wait_apply P w (wait_target P me pid w)) (proc_children P me w)
      in if wait_opt options (WALL W) then Ok cs
         else if \<exists>child \<in> set cs. \<not> proc_has_data P child w then Panic
         else Ok (filter (\<lambda>child. wait_opt options (WCLONE W) = is_clone_child W (D child)) cs))"

datatype wait_ret = Reaped Pid i32 | NoHang | MustWait

text \<open>One round of the loop: a zombie among the children is reaped.\<close>

definition wait_scan ::
  "'w proc_ops \<Rightarrow> wait_abi \<Rightarrow> u32 \<Rightarrow> Pid list \<Rightarrow> (('w, 'g, 'q, 't, 'f, 'd, 's) exsys, LinuxError, wait_ret) io" where
  "wait_scan P W options cs e =
     (case List.find (\<lambda>child. is_zombie P child (tree_of e)) cs of
        Some child \<Rightarrow>
          (case (if wait_opt options (WNOWAIT W) then Ok (tree_of e) else proc_free P child (tree_of e)) of
             Ok w \<Rightarrow> (Ok (Reaped child (proc_exit_code P child w)), on_tree (\<lambda>_. w) e)
           | _ \<Rightarrow> (Panic, e))
      | None \<Rightarrow> (Ok (if wait_opt options (WNOHANG W) then NoHang else MustWait), e))"

text \<open>The loop, where each element of the list is what happens while the caller sleeps; \<open>Ok MustWait\<close> says that it still sleeps.\<close>

fun wait_loop ::
  "'w proc_ops \<Rightarrow> wait_abi \<Rightarrow> nat \<Rightarrow> wq_id \<Rightarrow> u32 \<Rightarrow> Pid list \<Rightarrow> (('w, 'g, 'q, 't, 'f, 'd, 's) exsys \<Rightarrow> ('w, 'g, 'q, 't, 'f, 'd, 's) exsys) list
   \<Rightarrow> (('w, 'g, 'q, 't, 'f, 'd, 's) exsys, LinuxError, wait_ret) io" where
  "wait_loop P W c wq options cs env e =
     (case wait_scan P W options cs e of
        (Ok MustWait, e1) \<Rightarrow>
          (case wait_enter c wq (sched_of e1) of
             None \<Rightarrow> (Panic, e1)
           | Some st \<Rightarrow>
               (let e2 = on_sched (\<lambda>_. st) e1
                in case env of
                     [] \<Rightarrow> (Ok MustWait, e2)
                   | f # fs \<Rightarrow> wait_loop P W c wq options cs fs (on_sched (wait_leave c wq) (f e2))))
      | r \<Rightarrow> r)"

definition sys_waitpid ::
  "'w proc_ops \<Rightarrow> (Pid \<Rightarrow> ProcessData) \<Rightarrow> wait_abi \<Rightarrow> nat \<Rightarrow> Pid \<Rightarrow> i32 \<Rightarrow> unit LinuxResult \<Rightarrow> u32
   \<Rightarrow> (('w, 'g, 'q, 't, 'f, 'd, 's) exsys \<Rightarrow> ('w, 'g, 'q, 't, 'f, 'd, 's) exsys) list
   \<Rightarrow> (('w, 'g, 'q, 't, 'f, 'd, 's) exsys, LinuxError, wait_ret) io" where
  "sys_waitpid P D W c me pid exit_code_ptr options env =
     bindS (getS (\<lambda>e. wait_children P D W me pid options (tree_of e))) (\<lambda>cs.
       if cs = [] then errS ECHILD
       else bindS (getS (\<lambda>_. exit_code_ptr)) (\<lambda>_. wait_loop P W c (child_exit_wq (D me)) options cs env))"

section \<open>From exit to wait\<close>

text \<open>
  What the documentation of \<open>axprocess\<close> says of the end of a thread and of a process: \<open>exit\<close> of a thread says whether it was the last one and records the code; \<open>exit\<close> of a process, other
  than init, makes it a zombie, which stays a child of its parent with its code; \<open>free\<close> takes a zombie from its parent.
\<close>

definition tree_laws :: "'w proc_ops \<Rightarrow> bool" where
  "tree_laws P \<longleftrightarrow>
     (\<forall>t code w l w'. thr_exit P t code w = (l, w') \<longrightarrow>
        l = (set (proc_threads P (thr_process P t w) w) \<subseteq> {t}) \<and>
        (\<not> is_group_exited P (thr_process P t w) w \<longrightarrow> proc_exit_code P (thr_process P t w) w' = code) \<and>
        (\<forall>p. proc_parent P p w' = proc_parent P p w \<and> set (proc_children P p w') = set (proc_children P p w) \<and>
             proc_has_data P p w' = proc_has_data P p w \<and> is_init P p w' = is_init P p w)) \<and>
     (\<forall>p w. \<not> is_init P p w \<longrightarrow>
        is_zombie P p (proc_exit P p w) \<and> proc_exit_code P p (proc_exit P p w) = proc_exit_code P p w \<and>
        proc_parent P p (proc_exit P p w) = proc_parent P p w \<and> \<not> is_init P p (proc_exit P p w) \<and>
        proc_has_data P p (proc_exit P p w) = proc_has_data P p w \<and>
        (\<forall>q. proc_parent P p w = Some q \<and> p \<in> set (proc_children P q w) \<longrightarrow> p \<in> set (proc_children P q (proc_exit P p w)))) \<and>
     (\<forall>p w. is_zombie P p w \<longrightarrow>
        (\<exists>w'. proc_free P p w = Ok w' \<and> proc_exit_code P p w' = proc_exit_code P p w \<and>
           (\<forall>q. proc_parent P p w = Some q \<longrightarrow> p \<notin> set (proc_children P q w'))))"

lemma tree_lawsD:
  assumes "tree_laws P"
  shows "thr_exit P t code w = (l, w') \<Longrightarrow> l = (set (proc_threads P (thr_process P t w) w) \<subseteq> {t})"
    "thr_exit P t code w = (l, w') \<Longrightarrow> \<not> is_group_exited P (thr_process P t w) w \<Longrightarrow> proc_exit_code P (thr_process P t w) w' = code"
    "thr_exit P t code w = (l, w') \<Longrightarrow> proc_parent P p w' = proc_parent P p w \<and> set (proc_children P p w') = set (proc_children P p w) \<and>
       proc_has_data P p w' = proc_has_data P p w \<and> is_init P p w' = is_init P p w"
    "\<not> is_init P p w \<Longrightarrow> is_zombie P p (proc_exit P p w) \<and> proc_exit_code P p (proc_exit P p w) = proc_exit_code P p w \<and>
       proc_parent P p (proc_exit P p w) = proc_parent P p w \<and> \<not> is_init P p (proc_exit P p w) \<and>
       proc_has_data P p (proc_exit P p w) = proc_has_data P p w"
    "\<not> is_init P p w \<Longrightarrow> proc_parent P p w = Some q \<Longrightarrow> p \<in> set (proc_children P q w) \<Longrightarrow> p \<in> set (proc_children P q (proc_exit P p w))"
    "is_zombie P p w \<Longrightarrow> \<exists>w'. proc_free P p w = Ok w' \<and> proc_exit_code P p w' = proc_exit_code P p w \<and>
       (\<forall>q. proc_parent P p w = Some q \<longrightarrow> p \<notin> set (proc_children P q w'))"
  using assms unfolding tree_laws_def by blast+

text \<open>Waking others leaves a running task alone.\<close>

definition still_runs :: "nat \<Rightarrow> 'q sched \<Rightarrow> 'q sched \<Rightarrow> bool" where
  "still_runs t st st' \<longleftrightarrow> t_state (tasks st' t) = t_state (tasks st t) \<and> t_is_idle (tasks st' t) = t_is_idle (tasks st t) \<and>
     t_is_init (tasks st' t) = t_is_init (tasks st t) \<and> (\<forall>c. current (cpus st' c) = current (cpus st c))"

lemma unblock_one_runs:
  assumes "t_state (tasks st t) = Running"
  shows "still_runs t st (unblock_one_task S c j u b st)"
  using assms
  by (cases "t_state (tasks st u) = Blocked"; cases "t_is_idle (tasks st u)"; cases "t = u")
     (simp_all add: still_runs_def unblock_one_task_def unblock_task_def put_task_with_state_def transition_state_def op_defs)

lemma notify_one_runs:
  assumes "t_state (tasks st t) = Running" "notify_one S c j w b st = (woken, st1)"
  shows "still_runs t st st1"
proof (cases "wqs st w")
  case Nil
  then show ?thesis using assms(2) by (simp add: notify_one_def still_runs_def)
next
  case (Cons u us)
  then show ?thesis
    using assms unblock_one_runs[of "st\<lparr>wqs := (wqs st)(w := us)\<rparr>" t S c j u b] by (simp add: notify_one_def still_runs_def)
qed

lemma finish_wake_runs: "still_runs t st (finish_wake S c b st)"
  by (simp add: still_runs_def finish_wake_def put_prev_def op_defs split: option.split)

lemma notify_all_runs: "t_state (tasks st t) = Running \<Longrightarrow> still_runs t st (notify_all S c pick w k st)"
proof (induction S c pick w k st rule: notify_all.induct)
  case (1 S c pick w k st)
  obtain woken st1 where n: "notify_one S c (pick k) w False st = (woken, st1)" by fastforce
  have r: "still_runs t st st1" using notify_one_runs[OF 1(2) n] .
  have "woken \<Longrightarrow> still_runs t (finish_wake S c False st1) (notify_all S c pick w (k + 1) (finish_wake S c False st1))"
    using 1(1)[OF n[symmetric]] r finish_wake_runs[of t st1 S c False] 1(2) by (simp add: still_runs_def)
  then show ?case
    using n r finish_wake_runs[of t st1 S c False] by (subst notify_all.simps) (auto simp: still_runs_def)
qed

lemma kill_threads_tree: "ptree (kill_threads P G sig ts s) = ptree s"
  by (induction ts arbitrary: s) (simp_all add: send_signal_thread_def)

lemma exit_process_tree:
  "tree_of (exit_process P G A D S F c pick proc e) = proc_exit P proc (proc_exit P proc (tree_of e))"
  by (simp add: exit_process_def Let_def on_tree_def on_sched_def send_signal_process_def split: option.split)

lemma exit_process_runs:
  assumes "t_state (tasks (sched_of e) t) = Running"
  shows "still_runs t (sched_of e) (sched_of (exit_process P G A D S F c pick proc e))"
  using notify_all_runs[OF assms]
  by (simp add: exit_process_def Let_def on_tree_def on_sched_def still_runs_def split: option.split)

lemma do_exit_last:
  assumes L: "tree_laws P" and p: "thr_process P tid (tree_of e) = p" "set (proc_threads P p (tree_of e)) \<subseteq> {tid}"
      "\<not> is_init P p (tree_of e)" "\<not> is_group_exited P p (tree_of e)" "proc_has_data P p (tree_of e)"
    and q: "proc_parent P p (tree_of e) = Some q" "p \<in> set (proc_children P q (tree_of e))"
    and me: "t_state (tasks (sched_of e) (current (cpus (sched_of e) c))) = Running" "\<not> t_is_idle (tasks (sched_of e) (current (cpus (sched_of e) c)))"
      "\<not> t_is_init (tasks (sched_of e) (current (cpus (sched_of e) c)))"
  shows "\<exists>e'. do_exit P G A D S F c pick tid code False e = (Ok (), e') \<and> is_zombie P p (tree_of e') \<and>
    proc_exit_code P p (tree_of e') = code \<and> proc_parent P p (tree_of e') = Some q \<and> p \<in> set (proc_children P q (tree_of e')) \<and>
    proc_has_data P p (tree_of e')"
proof -
  obtain l w where te: "thr_exit P tid code (tree_of e) = (l, w)" by fastforce
  have l: "l" using tree_lawsD(1)[OF L te] p by simp
  have w: "proc_exit_code P p w = code" "proc_parent P p w = Some q" "p \<in> set (proc_children P q w)" "proc_has_data P p w" "\<not> is_init P p w"
    using tree_lawsD(2)[OF L te] tree_lawsD(3)[OF L te] p q by auto
  let ?w1 = "proc_exit P p w" and ?e2 = "exit_process P G A D S F c pick p (on_tree (\<lambda>_. w) e)"
  have z: "proc_exit_code P p ?w1 = code" "proc_parent P p ?w1 = Some q" "p \<in> set (proc_children P q ?w1)" "proc_has_data P p ?w1" "\<not> is_init P p ?w1"
    using tree_lawsD(4)[OF L w(5)] tree_lawsD(5)[OF L w(5,2,3)] w by simp_all
  have z2: "is_zombie P p (proc_exit P p ?w1)" "proc_exit_code P p (proc_exit P p ?w1) = code" "proc_parent P p (proc_exit P p ?w1) = Some q"
    "p \<in> set (proc_children P q (proc_exit P p ?w1))" "proc_has_data P p (proc_exit P p ?w1)"
    using tree_lawsD(4)[OF L z(5)] tree_lawsD(5)[OF L z(5,2,3)] z by simp_all
  have tr: "tree_of ?e2 = proc_exit P p ?w1" by (simp add: exit_process_tree on_tree_def)
  have "still_runs (current (cpus (sched_of e) c)) (sched_of e) (sched_of ?e2)"
    using exit_process_runs[of "on_tree (\<lambda>_. w) e" "current (cpus (sched_of e) c)" P G A D S F c pick p] me by (simp add: on_tree_def)
  then have "t_state (tasks (sched_of ?e2) (current (cpus (sched_of ?e2) c))) = Running \<and>
      \<not> t_is_idle (tasks (sched_of ?e2) (current (cpus (sched_of ?e2) c))) \<and> \<not> t_is_init (tasks (sched_of ?e2) (current (cpus (sched_of ?e2) c)))"
    using me unfolding still_runs_def by simp
  then obtain st where "exit_begin c code (sched_of ?e2) = Some st" unfolding exit_begin_def Let_def by simp
  then have "do_exit P G A D S F c pick tid code False e = (Ok (), on_sched (\<lambda>_. st) ?e2)"
    using te l p(1) by (simp add: do_exit_def)
  moreover have "tree_of (on_sched (\<lambda>_. st) ?e2) = proc_exit P p ?w1" using tr by (simp add: on_sched_def)
  ultimately show ?thesis using z2 by simp
qed

lemma find_eq_filter: "x \<in> set xs \<Longrightarrow> Q x \<Longrightarrow> List.find Q (filter (\<lambda>y. y = x \<and> R y) xs) = (if R x then Some x else None)"
  by (induction xs) auto

lemma waitpid_reaps:
  assumes L: "tree_laws P" and z: "is_zombie P p (tree_of e)" "proc_parent P p (tree_of e) = Some q" "p \<in> set (proc_children P q (tree_of e))"
      "proc_has_data P p (tree_of e)"
    and d: "exit_signal (D p) = Some (SIGCHLD W)" "0 < sint p" "WALL W \<noteq> 0" "WCLONE W \<noteq> 0" "WNOWAIT W \<noteq> 0"
  shows "\<exists>e'. sys_waitpid P D W c q p (Ok ()) 0 env e = (Ok (Reaped p (proc_exit_code P p (tree_of e))), e') \<and>
    p \<notin> set (proc_children P q (tree_of e'))"
proof -
  let ?w = "tree_of e" and ?cs = "filter (\<lambda>x. x = p) (proc_children P q (tree_of e))"
  have ne: "p \<noteq> - 1" "p \<noteq> 0" using d(2) by auto
  have cs: "wait_children P D W q p 0 ?w = Ok ?cs"
  proof -
    have "wait_apply P ?w (wait_target P q p ?w) = (\<lambda>x. x = p)"
      using ne d(2) by (simp add: wait_target_def fun_eq_iff)
    moreover have "filter (\<lambda>x. x = p \<and> \<not> is_clone_child W (D x)) (proc_children P q ?w) = ?cs"
      using d(1) by (intro filter_cong) (auto simp: is_clone_child_def)
    moreover have "\<not> (\<exists>x \<in> set ?cs. \<not> proc_has_data P x ?w)" using z(4) by simp
    ultimately show ?thesis
      using d(3,4) by (simp add: wait_children_def wait_opt_def Let_def)
  qed
  have some: "List.find (\<lambda>x. is_zombie P x ?w) ?cs = Some p"
    using find_eq_filter[OF z(3), of "\<lambda>x. is_zombie P x ?w" "\<lambda>_. True"] z(1) by simp
  obtain w' where w': "proc_free P p ?w = Ok w'" "proc_exit_code P p w' = proc_exit_code P p ?w" "p \<notin> set (proc_children P q w')"
    using tree_lawsD(6)[OF L z(1)] z(2) by blast
  have "wait_scan P W 0 ?cs e = (Ok (Reaped p (proc_exit_code P p ?w)), on_tree (\<lambda>_. w') e)"
    using some w' d(5) by (simp add: wait_scan_def wait_opt_def)
  then have "wait_loop P W c (child_exit_wq (D q)) 0 ?cs env e = (Ok (Reaped p (proc_exit_code P p ?w)), on_tree (\<lambda>_. w') e)"
    by (subst wait_loop.simps) simp
  moreover have "?cs \<noteq> []" using z(3) by (auto simp: filter_empty_conv)
  ultimately show ?thesis using cs w'(3) by (simp add: sys_waitpid_def bindS_def on_tree_def)
qed

lemma exit_status_bits:
  "push_bit 8 (x :: i32) AND 127 = 0" "drop_bit 8 (push_bit 8 (x :: i32)) AND 255 = x AND 255"
proof -
  have m: "(127 :: i32) = mask 7" "(255 :: i32) = mask 8" by (simp_all add: mask_eq_exp_minus_1)
  show "push_bit 8 x AND 127 = 0" unfolding m by (rule bit_word_eqI) (auto simp: bit_simps)
  show "drop_bit 8 (push_bit 8 x) AND 255 = x AND 255" unfolding m by (rule bit_word_eqI) (auto simp: bit_simps)
qed


text \<open>A small tree for examples: every process but init is a child of init and has one thread, with its number.\<close>

record small_tree =
  st_zombies :: "Pid set"
  st_codes :: "Pid \<Rightarrow> i32"
  st_children :: "Pid list"

definition small_procs :: "small_tree proc_ops" where
  "small_procs =
     \<lparr>thr_alive = (\<lambda>_ _. True), proc_alive = (\<lambda>_ _. True), group_alive = (\<lambda>_ _. True), session_alive = (\<lambda>_ _. True),
      thr_has_data = (\<lambda>_ _. True), proc_has_data = (\<lambda>_ _. True), thr_process = (\<lambda>t _. t), proc_group = (\<lambda>p _. p),
      group_session = (\<lambda>_ _. 1), group_processes = (\<lambda>pg _. [pg]), is_init = (\<lambda>p _. p = 1), proc_threads = (\<lambda>p _. [p]),
      proc_children = (\<lambda>p w. if p = 1 then st_children w else []), proc_parent = (\<lambda>p _. if p = 1 then None else Some 1),
      is_zombie = (\<lambda>p w. p \<in> st_zombies w), proc_exit_code = (\<lambda>p w. st_codes w p), is_group_exited = (\<lambda>_ _. False),
      thr_exit = (\<lambda>t code w. (True, w\<lparr>st_codes := (st_codes w)(t := code)\<rparr>)),
      proc_exit = (\<lambda>p w. w\<lparr>st_zombies := insert p (st_zombies w)\<rparr>), proc_group_exit = (\<lambda>_ w. w),
      proc_free = (\<lambda>p w. if p \<in> st_zombies w then Ok (w\<lparr>st_children := removeAll p (st_children w)\<rparr>) else Panic)\<rparr>"

lemma small_tree_laws: "tree_laws small_procs"
  by (auto simp: tree_laws_def small_procs_def)

definition linux_wait :: wait_abi where
  "linux_wait = \<lparr>WNOHANG = 1, WNOWAIT = 0x1000000, WALL = 0x40000000, WCLONE = 0x80000000, SIGCHLD = 17\<rparr>"

definition ex_pdata :: "Pid \<Rightarrow> ProcessData" where
  "ex_pdata p = \<lparr>exit_signal = Some 17, child_exit_wq = WaitQueue (unat p + 10), pd_fd_table = 0\<rparr>"

definition ex_exsys ::
  "(small_tree, (Pid \<times> Signo) list \<times> (Pid \<Rightarrow> SignalSet), nat list, usize \<Rightarrow> nat option, unit, unit, unit) exsys" where
  "ex_exsys =
     \<lparr>x_ps = \<lparr>ptree = \<lparr>st_zombies = {}, st_codes = (\<lambda>_. 0), st_children = [2]\<rparr>, psig = ([], \<lambda>_. {}), thread_table = [1, 2], process_table = [1, 2],
              process_group_table = [1], session_table = [1]\<rparr>,
      x_fx = ex_futexes, x_files = \<lparr>objs = Map.empty, bufs = Map.empty, next_addr = 0, tabs = [fo_new map_ops]\<rparr>,
      x_clear_child_tid = (\<lambda>_. 0)\<rparr>"

lemma ex_current:
  "t_state (tasks (sched_of ex_exsys) (current (cpus (sched_of ex_exsys) 0))) = Running"
  "\<not> t_is_idle (tasks (sched_of ex_exsys) (current (cpus (sched_of ex_exsys) 0)))"
  "\<not> t_is_init (tasks (sched_of ex_exsys) (current (cpus (sched_of ex_exsys) 0)))"
  by (simp_all add: ex_exsys_def ex_futexes_def new_common_def)


text \<open>
  C37: The look for a zombie and the wait are not one step: a child that exits in between finds nobody to wake, and the parent goes to sleep although there is a zombie to reap.\<close>

theorem waitpid_misses_exit:
  assumes "tree_laws P" "\<not> is_init P p (tree_of e)" "proc_parent P p (tree_of e) = Some q" "p \<in> set cs"
    and "wait_scan P W options cs e = (Ok MustWait, e)" "wqs (sched_of e) (child_exit_wq (D q)) = []"
    and "t_state (tasks (sched_of e) (current (cpus (sched_of e) c))) = Running" "\<not> t_is_idle (tasks (sched_of e) (current (cpus (sched_of e) c)))"
    and e1: "e1 = exit_process P G A D S F d pick p e"
  shows "is_zombie P p (tree_of e1) \<and>
    (\<exists>st. wait_enter c (child_exit_wq (D q)) (sched_of e1) = Some st \<and> wqs st (child_exit_wq (D q)) = [current (cpus (sched_of e) c)] \<and>
       t_state (tasks st (current (cpus (sched_of e) c))) = Blocked)"
proof -
  have "\<not> is_init P p (proc_exit P p (tree_of e))" using tree_lawsD(4)[OF assms(1,2)] by simp
  from tree_lawsD(4)[OF assms(1) this] have z: "is_zombie P p (tree_of e1)" unfolding e1 exit_process_tree by simp
  have par: "proc_parent P p (proc_exit P p (tree_of e)) = Some q" using tree_lawsD(4)[OF assms(1,2)] assms(3) by simp
  have "notify_one S d (pick 0) (child_exit_wq (D q)) False (sched_of e) = (False, sched_of e)" using assms(6) by (simp add: notify_one_def)
  then have "notify_all S d pick (child_exit_wq (D q)) 0 (sched_of e) = sched_of e" by (subst notify_all.simps) simp
  then have "sched_of e1 = sched_of e"
    using par by (simp add: e1 exit_process_def Let_def on_tree_def on_sched_def split: option.split)
  then show ?thesis using z assms(6-8) by (simp add: wait_enter_def blocked_resched_def Let_def set_phase_def op_defs)
qed

theorem waitpid_misses_exit_witness:
  "is_zombie small_procs 2 (tree_of (exit_process small_procs log_sigs linux_sig ex_pdata fifo_ops map_ops 1 (\<lambda>_. 0) 2 ex_exsys)) \<and>
   (\<exists>st. wait_enter 0 (child_exit_wq (ex_pdata 1)) (sched_of (exit_process small_procs log_sigs linux_sig ex_pdata fifo_ops map_ops 1 (\<lambda>_. 0) 2 ex_exsys)) = Some st \<and>
      t_state (tasks st 1) = Blocked)"
proof -
  have cur: "current (cpus (sched_of ex_exsys) 0) = 1" by (simp add: ex_exsys_def ex_futexes_def)
  have "wait_scan small_procs linux_wait 0 [2] ex_exsys = (Ok MustWait, ex_exsys)" "wqs (sched_of ex_exsys) (child_exit_wq (ex_pdata 1)) = []"
    by (simp_all add: wait_scan_def small_procs_def ex_exsys_def linux_wait_def wait_opt_def ex_pdata_def ex_futexes_def)
  moreover have "\<not> is_init small_procs 2 (tree_of ex_exsys)" "proc_parent small_procs 2 (tree_of ex_exsys) = Some 1"
    by (simp_all add: small_procs_def)
  ultimately show ?thesis
    using waitpid_misses_exit [of small_procs 2 ex_exsys 1 "[2]" linux_wait 0 ex_pdata 0 _ log_sigs linux_sig fifo_ops map_ops 1 "\<lambda>_. 0",
      OF small_tree_laws _ _ _ _ _ ex_current(1,2) refl]
    unfolding cur by auto
qed

end
