(* ===== verification/Spec2Isabelle.thy ===== *)
theory Spec2Isabelle
  imports Pipe FdTable TimeConv SchedInv Mutex UserMem Disk Exit
begin

text \<open>
  A verification development for StarryOS, a Linux-compatible kernel in Rust on top of the ArceOS modules.

  \<^bold>\<open>The program.\<close> System calls (\<open>src/api/src/imp\<close>) work on the data of the current process (\<open>src/core/src\<close>,
  \<open>src/api/src/file\<close>): its descriptor table, its address space and its times. Below them lie the modules of ArceOS
  in \<open>src/.arceos/modules\<close>: tasks and run queues (\<open>axtask\<close>), the mutex (\<open>axsync\<close>), the virtual file system (\<open>axfs\<close>) and
  virtual memory (\<open>axmm\<close>). Each has its theory, or a group of theories; a theory imports those whose
  operations it calls.

  \<^bold>\<open>Conventions\<close> (theory \<open>Prelude\<close>). Machine integers are words; indices and addresses that a check keeps
  below the word size are natural numbers. A fallible operation returns \<open>Ok\<close>, \<open>Err\<close> or \<open>Panic\<close>, the last for a
  failed assertion, \<open>unwrap\<close> or index; operations with state are functions from a state to a result and a state
  (\<open>io\<close>, with \<open>bindS\<close> for the question mark operator). \<open>Arc\<close> is an explicit store with counts. An operation
  that blocks takes the list of what the rest of the machine does at each of its yields; \<open>None\<close> says that it
  still waits when the list is used up, so that progress has to be proved as such. Crates outside the
  repository are records of functions with their documented behaviour as a predicate (\<open>flatten_laws\<close>, \<open>sched_laws\<close>,
  \<open>content_laws\<close>, \<open>va_laws\<close>, \<open>pt_laws\<close>, \<open>fa_laws\<close>, \<open>ms_laws\<close>, \<open>blk_laws\<close>, \<open>tree_laws\<close>); each has an instance for which the laws are proved.

  \<^bold>\<open>The theories.\<close>
  \<^item> \<open>Pipe\<close>: \<open>api/src/file/pipe.rs\<close>. The ring buffer implements a bounded queue (locale \<open>bounded_fifo\<close>,
    interpreted on its operations); blocking reads and writes lose, duplicate and reorder nothing and end when
    the other side keeps going; a write of exactly the free room does not end.
  \<^item> \<open>FdTable\<close>: \<open>api/src/file/mod.rs\<close>, \<open>imp/fs/fd_ops.rs\<close>, \<open>imp/fs/pipe.rs\<close>. The descriptor tables of all processes
    with the counts of the open files. In every reachable state a count is the number of descriptors that refer to
    the file, which makes the end-of-file test of pipes exact.
  \<^item> \<open>TimeStat\<close>, \<open>TimeConv\<close>: \<open>core/src/time.rs\<close>, \<open>api/src/time.rs\<close>, \<open>imp/time.rs\<close>, \<open>imp/task/schedule.rs\<close>. Process
    times, interval timers, the conversions of the C time structures (locale \<open>time_value_like\<close>, interpreted for
    every structure), clocks and \<open>nanosleep\<close>.
  \<^item> \<open>Sched\<close>, \<open>SchedInv\<close>: \<open>axtask\<close>. Run queues, context switches, wait queues and timers on several CPUs as a step
    relation, one step for every stretch that other CPUs can interleave with. The invariant is stated on
    a view of the state and shown for every step: one CPU per task, no ready task is lost, no assertion fails.
  \<^item> \<open>Mutex\<close>: \<open>axsync/src/mutex.rs\<close>, one step per atomic access: mutual exclusion and no lost wake-up.
  \<^item> \<open>Vfs\<close>: \<open>axfs/src/root.rs\<close>, \<open>axfs/src/fops.rs\<close>. Mount points, look-up, files and directories with their
    permissions and cursors, over any file systems behind the node interface.
  \<^item> \<open>Paths\<close>: \<open>api/src/path.rs\<close>, \<open>imp/fs/mount.rs\<close> and the path calls of \<open>imp/fs/ctl.rs\<close>, with the table of hard links.
  \<^item> \<open>Io\<close>: \<open>imp/fs/io.rs\<close>, \<open>openat\<close>, \<open>getdents64\<close>, \<open>poll\<close> and the console, on the state that joins descriptors, file
    systems and devices.
  \<^item> \<open>AddrSpace\<close>: \<open>axmm\<close>: areas, backends, page faults, copies of data and of whole address spaces. \<open>AsCopy\<close>
    shows what \<open>read\<close> and \<open>write\<close> do to single bytes, \<open>Fork\<close> that a cloned address space has its own copy of every page,
    \<open>Populate\<close> what page faults and \<open>populate_area\<close> establish.
  \<^item> \<open>UserMem\<close>: \<open>imp/mm\<close>, \<open>api/src/ptr.rs\<close>, \<open>src/src/mm.rs\<close>: \<open>mmap\<close> and its kin, checked user pointers, strings from user
    space, the page fault handler.
  \<^item> \<open>Disk\<close>: \<open>axfs/src/dev.rs\<close> and the disk operations of \<open>fs/fatfs.rs\<close>, \<open>fs/lwext4_rust.rs\<close>. A block device behind a cursor
    is an array of bytes: reads of any length and position return what was written.
  \<^item> \<open>Futex\<close>: \<open>core/src/futex.rs\<close>, \<open>imp/futex.rs\<close>, on the wait queues of \<open>Sched\<close>. The table of queues and its counts;
    first come, first woken; a wake-up between the test of the value and the wait is lost.
  \<^item> \<open>Signals\<close>: \<open>api/src/signal.rs\<close>, \<open>imp/signal.rs\<close>, the process tables of \<open>core/src/task.rs\<close>. Who receives a signal.
  \<^item> \<open>Exit\<close>: \<open>imp/task/exit.rs\<close>, \<open>imp/task/wait.rs\<close>, \<open>imp/task/thread.rs\<close>. What an exit leaves behind and what the parent
    sees, on the states of \<open>Futex\<close>, \<open>Signals\<close> and \<open>FdTable\<close>.

  \<^bold>\<open>Bounds and fuel.\<close> \<open>populate_loop\<close> runs for at most one more round than the range has bytes, which is enough as every
  round reaches the end of an area past its start (\<open>populate_loop_fuel\<close>). \<open>null_terminated_loop\<close> takes a number of
  rounds; any number above the end of the last area is enough. \<open>stdin_raw_read\<close> needs one round per byte.
  \<open>select_index_loop\<close> is a partial function with a proof that it returns when the CPU mask is not empty.
  \<open>do_sendfile\<close> takes its number of rounds as an argument. The loops of \<open>Disk\<close> end because each round shortens the
  buffer, and \<open>notify_all\<close> because each round shortens the queue.

  \<^bold>\<open>Not modelled.\<close> Of processes, \<open>clone\<close>, \<open>execve\<close> and the loading of programs; the tree of processes (\<open>axprocess\<close>) and
  the queues of signals (\<open>axsignal\<close>) are crates outside the repository and parameters.
  The network stack wraps \<open>smoltcp\<close>, the file systems wrap \<open>fatfs\<close> and \<open>lwext4\<close>. Hardware
  abstraction and drivers are assembly and device registers. The system call table, log messages,
  generated configuration and the unikernel interfaces of ArceOS (\<open>arceos_api\<close>, \<open>arceos_posix_api\<close>, \<open>ulib\<close>) are left out.
  Flushing of the TLB, interrupts as such and weak memory are not part of the models.
\<close>

end
